(* ===== verification/Prelude.thy ===== *)
theory Prelude
  imports Main "HOL-Library.Word"
begin

text \<open>
  What every component theory shares: names for the machine integers of the C sources, the values
  an \<^verbatim>\<open>ereport(ERROR, ...)\<close> raises, the state-and-error computations in which the
  stateful C functions are written, and the lemma collections the component proofs draw on.

  A C function that reads and writes global or shared state and may leave through
  \<^verbatim>\<open>ereport\<close> is a function from the state to a result and a state. The state that goes
  with an error is the state at the \<^verbatim>\<open>ereport\<close>: what was written before the error
  stays written, as in shared memory.
\<close>

unbundle bit_operations_syntax

type_synonym u8 = "8 word"
type_synonym u16 = "16 word"
type_synonym u32 = "32 word"
type_synonym u64 = "64 word"

type_synonym Oid = u32

section \<open>Errors\<close>

datatype elevel = ERROR | FATAL | PANIC

datatype errcode =
    ERRCODE_OUT_OF_MEMORY
  | ERRCODE_DUPLICATE_FILE
  | ERRCODE_DATA_CORRUPTED
  | ERRCODE_FILE_ACCESS
  | ERRCODE_FEATURE_NOT_SUPPORTED
  | ERRCODE_INVALID_PARAMETER_VALUE
  | ERRCODE_INTERNAL_ERROR

text \<open>
  \<open>Undefined\<close> is no error of the program: it marks a step the C code takes through a dangling
  pointer or a loop it never leaves, for the theorems to rule out.
\<close>

datatype pg_error = Ereport elevel errcode string | Undefined string

type_synonym ('s, 'a) pg = "'s \<Rightarrow> (pg_error + 'a) \<times> 's"

definition pg_return :: "'a \<Rightarrow> ('s, 'a) pg" where
  "pg_return a s = (Inr a, s)"

definition ereport :: "errcode \<Rightarrow> string \<Rightarrow> ('s, 'a) pg" where
  "ereport code msg s = (Inl (Ereport ERROR code msg), s)"

definition pg_bind :: "('s, 'a) pg \<Rightarrow> ('a \<Rightarrow> ('s, 'b) pg) \<Rightarrow> ('s, 'b) pg" where
  "pg_bind m f s = (case m s of (Inl e, s') \<Rightarrow> (Inl e, s') | (Inr a, s') \<Rightarrow> f a s')"

definition pg_get :: "('s \<Rightarrow> 'a) \<Rightarrow> ('s, 'a) pg" where
  "pg_get f s = (Inr (f s), s)"

definition pg_modify :: "('s \<Rightarrow> 's) \<Rightarrow> ('s, unit) pg" where
  "pg_modify f s = (Inr (), f s)"

text \<open>A C \<^verbatim>\<open>for\<close> loop over a list of values: the first error leaves the loop.\<close>

fun pg_for :: "'a list \<Rightarrow> ('a \<Rightarrow> ('s, unit) pg) \<Rightarrow> ('s, unit) pg" where
  "pg_for [] body = pg_return ()"
| "pg_for (x # xs) body = pg_bind (body x) (\<lambda>_. pg_for xs body)"

text \<open>A loop that fills an array, one result for each value of a list.\<close>

fun pg_mapM :: "('a \<Rightarrow> ('s, 'b) pg) \<Rightarrow> 'a list \<Rightarrow> ('s, 'b list) pg" where
  "pg_mapM f [] = pg_return []"
| "pg_mapM f (x # xs) = pg_bind (f x) (\<lambda>y. pg_bind (pg_mapM f xs) (\<lambda>ys. pg_return (y # ys)))"

text \<open>A step through a dangling or null pointer.\<close>

definition pg_undefined :: "string \<Rightarrow> ('s, 'a) pg" where
  "pg_undefined msg s = (Inl (Undefined msg), s)"

section \<open>Lemma collections and generic lemmas\<close>

named_theorems pg_simps \<open>equations of the state-and-error computations\<close>

lemma pg_return_apply [pg_simps]: "pg_return a s = (Inr a, s)"
  by (simp add: pg_return_def)

lemma ereport_apply [pg_simps]: "ereport code msg s = (Inl (Ereport ERROR code msg), s)"
  by (simp add: ereport_def)

lemma pg_undefined_apply [pg_simps]: "pg_undefined msg s = (Inl (Undefined msg), s)"
  by (simp add: pg_undefined_def)

lemma pg_get_apply [pg_simps]: "pg_get f s = (Inr (f s), s)"
  by (simp add: pg_get_def)

lemma pg_modify_apply [pg_simps]: "pg_modify f s = (Inr (), f s)"
  by (simp add: pg_modify_def)

lemma pg_bind_Inr [pg_simps]: "m s = (Inr a, s') \<Longrightarrow> pg_bind m f s = f a s'"
  by (simp add: pg_bind_def)

lemma pg_bind_Inl [pg_simps]: "m s = (Inl e, s') \<Longrightarrow> pg_bind m f s = (Inl e, s')"
  by (simp add: pg_bind_def)

lemma pg_bind_return [pg_simps]: "pg_bind (pg_return a) f = f a"
  by (simp add: fun_eq_iff pg_bind_def pg_return_def)

lemma pg_bind_get [pg_simps]: "pg_bind (pg_get g) f s = f (g s) s"
  by (simp add: pg_bind_def pg_get_def)

lemma pg_bind_modify [pg_simps]: "pg_bind (pg_modify g) f s = f () (g s)"
  by (simp add: pg_bind_def pg_modify_def)

lemma pg_bind_ereport [pg_simps]: "pg_bind (ereport code msg) f = ereport code msg"
  by (simp add: fun_eq_iff pg_bind_def ereport_def)

lemma pg_bind_if [pg_simps]:
  "pg_bind (if P then m else n) f s = (if P then pg_bind m f s else pg_bind n f s)"
  by simp

lemma pg_bind_InrE:
  assumes "pg_bind m f s = (Inr b, s')"
  obtains a t where "m s = (Inr a, t)" and "f a t = (Inr b, s')"
proof (cases "m s")
  case (Pair r t)
  show ?thesis
  proof (cases r)
    case (Inl e)
    with Pair assms show ?thesis by (simp add: pg_bind_def)
  next
    case (Inr a)
    with Pair assms have "f a t = (Inr b, s')" by (simp add: pg_bind_def)
    with Pair Inr show ?thesis by (intro that) simp_all
  qed
qed

lemma pg_bind_cong:
  "(\<And>a t. m s = (Inr a, t) \<Longrightarrow> f a t = g a t) \<Longrightarrow> pg_bind m f s = pg_bind m g s"
  by (auto simp: pg_bind_def split: sum.splits prod.splits)

text \<open>
  A property that every step of a computation keeps, whether the step returns or raises, holds of
  the state the computation leaves behind.
\<close>

definition keeps :: "('s \<Rightarrow> bool) \<Rightarrow> ('s, 'a) pg \<Rightarrow> bool" where
  "keeps P m \<longleftrightarrow> (\<forall>s. P s \<longrightarrow> P (snd (m s)))"

lemma keepsI: "(\<And>s. P s \<Longrightarrow> P (snd (m s))) \<Longrightarrow> keeps P m"
  by (simp add: keeps_def)

lemma keepsD: "keeps P m \<Longrightarrow> P s \<Longrightarrow> P (snd (m s))"
  by (simp add: keeps_def)

lemma keepsD_Inr: "keeps P m \<Longrightarrow> P s \<Longrightarrow> m s = (r, s') \<Longrightarrow> P s'"
  by (auto dest: keepsD)

lemma keeps_return [simp, intro]: "keeps P (pg_return a)"
  by (simp add: keeps_def pg_return_def)

lemma keeps_get [simp, intro]: "keeps P (pg_get f)"
  by (simp add: keeps_def pg_get_def)

lemma keeps_ereport [simp, intro]: "keeps P (ereport code msg)"
  by (simp add: keeps_def ereport_def)

lemma keeps_bind: "keeps P m \<Longrightarrow> (\<And>a. keeps P (f a)) \<Longrightarrow> keeps P (pg_bind m f)"
  by (auto simp: keeps_def pg_bind_def split: prod.split sum.split)

lemma keeps_if: "(c \<Longrightarrow> keeps P m) \<Longrightarrow> (\<not> c \<Longrightarrow> keeps P n) \<Longrightarrow> keeps P (if c then m else n)"
  by simp

lemma keeps_for: "(\<And>x. x \<in> set xs \<Longrightarrow> keeps P (body x)) \<Longrightarrow> keeps P (pg_for xs body)"
  by (induction xs) (auto intro!: keeps_bind)

lemma pg_for_append:
  "pg_for (xs @ ys) body s = pg_bind (pg_for xs body) (\<lambda>_. pg_for ys body) s"
  by (induction xs arbitrary: s)
     (auto simp: pg_simps pg_bind_def split: prod.splits sum.splits)

section \<open>32-bit words\<close>

lemma unat_of_nat32: "n < 2 ^ 32 \<Longrightarrow> unat (of_nat n :: u32) = n"
  by (simp add: unat_of_nat)

lemma unat_plus_one: "m \<noteq> - 1 \<Longrightarrow> unat (m + 1) = Suc (unat m)" for m :: u32
  by (metis unatSuc add.commute add_eq_0_iff)

lemma less_iff_plus_one: "m \<noteq> - 1 \<Longrightarrow> m < x \<longleftrightarrow> x = m + 1 \<or> m + 1 < x" for m x :: u32
  by (auto simp: word_less_nat_alt unat_plus_one word_unat_eq_iff)

lemma less_plus_one: "m \<noteq> - 1 \<Longrightarrow> m < m + 1" for m :: u32
  by (simp add: word_less_nat_alt unat_plus_one)

lemma take_bit_exp_0: "i \<le> k \<Longrightarrow> take_bit i (2 ^ k :: u32) = 0"
  using take_bit_push_bit [of i k "1 :: u32"]
  by (simp only: push_bit_of_1 diff_is_0_eq [THEN iffD2] take_bit_0 push_bit_of_0)

lemma take_bit_self_less:
  fixes x :: u32
  assumes "k < 32" and "x < 2 ^ k"
  shows "take_bit k x = x"
proof -
  have "unat (2 ^ k :: u32) = 2 ^ k"
    using assms(1) power_strict_increasing [of k 32 "2::nat"] unat_of_nat [of "2 ^ k", where 'a = 32] by simp
  hence "unat x < 2 ^ k" using assms(2) by (simp add: word_less_nat_alt)
  then show ?thesis 
    by (simp add: word_unat_eq_iff unsigned_take_bit_eq take_bit_nat_eq_self)
qed

end
