(* ===== verification/Hashfn.thy ===== *)
theory Hashfn
  imports Prelude
begin

text \<open>
  The byte-string hash functions of \<^verbatim>\<open>src/common/hashfn.c\<close> and
  \<^verbatim>\<open>src/include/common/hashfn.h\<close>: the mixing macros, the aligned and unaligned code
  paths of \<^verbatim>\<open>hash_bytes\<close> and \<^verbatim>\<open>hash_bytes_extended\<close> on both byte
  orders, and the wrappers the hash tables use. A key is the list of its bytes; whether its address
  is word aligned is the flag \<open>aligned\<close>, and \<open>be\<close> is the build's
  \<^verbatim>\<open>WORDS_BIGENDIAN\<close>.
\<close>

section \<open>Mixing\<close>

definition pg_rotate_left32 :: "u32 \<Rightarrow> nat \<Rightarrow> u32" where
  "pg_rotate_left32 w n = (push_bit n w) OR (drop_bit (32 - n) w)"

abbreviation rot :: "u32 \<Rightarrow> nat \<Rightarrow> u32" where
  "rot \<equiv> pg_rotate_left32"

text \<open>One line \<^verbatim>\<open>a -= c; a ^= rot(c, k); c += b;\<close> of the macro.\<close>

definition mix_line :: "u32 \<Rightarrow> u32 \<Rightarrow> u32 \<Rightarrow> nat \<Rightarrow> u32 \<times> u32" where
  "mix_line a b c k = ((a - c) XOR rot c k, c + b)"

definition mix :: "u32 \<times> u32 \<times> u32 \<Rightarrow> u32 \<times> u32 \<times> u32" where
  "mix = (\<lambda>(a, b, c).
     let (a, c) = mix_line a b c 4;
         (b, a) = mix_line b c a 6;
         (c, b) = mix_line c a b 8;
         (a, c) = mix_line a b c 16;
         (b, a) = mix_line b c a 19;
         (c, b) = mix_line c a b 4
     in (a, b, c))"

definition final :: "u32 \<times> u32 \<times> u32 \<Rightarrow> u32 \<times> u32 \<times> u32" where
  "final = (\<lambda>(a, b, c).
     let c = (c XOR b) - rot b 14;
         a = (a XOR c) - rot c 11;
         b = (b XOR a) - rot a 25;
         c = (c XOR b) - rot b 16;
         a = (a XOR c) - rot c 4;
         b = (b XOR a) - rot a 14;
         c = (c XOR b) - rot b 24
     in (a, b, c))"

section \<open>The code paths of \<^verbatim>\<open>hash_bytes\<close>\<close>

text \<open>A word fetch from memory, and the bytes a word occupies there, in the build's byte order.\<close>

definition load32 :: "bool \<Rightarrow> u8 list \<Rightarrow> nat \<Rightarrow> u32" where
  "load32 be k i =
     (let w = [k ! (4 * i), k ! (4 * i + 1), k ! (4 * i + 2), k ! (4 * i + 3)]
      in word_rcat (if be then w else rev w))"

definition store32 :: "bool \<Rightarrow> u32 \<Rightarrow> u8 list" where
  "store32 be w =
     (let bs = [ucast w, ucast (drop_bit 8 w), ucast (drop_bit 16 w), ucast (drop_bit 24 w)]
      in if be then rev bs else bs)"

text \<open>\<^verbatim>\<open>(uint32) k[i] << n\<close>\<close>

definition byte_at :: "u8 list \<Rightarrow> nat \<Rightarrow> nat \<Rightarrow> u32" where
  "byte_at k i n = push_bit n (ucast (k ! i))"

fun hash_loop_aligned :: "bool \<Rightarrow> u32 \<times> u32 \<times> u32 \<Rightarrow> u8 list \<Rightarrow> (u32 \<times> u32 \<times> u32) \<times> u8 list" where
  "hash_loop_aligned be (a, b, c) k =
     (if 12 \<le> length k
      then hash_loop_aligned be (mix (a + load32 be k 0, b + load32 be k 1, c + load32 be k 2)) (drop 12 k)
      else ((a, b, c), k))"

fun hash_loop_unaligned :: "bool \<Rightarrow> u32 \<times> u32 \<times> u32 \<Rightarrow> u8 list \<Rightarrow> (u32 \<times> u32 \<times> u32) \<times> u8 list" where
  "hash_loop_unaligned be (a, b, c) k =
     (if 12 \<le> length k
      then (if be then
              hash_loop_unaligned be (mix
                (a + (byte_at k 3 0 + byte_at k 2 8 + byte_at k 1 16 + byte_at k 0 24),
                 b + (byte_at k 7 0 + byte_at k 6 8 + byte_at k 5 16 + byte_at k 4 24),
                 c + (byte_at k 11 0 + byte_at k 10 8 + byte_at k 9 16 + byte_at k 8 24))) (drop 12 k)
            else
              hash_loop_unaligned be (mix
                (a + (byte_at k 0 0 + byte_at k 1 8 + byte_at k 2 16 + byte_at k 3 24),
                 b + (byte_at k 4 0 + byte_at k 5 8 + byte_at k 6 16 + byte_at k 7 24),
                 c + (byte_at k 8 0 + byte_at k 9 8 + byte_at k 10 16 + byte_at k 11 24))) (drop 12 k))
      else ((a, b, c), k))"

declare hash_loop_aligned.simps [simp del] hash_loop_unaligned.simps [simp del]

text \<open>The fall-through \<^verbatim>\<open>switch (len)\<close> over the last 11 bytes: each \<^verbatim>\<open>case n\<close> that is reached adds its byte.\<close>

definition add_from :: "u8 list \<Rightarrow> (nat \<times> nat) list \<Rightarrow> u32 \<Rightarrow> u32" where
  "add_from k cases x = fold (\<lambda>(i, n) x. if i < length k then x + byte_at k i n else x) cases x"

definition hash_tail_aligned :: "bool \<Rightarrow> u32 \<times> u32 \<times> u32 \<Rightarrow> u8 list \<Rightarrow> u32 \<times> u32 \<times> u32" where
  "hash_tail_aligned be = (\<lambda>(a, b, c) k.
     if be then
       (let c = add_from k [(10, 8), (9, 16), (8, 24)] c in
        if 8 \<le> length k then (a + load32 be k 0, b + load32 be k 1, c)
        else let b = add_from k [(6, 8), (5, 16), (4, 24)] b in
          if 4 \<le> length k then (a + load32 be k 0, b, c)
          else (add_from k [(2, 8), (1, 16), (0, 24)] a, b, c))
     else
       (let c = add_from k [(10, 24), (9, 16), (8, 8)] c in
        if 8 \<le> length k then (a + load32 be k 0, b + load32 be k 1, c)
        else let b = add_from k [(6, 16), (5, 8), (4, 0)] b in
          if 4 \<le> length k then (a + load32 be k 0, b, c)
          else (add_from k [(2, 16), (1, 8), (0, 0)] a, b, c)))"

definition hash_tail_unaligned :: "bool \<Rightarrow> u32 \<times> u32 \<times> u32 \<Rightarrow> u8 list \<Rightarrow> u32 \<times> u32 \<times> u32" where
  "hash_tail_unaligned be = (\<lambda>(a, b, c) k.
     if be then
       (add_from k [(3, 0), (2, 8), (1, 16), (0, 24)] a,
        add_from k [(7, 0), (6, 8), (5, 16), (4, 24)] b,
        add_from k [(10, 8), (9, 16), (8, 24)] c)
     else
       (add_from k [(3, 24), (2, 16), (1, 8), (0, 0)] a,
        add_from k [(7, 24), (6, 16), (5, 8), (4, 0)] b,
        add_from k [(10, 24), (9, 16), (8, 8)] c))"

text \<open>\<^verbatim>\<open>len = keylen; a = b = c = 0x9e3779b9 + len + 3923095;\<close>\<close>

definition hash_init :: "nat \<Rightarrow> u32 \<times> u32 \<times> u32" where
  "hash_init keylen = (let a = 0x9e3779b9 + of_nat keylen + 3923095 in (a, a, a))"

definition hash_body :: "bool \<Rightarrow> bool \<Rightarrow> u32 \<times> u32 \<times> u32 \<Rightarrow> u8 list \<Rightarrow> u32 \<times> u32 \<times> u32" where
  "hash_body be aligned abc k =
     (if aligned
      then (let (abc, k) = hash_loop_aligned be abc k in final (hash_tail_aligned be abc k))
      else (let (abc, k) = hash_loop_unaligned be abc k in final (hash_tail_unaligned be abc k)))"

definition hash_bytes :: "bool \<Rightarrow> bool \<Rightarrow> u8 list \<Rightarrow> u32" where
  "hash_bytes be aligned k = (let (a, b, c) = hash_body be aligned (hash_init (length k)) k in c)"

text \<open>A non-zero seed perturbs the internal state as a 12-byte chunk would.\<close>

definition hash_seed :: "u64 \<Rightarrow> u32 \<times> u32 \<times> u32 \<Rightarrow> u32 \<times> u32 \<times> u32" where
  "hash_seed seed = (\<lambda>(a, b, c).
     if seed \<noteq> 0 then mix (a + ucast (drop_bit 32 seed), b + ucast seed, c) else (a, b, c))"

definition hash_bytes_extended :: "bool \<Rightarrow> bool \<Rightarrow> u8 list \<Rightarrow> u64 \<Rightarrow> u64" where
  "hash_bytes_extended be aligned k seed =
     (let (a, b, c) = hash_body be aligned (hash_seed seed (hash_init (length k))) k
      in push_bit 32 (ucast b) OR ucast c)"

definition hash_bytes_uint32 :: "u32 \<Rightarrow> u32" where
  "hash_bytes_uint32 k =
     (let (a, b, c) = hash_init 4; (a, b, c) = final (a + k, b, c) in c)"

definition hash_bytes_uint32_extended :: "u32 \<Rightarrow> u64 \<Rightarrow> u64" where
  "hash_bytes_uint32_extended k seed =
     (let (a, b, c) = hash_seed seed (hash_init 4); (a, b, c) = final (a + k, b, c)
      in push_bit 32 (ucast b) OR ucast c)"

text \<open>A C string in a buffer runs to its first NUL.\<close>

definition strlen :: "u8 list \<Rightarrow> nat" where
  "strlen key = length (takeWhile (\<lambda>ch. ch \<noteq> 0) key)"

text \<open>What \<^verbatim>\<open>strlcpy(dst, src, siz)\<close> writes to \<^verbatim>\<open>dst\<close>.\<close>

fun strlcpy :: "u8 list \<Rightarrow> nat \<Rightarrow> u8 list" where
  "strlcpy src 0 = []"
| "strlcpy src (Suc 0) = [0]"
| "strlcpy [] (Suc (Suc n)) = [0]"
| "strlcpy (ch # src) (Suc (Suc n)) = (if ch = 0 then [0] else ch # strlcpy src (Suc n))"

definition string_hash :: "bool \<Rightarrow> bool \<Rightarrow> u8 list \<Rightarrow> nat \<Rightarrow> u32" where
  "string_hash be aligned key keysize =
     (let s_len = min (strlen key) (keysize - 1) in hash_bytes be aligned (take s_len key))"

definition tag_hash :: "bool \<Rightarrow> bool \<Rightarrow> u8 list \<Rightarrow> nat \<Rightarrow> u32" where
  "tag_hash be aligned key keysize = hash_bytes be aligned (take keysize key)"

definition uint32_hash :: "bool \<Rightarrow> u8 list \<Rightarrow> u32" where
  "uint32_hash be key = hash_bytes_uint32 (load32 be key 0)"

definition hash_combine :: "u32 \<Rightarrow> u32 \<Rightarrow> u32" where
  "hash_combine a b = a XOR (b + 0x9e3779b9 + push_bit 6 a + drop_bit 2 a)"

section \<open>Lemmas\<close>

lemma mix_line_inverse:
  "mix_line a b c k = (a', c') \<Longrightarrow> c = c' - b \<and> a = (a' XOR rot (c' - b) k) + (c' - b)"
  by (auto simp: mix_line_def xor.assoc)

lemma mix_line_inj:
  "mix_line a b c k = mix_line a' b c' k \<Longrightarrow> a = a' \<and> c = c'"
  by (cases "mix_line a b c k") (metis mix_line_inverse)

lemma load32_le:
  "load32 False k i = byte_at k (4 * i) 0 + byte_at k (4 * i + 1) 8
     + byte_at k (4 * i + 2) 16 + byte_at k (4 * i + 3) 24"
  by (simp add: load32_def byte_at_def word_rcat_def push_bit_eq_mult word_of_int_uint algebra_simps)

lemma load32_be:
  "load32 True k i = byte_at k (4 * i + 3) 0 + byte_at k (4 * i + 2) 8
     + byte_at k (4 * i + 1) 16 + byte_at k (4 * i) 24"
  by (simp add: load32_def byte_at_def word_rcat_def push_bit_eq_mult word_of_int_uint algebra_simps)

lemmas load32_bytes = load32_le load32_be

lemma hash_loop_eq: "hash_loop_aligned be abc k = hash_loop_unaligned be abc k"
proof (induction be abc k rule: hash_loop_aligned.induct)
  case (1 be a b c k)
  show ?case
  proof (cases "12 \<le> length k")
    case True
    with 1 show ?thesis
      by (cases be)
         (simp_all add: hash_loop_aligned.simps [of _ a b c k] hash_loop_unaligned.simps [of _ a b c k]
            load32_bytes numeral_2_eq_2)
  next
    case False
    then show ?thesis
      by (simp add: hash_loop_aligned.simps [of _ a b c k] hash_loop_unaligned.simps [of _ a b c k])
  qed
qed

lemma hash_loop_rest: "length (snd (hash_loop_unaligned be abc k)) < 12"
proof (induction be abc k rule: hash_loop_unaligned.induct)
  case (1 be a b c k)
  then show ?case
    by (cases be) (auto simp: hash_loop_unaligned.simps [of _ a b c k])
qed

lemma hash_tail_eq:
  assumes "length k < 12"
  shows "hash_tail_aligned be abc k = hash_tail_unaligned be abc k"
  using assms
  by (cases abc; cases be)
     (auto simp: hash_tail_aligned_def hash_tail_unaligned_def add_from_def Let_def load32_bytes
        numeral_2_eq_2 algebra_simps)

lemma hash_body_alignment: "hash_body be aligned abc k = hash_body be aligned' abc k"
proof -
  have "hash_body be True abc k = hash_body be False abc k"
  proof (cases "hash_loop_unaligned be abc k")
    case (Pair abc' k')
    with hash_loop_rest [of be abc k] have "length k' < 12" by simp
    with Pair show ?thesis by (simp add: hash_body_def hash_loop_eq hash_tail_eq)
  qed
  then show ?thesis by (cases aligned; cases aligned') simp_all
qed

lemma length_store32 [simp]: "length (store32 be w) = 4"
  by (simp add: store32_def Let_def)

lemma split_low_byte: "take_bit 8 (x :: u32) + 256 * drop_bit 8 x = x"
  using bits_ident [of 8 x] by (simp add: push_bit_eq_mult algebra_simps)

lemma load32_store32_le: "load32 False (store32 False w) 0 = w"
proof -
  have low: "(ucast (ucast x :: u8) :: u32) = take_bit 8 x" for x :: u32
    by (simp add: unsigned_ucast_eq)
  have top: "take_bit 8 (drop_bit 24 w) = drop_bit 24 w"
  proof (rule bit_word_eqI)
    fix n
    show "bit (take_bit 8 (drop_bit 24 w)) n = bit (drop_bit 24 w) n"
      using bit_imp_le_length [of w "24 + n"] by (auto simp: bit_simps)
  qed
  have "load32 False (store32 False w) 0 = take_bit 8 w + 256 * (take_bit 8 (drop_bit 8 w)
      + 256 * (take_bit 8 (drop_bit 16 w) + 256 * drop_bit 24 w))"
    by (simp add: load32_le store32_def byte_at_def low top push_bit_eq_mult numeral_2_eq_2
        numeral_3_eq_3 algebra_simps)
  also have "\<dots> = w"
    using split_low_byte [of w] split_low_byte [of "drop_bit 8 w"] split_low_byte [of "drop_bit 16 w"]
    by (simp add: drop_bit_drop_bit)
  finally show ?thesis .
qed

lemma load32_store32: "load32 be (store32 be w) 0 = w"
proof (cases be)
  case True
  have "load32 True (store32 True w) 0 = load32 False (store32 False w) 0"
    by (simp add: load32_def store32_def numeral_2_eq_2 numeral_3_eq_3)
  with True show ?thesis by (simp add: load32_store32_le)
qed (simp add: load32_store32_le)

lemma hash_loop_short: "length k < 12 \<Longrightarrow> hash_loop_aligned be abc k = (abc, k)"
  by (cases abc) (simp add: hash_loop_aligned.simps)

lemma hash_body_word:
  assumes "length k = 4"
  shows "hash_body be aligned (a, b, c) k = final (a + load32 be k 0, b, c)"
proof -
  have "hash_body be aligned (a, b, c) k = hash_body be True (a, b, c) k"
    by (rule hash_body_alignment)
  also have "\<dots> = final (a + load32 be k 0, b, c)"
    using assms by (simp add: hash_body_def hash_loop_short hash_tail_aligned_def add_from_def Let_def)
  finally show ?thesis .
qed

lemma inj_mix: "inj mix"
proof -
  define A where "A k = (\<lambda>(a, b, c). let (a, c) = mix_line a b c k in (a, b, c))" for k
  define B where "B k = (\<lambda>(a, b, c). let (b, a) = mix_line b c a k in (a, b, c))" for k
  define C where "C k = (\<lambda>(a, b, c). let (c, b) = mix_line c a b k in (a, b, c))" for k
  have "inj (A k)" and "inj (B k)" and "inj (C k)" for k
    by (auto simp: A_def B_def C_def inj_def split: prod.splits dest: mix_line_inverse)
  then have "inj (C 4 \<circ> B 19 \<circ> A 16 \<circ> C 8 \<circ> B 6 \<circ> A 4)"
    by (intro inj_compose)
  also have "C 4 \<circ> B 19 \<circ> A 16 \<circ> C 8 \<circ> B 6 \<circ> A 4 = mix"
    by (auto simp: fun_eq_iff mix_def A_def B_def C_def Let_def split: prod.splits)
  finally show ?thesis .
qed

lemma strlen_copy: "n \<le> strlen key \<Longrightarrow> strlen (take n key @ [0]) = n"
  unfolding strlen_def
proof (induction key arbitrary: n)
  case (Cons ch key)
  then show ?case by (cases n) (auto split: if_splits)
qed simp

lemma strlcpy_eq: "0 < siz \<Longrightarrow> strlcpy src siz = take (min (strlen src) (siz - 1)) src @ [0]"
  by (induction src siz rule: strlcpy.induct) (auto simp: strlen_def)

lemma strlen_le: "strlen key \<le> length key"
  by (simp add: strlen_def length_takeWhile_le)

section \<open>Properties\<close>

text \<open>C36: both byte orders hash a key to the same value on the word-at-a-time path for aligned keys
  as on the byte-at-a-time path, for the plain and for the seeded 64-bit function, so where a key
  lies in memory never changes its bucket.\<close>

theorem hash_bytes_alignment:
  "hash_bytes be True k = hash_bytes be False k \<and>
   hash_bytes_extended be True k seed = hash_bytes_extended be False k seed"
  by (simp add: hash_bytes_def hash_bytes_extended_def hash_body_alignment [of be True _ k False])

text \<open>C37: \<^verbatim>\<open>hash_bytes_uint32\<close> gives what \<^verbatim>\<open>hash_bytes\<close> gives on
  the four bytes of the value, in either byte order and at any address, and the same holds of the
  seeded variants.\<close>

theorem hash_bytes_uint32_agrees:
  "hash_bytes_uint32 w = hash_bytes be aligned (store32 be w) \<and>
   hash_bytes_uint32_extended w seed = hash_bytes_extended be aligned (store32 be w) seed"
  by (simp add: hash_bytes_uint32_def hash_bytes_uint32_extended_def hash_bytes_def
      hash_bytes_extended_def hash_init_def hash_body_word load32_store32 Let_def split: prod.split)

text \<open>C38: \<^verbatim>\<open>mix\<close> loses no information: it is a permutation of the 96-bit state.\<close>

theorem mix_reversible: "bij mix"
  by (intro bijI inj_mix finite_UNIV_inj_surj) simp_all

text \<open>C39: a string key hashes to the same value as the copy of it that
  \<^verbatim>\<open>strlcpy\<close> leaves in a table entry of \<^verbatim>\<open>keysize\<close> bytes, truncated or not,
  wherever the two lie in memory.\<close>

theorem string_hash_of_copy:
  assumes "0 < keysize"
  shows "string_hash be aligned (strlcpy key keysize) keysize = string_hash be aligned' key keysize"
proof -
  define n where "n = min (strlen key) (keysize - 1)"
  have copy: "strlcpy key keysize = take n key @ [0]"
    using assms by (simp add: strlcpy_eq n_def)
  have "n \<le> length key" using strlen_le [of key] by (simp add: n_def)
  moreover have "strlen (take n key @ [0]) = n" by (rule strlen_copy) (simp add: n_def)
  moreover have "min n (keysize - 1) = n" by (simp add: n_def)
  ultimately have "string_hash be aligned (strlcpy key keysize) keysize = hash_bytes be aligned (take n key)"
    using copy by (simp add: string_hash_def)
  also have "\<dots> = hash_bytes be aligned' (take n key)"
    by (simp add: hash_bytes_def hash_body_alignment [of be aligned _ _ aligned'])
  also have "\<dots> = string_hash be aligned' key keysize"
    by (simp add: string_hash_def n_def)
  finally show ?thesis .
qed

theorem string_hash_of_copy_witness:
  "strlcpy [102, 111, 111, 98] 3 = [102, 111, 0] \<and>
   string_hash False True (strlcpy [102, 111, 111, 98] 3) 3 = string_hash False False [102, 111, 111, 98] 3"
  using string_hash_of_copy [of 3 False True "[102, 111, 111, 98]" False]
  by (simp add: numeral_3_eq_3)

end
