(* ===== verification/Dynahash.thy ===== *)
theory Dynahash
  imports Hashfn
begin

text \<open>
  The dynamic hash tables of \<^verbatim>\<open>src/backend/utils/hash/dynahash.c\<close>, for keys compared
  as blobs (\<^verbatim>\<open>HASH_BLOBS\<close>, the flavour every fastpg table uses): linear hashing with a
  directory of 256-bucket segments, the freelists of partitioned and unpartitioned tables, entry
  allocation that may fail, bucket splits, sequential scans and their registry.

  An element pointer is the key of the element, which is unique in the table. The payload of an
  element on a freelist is what its last use left there; \<open>junk\<close> is the content of element
  memory that was never used. Each call of the allocator takes one flag from
  \<open>alloc_fails\<close>: \<open>True\<close> is an allocation that returns NULL, and the allocator succeeds once
  the list is used up. Spinlocks do not appear: each operation runs alone, as its callers' locks
  ensure.
\<close>

section \<open>Data\<close>

record ('k, 'v) HASHELEMENT =
  hashvalue :: u32
  ekey :: 'k
  edata :: 'v

type_synonym ('k, 'v) HASHBUCKET = "('k, 'v) HASHELEMENT list"
type_synonym ('k, 'v) HASHSEGMENT = "('k, 'v) HASHBUCKET list"

record 'v FreeListData =
  nentries :: int
  freeList :: "'v list"

record ('k, 'v) HTAB =
  hash :: "'k \<Rightarrow> u32"
  freeLists :: "'v FreeListData list"
  dsize :: nat
  dir :: "('k, 'v) HASHSEGMENT list"
  max_bucket :: u32
  high_mask :: u32
  low_mask :: u32
  num_partitions :: nat
  max_dsize :: "nat option"
  nelem_alloc :: nat
  isfixed :: bool
  isshared :: bool
  frozen :: bool
  junk :: 'v
  alloc_fails :: "bool list"

datatype HASHACTION = HASH_FIND | HASH_ENTER | HASH_REMOVE | HASH_ENTER_NULL

definition HASH_SEGSIZE :: nat where "HASH_SEGSIZE = 256"
definition HASH_SEGSIZE_SHIFT :: nat where "HASH_SEGSIZE_SHIFT = 8"
definition DEF_DIRSIZE :: nat where "DEF_DIRSIZE = 256"
definition NUM_FREELISTS :: nat where "NUM_FREELISTS = 32"

definition IS_PARTITIONED :: "('k, 'v) HTAB \<Rightarrow> bool" where
  "IS_PARTITIONED t \<longleftrightarrow> num_partitions t \<noteq> 0"

definition FREELIST_IDX :: "('k, 'v) HTAB \<Rightarrow> u32 \<Rightarrow> nat" where
  "FREELIST_IDX t hashcode = (if IS_PARTITIONED t then unat hashcode mod NUM_FREELISTS else 0)"

text \<open>The allocator behind \<^verbatim>\<open>hashp->alloc\<close>: whether this request succeeds.\<close>

definition htab_alloc :: "('k, 'v) HTAB \<Rightarrow> bool \<times> ('k, 'v) HTAB" where
  "htab_alloc t = (case alloc_fails t of [] \<Rightarrow> (True, t) | f # fs \<Rightarrow> (\<not> f, t\<lparr>alloc_fails := fs\<rparr>))"

section \<open>Buckets\<close>

definition calc_bucket :: "('k, 'v) HTAB \<Rightarrow> u32 \<Rightarrow> u32" where
  "calc_bucket t hash_val =
     (let bucket = hash_val AND high_mask t in
      if max_bucket t < bucket then bucket AND low_mask t else bucket)"

definition segment_num :: "u32 \<Rightarrow> nat" where
  "segment_num bucket = unat (drop_bit HASH_SEGSIZE_SHIFT bucket)"

definition segment_ndx :: "u32 \<Rightarrow> nat" where
  "segment_ndx bucket = unat (bucket AND 255)"

definition get_bucket :: "('k, 'v) HTAB \<Rightarrow> u32 \<Rightarrow> ('k, 'v) HASHBUCKET" where
  "get_bucket t b = dir t ! segment_num b ! segment_ndx b"

definition put_bucket :: "u32 \<Rightarrow> ('k, 'v) HASHBUCKET \<Rightarrow> ('k, 'v) HTAB \<Rightarrow> ('k, 'v) HTAB" where
  "put_bucket b chain t =
     t\<lparr>dir := (dir t)[segment_num b := (dir t ! segment_num b)[segment_ndx b := chain]]\<rparr>"

text \<open>The bucket a hash value belongs to; a missing segment means the table is corrupt.\<close>

definition hash_initial_lookup :: "u32 \<Rightarrow> (('k, 'v) HTAB, u32) pg" where
  "hash_initial_lookup hv t =
     (let bucket = calc_bucket t hv in
      if length (dir t) \<le> segment_num bucket
      then (Inl (Ereport (if isshared t then PANIC else FATAL) ERRCODE_INTERNAL_ERROR
                  ''hash table corrupted''), t)
      else (Inr bucket, t))"

section \<open>Entry allocation\<close>

definition element_alloc :: "nat \<Rightarrow> nat \<Rightarrow> ('k, 'v) HTAB \<Rightarrow> bool \<times> ('k, 'v) HTAB" where
  "element_alloc nelem idx t =
     (if isfixed t then (False, t)
      else case htab_alloc t of
        (False, t) \<Rightarrow> (False, t)
      | (True, t) \<Rightarrow>
          (let fl = freeLists t ! idx in
           (True, t\<lparr>freeLists := (freeLists t)[idx := fl\<lparr>freeList := replicate nelem (junk t) @ freeList fl\<rparr>]\<rparr>)))"

definition freelist_pop :: "nat \<Rightarrow> ('k, 'v) HTAB \<Rightarrow> ('k, 'v) HTAB" where
  "freelist_pop idx t =
     (let fl = freeLists t ! idx in
      t\<lparr>freeLists := (freeLists t)[idx := fl\<lparr>freeList := tl (freeList fl)\<rparr>]\<rparr>)"

definition freelist_count :: "nat \<Rightarrow> int \<Rightarrow> ('k, 'v) HTAB \<Rightarrow> ('k, 'v) HTAB" where
  "freelist_count idx d t =
     (let fl = freeLists t ! idx in
      t\<lparr>freeLists := (freeLists t)[idx := fl\<lparr>nentries := nentries fl + d\<rparr>]\<rparr>)"

text \<open>The other freelists in the order the borrowing loop looks at them.\<close>

definition borrow_order :: "nat \<Rightarrow> nat list" where
  "borrow_order idx = map (\<lambda>d. (idx + d) mod NUM_FREELISTS) [1..<NUM_FREELISTS]"

definition get_hash_entry_borrow :: "nat \<Rightarrow> ('k, 'v) HTAB \<Rightarrow> 'v option \<times> ('k, 'v) HTAB" where
  "get_hash_entry_borrow idx t =
     (case find (\<lambda>i. freeList (freeLists t ! i) \<noteq> []) (borrow_order idx) of
        None \<Rightarrow> (None, t)
      | Some i \<Rightarrow> (Some (hd (freeList (freeLists t ! i))), freelist_count idx 1 (freelist_pop i t)))"

text \<open>
  The \<^verbatim>\<open>for (;;)\<close> loop runs at most twice, since a successful
  \<^verbatim>\<open>element_alloc\<close> leaves elements on the freelist (\<open>nelem_alloc\<close> is positive); the
  last branch is not reached.
\<close>

definition get_hash_entry :: "nat \<Rightarrow> ('k, 'v) HTAB \<Rightarrow> 'v option \<times> ('k, 'v) HTAB" where
  "get_hash_entry idx t =
     (case freeList (freeLists t ! idx) of
        v # _ \<Rightarrow> (Some v, freelist_count idx 1 (freelist_pop idx t))
      | [] \<Rightarrow>
          (case element_alloc (nelem_alloc t) idx t of
             (False, t) \<Rightarrow> if IS_PARTITIONED t then get_hash_entry_borrow idx t else (None, t)
           | (True, t) \<Rightarrow>
               (case freeList (freeLists t ! idx) of
                  v # _ \<Rightarrow> (Some v, freelist_count idx 1 (freelist_pop idx t))
                | [] \<Rightarrow> (None, t))))"

section \<open>Bucket splits\<close>

definition seg_alloc :: "('k, 'v) HTAB \<Rightarrow> ('k, 'v) HASHSEGMENT option \<times> ('k, 'v) HTAB" where
  "seg_alloc t = (case htab_alloc t of (False, t) \<Rightarrow> (None, t) | (True, t) \<Rightarrow> (Some (replicate HASH_SEGSIZE []), t))"

definition dir_realloc :: "('k, 'v) HTAB \<Rightarrow> bool \<times> ('k, 'v) HTAB" where
  "dir_realloc t =
     (if max_dsize t \<noteq> None then (False, t)
      else case htab_alloc t of
        (False, t) \<Rightarrow> (False, t)
      | (True, t) \<Rightarrow> (True, t\<lparr>dsize := 2 * dsize t\<rparr>))"

text \<open>Make room for the new bucket: allocate its segment, and a larger directory, where needed.\<close>

definition expand_segment :: "u32 \<Rightarrow> ('k, 'v) HTAB \<Rightarrow> bool \<times> ('k, 'v) HTAB" where
  "expand_segment new_bucket t =
     (if segment_num new_bucket < length (dir t) then (True, t)
      else case (if dsize t \<le> segment_num new_bucket then dir_realloc t else (True, t)) of
        (False, t) \<Rightarrow> (False, t)
      | (True, t) \<Rightarrow>
          (case seg_alloc t of
             (None, t) \<Rightarrow> (False, t)
           | (Some seg, t) \<Rightarrow> (True, t\<lparr>dir := dir t @ [seg]\<rparr>)))"

text \<open>Move the masks past a power of two.\<close>

definition expand_masks :: "u32 \<Rightarrow> ('k, 'v) HTAB \<Rightarrow> ('k, 'v) HTAB" where
  "expand_masks new_bucket t =
     (if high_mask t < new_bucket
      then t\<lparr>low_mask := high_mask t, high_mask := new_bucket OR high_mask t\<rparr>
      else t)"

definition expand_table :: "('k, 'v) HTAB \<Rightarrow> bool \<times> ('k, 'v) HTAB" where
  "expand_table t =
     (let new_bucket = max_bucket t + 1 in
      case expand_segment new_bucket t of
        (False, t) \<Rightarrow> (False, t)
      | (True, t) \<Rightarrow>
          (let t = t\<lparr>max_bucket := max_bucket t + 1\<rparr>;
               old_bucket = new_bucket AND low_mask t;
               t = expand_masks new_bucket t;
               chain = get_bucket t old_bucket;
               stays = (\<lambda>e. calc_bucket t (hashvalue e) = old_bucket)
           in (True, put_bucket new_bucket (filter (Not \<circ> stays) chain)
                       (put_bucket old_bucket (filter stays chain) t))))"

section \<open>Search\<close>

definition matches :: "u32 \<Rightarrow> 'k \<Rightarrow> ('k, 'v) HASHELEMENT \<Rightarrow> bool" where
  "matches hv k e \<longleftrightarrow> hashvalue e = hv \<and> ekey e = k"

text \<open>Split a bucket if this is an insertion into a table that is full, may split and is not being scanned.\<close>

definition maybe_expand :: "bool \<Rightarrow> HASHACTION \<Rightarrow> ('k, 'v) HTAB \<Rightarrow> ('k, 'v) HTAB" where
  "maybe_expand scanned action t =
     (if (action = HASH_ENTER \<or> action = HASH_ENTER_NULL) \<and>
         uint (max_bucket t) < nentries (freeLists t ! 0) \<and>
         \<not> IS_PARTITIONED t \<and> \<not> frozen t \<and> \<not> scanned
      then snd (expand_table t) else t)"

text \<open>
  The result is the payload of the element found, entered or removed (\<open>None\<close> for NULL) and the
  value of \<^verbatim>\<open>*foundPtr\<close>. \<open>scanned\<close> is \<^verbatim>\<open>has_seq_scans(hashp)\<close>.
\<close>

definition hash_search_with_hash_value ::
  "bool \<Rightarrow> 'k \<Rightarrow> u32 \<Rightarrow> HASHACTION \<Rightarrow> (('k, 'v) HTAB, 'v option \<times> bool) pg" where
  "hash_search_with_hash_value scanned k hv action t0 =
     (let t = maybe_expand scanned action t0; idx = FREELIST_IDX t hv in
      case hash_initial_lookup hv t of
        (Inl err, t) \<Rightarrow> (Inl err, t)
      | (Inr b, t) \<Rightarrow>
          (let chain = get_bucket t b in
           case find (matches hv k) chain of
             Some e \<Rightarrow>
               (if action = HASH_REMOVE
                then (let t = freelist_count idx (-1) t;
                          t = put_bucket b (remove1 e chain) t;
                          fl = freeLists t ! idx;
                          t = t\<lparr>freeLists := (freeLists t)[idx := fl\<lparr>freeList := edata e # freeList fl\<rparr>]\<rparr>
                      in (Inr (Some (edata e), True), t))
                else (Inr (Some (edata e), True), t))
           | None \<Rightarrow>
               (if action = HASH_FIND \<or> action = HASH_REMOVE then (Inr (None, False), t)
                else if frozen t
                then (Inl (Ereport ERROR ERRCODE_INTERNAL_ERROR ''cannot insert into frozen hashtable''), t)
                else case get_hash_entry idx t of
                  (None, t) \<Rightarrow>
                    if action = HASH_ENTER_NULL then (Inr (None, False), t)
                    else (Inl (Ereport ERROR ERRCODE_OUT_OF_MEMORY
                                (if isshared t then ''out of shared memory'' else ''out of memory'')), t)
                | (Some stale, t) \<Rightarrow>
                    (Inr (Some stale, False),
                     put_bucket b (chain @ [\<lparr>hashvalue = hv, ekey = k, edata = stale\<rparr>]) t))))"

definition hash_search :: "bool \<Rightarrow> 'k \<Rightarrow> HASHACTION \<Rightarrow> (('k, 'v) HTAB, 'v option \<times> bool) pg" where
  "hash_search scanned k action t = hash_search_with_hash_value scanned k (hash t k) action t"

text \<open>A store through the pointer that \<^verbatim>\<open>hash_search\<close> returned for \<open>k\<close>.\<close>

definition hash_store :: "'k \<Rightarrow> 'v \<Rightarrow> ('k, 'v) HTAB \<Rightarrow> ('k, 'v) HTAB" where
  "hash_store k v t =
     (let b = calc_bucket t (hash t k) in
      put_bucket b (map (\<lambda>e. if matches (hash t k) k e then e\<lparr>edata := v\<rparr> else e) (get_bucket t b)) t)"

definition hash_get_num_entries :: "('k, 'v) HTAB \<Rightarrow> int" where
  "hash_get_num_entries t =
     (if IS_PARTITIONED t
      then fold (\<lambda>i sum. sum + nentries (freeLists t ! i)) [1..<NUM_FREELISTS] (nentries (freeLists t ! 0))
      else nentries (freeLists t ! 0))"

definition hash_freeze :: "bool \<Rightarrow> (('k, 'v) HTAB, unit) pg" where
  "hash_freeze scanned t =
     (if isshared t then ereport ERRCODE_INTERNAL_ERROR ''cannot freeze shared hashtable'' t
      else if \<not> frozen t \<and> scanned
      then ereport ERRCODE_INTERNAL_ERROR ''cannot freeze hashtable because it has active scans'' t
      else (Inr (), t\<lparr>frozen := True\<rparr>))"

section \<open>Invariant and abstraction\<close>

text \<open>
  The abstract value of a table is a partial map. The invariant says that the masks frame the
  bucket range as linear hashing needs, every bucket in range exists, every element lies in the
  bucket of its hash value under its own key's hash, keys are unique, and the entry counters of the
  freelists agree with the chains.
\<close>

definition htab_map :: "('k, 'v) HTAB \<Rightarrow> 'k \<Rightarrow> 'v option" where
  "htab_map t k = map_option edata (find (matches (hash t k) k) (get_bucket t (calc_bucket t (hash t k))))"

definition bucket_count :: "(('k, 'v) HASHELEMENT \<Rightarrow> bool) \<Rightarrow> ('k, 'v) HTAB \<Rightarrow> nat" where
  "bucket_count P t = (\<Sum>i \<le> unat (max_bucket t). length (filter P (get_bucket t (of_nat i))))"

definition htab_shape :: "('k, 'v) HTAB \<Rightarrow> bool" where
  "htab_shape t \<longleftrightarrow>
     length (freeLists t) = NUM_FREELISTS \<and> 0 < nelem_alloc t \<and>
     (\<forall>seg \<in> set (dir t). length seg = HASH_SEGSIZE) \<and>
     unat (max_bucket t) < HASH_SEGSIZE * length (dir t) \<and>
     (\<exists>n < 32. low_mask t = mask n \<and> high_mask t = mask (Suc n) \<and>
        mask n \<le> max_bucket t \<and> max_bucket t \<le> mask (Suc n))"

definition htab_chains :: "('k, 'v) HTAB \<Rightarrow> bool" where
  "htab_chains t \<longleftrightarrow>
     (\<forall>b \<le> max_bucket t. distinct (map ekey (get_bucket t b)) \<and>
        (\<forall>e \<in> set (get_bucket t b). hashvalue e = hash t (ekey e) \<and> calc_bucket t (hashvalue e) = b))"

definition htab_counts :: "('k, 'v) HTAB \<Rightarrow> bool" where
  "htab_counts t \<longleftrightarrow>
     (\<forall>i < NUM_FREELISTS.
        nentries (freeLists t ! i) = int (bucket_count (\<lambda>e. FREELIST_IDX t (hashvalue e) = i) t))"

definition htab_inv :: "('k, 'v) HTAB \<Rightarrow> bool" where
  "htab_inv t \<longleftrightarrow> htab_shape t \<and> htab_chains t \<and> htab_counts t"

subsection \<open>Buckets and segments\<close>

lemmas hash_consts = HASH_SEGSIZE_def HASH_SEGSIZE_SHIFT_def DEF_DIRSIZE_def NUM_FREELISTS_def

lemma segment_num_div: "segment_num b = unat b div 256"
  by (simp add: segment_num_def hash_consts drop_bit_eq_div unat_div)

lemma segment_ndx_mod: "segment_ndx b = unat b mod 256"
proof -
  have "b AND 255 = take_bit 8 b"
    by (simp add: take_bit_eq_mask mask_eq_exp_minus_1)
  then show ?thesis
    by (simp add: segment_ndx_def take_bit_eq_mod unat_mod)
qed

lemma segment_pos_eq: "segment_num b = segment_num b' \<Longrightarrow> segment_ndx b = segment_ndx b' \<Longrightarrow> b = b'"
  unfolding segment_num_div segment_ndx_mod
  by (metis div_mult_mod_eq unsigned_word_eqI)

lemma put_bucket_sel [simp]:
  "hash (put_bucket b c t) = hash t" "freeLists (put_bucket b c t) = freeLists t"
  "max_bucket (put_bucket b c t) = max_bucket t" "high_mask (put_bucket b c t) = high_mask t"
  "low_mask (put_bucket b c t) = low_mask t" "num_partitions (put_bucket b c t) = num_partitions t"
  "frozen (put_bucket b c t) = frozen t" "isfixed (put_bucket b c t) = isfixed t"
  "isshared (put_bucket b c t) = isshared t" "nelem_alloc (put_bucket b c t) = nelem_alloc t"
  "junk (put_bucket b c t) = junk t" "alloc_fails (put_bucket b c t) = alloc_fails t"
  "dsize (put_bucket b c t) = dsize t" "max_dsize (put_bucket b c t) = max_dsize t"
  "length (dir (put_bucket b c t)) = length (dir t)"
  by (simp_all add: put_bucket_def)

lemma calc_bucket_cong:
  "high_mask t = high_mask t' \<Longrightarrow> low_mask t = low_mask t' \<Longrightarrow> max_bucket t = max_bucket t' \<Longrightarrow>
   calc_bucket t h = calc_bucket t' h"
  by (simp add: calc_bucket_def Let_def)

lemma FREELIST_IDX_cong: "num_partitions t = num_partitions t' \<Longrightarrow> FREELIST_IDX t h = FREELIST_IDX t' h"
  by (simp add: FREELIST_IDX_def IS_PARTITIONED_def)

lemma get_bucket_cong: "dir t = dir t' \<Longrightarrow> get_bucket t b = get_bucket t' b"
  by (simp add: get_bucket_def)

lemma calc_bucket_put [simp]: "calc_bucket (put_bucket b c t) = calc_bucket t"
  by (rule ext) (rule calc_bucket_cong, simp_all)

lemma FREELIST_IDX_put [simp]: "FREELIST_IDX (put_bucket b c t) = FREELIST_IDX t"
  by (rule ext) (rule FREELIST_IDX_cong, simp)

lemma get_put_bucket:
  assumes "segment_num b < length (dir t)" and "\<forall>seg \<in> set (dir t). length seg = HASH_SEGSIZE"
  shows "get_bucket (put_bucket b c t) b' = (if b' = b then c else get_bucket t b')"
proof -
  have "segment_ndx b < length (dir t ! segment_num b)"
    using assms by (simp add: segment_ndx_mod hash_consts)
  with assms(1) show ?thesis
    by (auto simp: get_bucket_def put_bucket_def nth_list_update dest: segment_pos_eq)
qed

lemma htab_shape_segment:
  assumes "htab_shape t" and "b \<le> max_bucket t"
  shows "segment_num b < length (dir t)"
proof -
  have "unat b \<le> unat (max_bucket t)" using assms(2) by (simp add: word_le_nat_alt)
  with assms(1) show ?thesis by (auto simp: htab_shape_def segment_num_div hash_consts)
qed

lemma htab_shape_get_put:
  "htab_shape t \<Longrightarrow> b \<le> max_bucket t \<Longrightarrow>
   get_bucket (put_bucket b c t) b' = (if b' = b then c else get_bucket t b')"
  by (rule get_put_bucket) (simp_all add: htab_shape_segment htab_shape_def)

lemma htab_shape_put [simp]: "htab_shape t \<Longrightarrow> b \<le> max_bucket t \<Longrightarrow> htab_shape (put_bucket b c t)"
  using htab_shape_segment [of t b]
  by (auto simp: htab_shape_def put_bucket_def dest!: set_update_subset_insert [THEN subsetD])

lemma calc_bucket_le: "htab_shape t \<Longrightarrow> calc_bucket t h \<le> max_bucket t"
  unfolding htab_shape_def calc_bucket_def Let_def
  by (auto simp: not_less) (metis word_and_le1 order_trans)

lemma unat_of_nat_le: "i \<le> unat m \<Longrightarrow> unat (of_nat i :: u32) = i" for m :: u32
proof -
  assume "i \<le> unat m"
  also have "unat m < 2 ^ LENGTH(32)" by (rule unsigned_less)
  finally show ?thesis by (simp add: unat_of_nat take_bit_nat_eq_self)
qed

lemma of_nat_eq_unat: "i \<le> unat m \<Longrightarrow> (of_nat i :: u32) = b \<longleftrightarrow> i = unat b" for m :: u32
  by (metis unat_of_nat_le of_nat_unat ucast_id)

lemma bucket_count_put:
  assumes "htab_shape t" and "b \<le> max_bucket t"
  shows "bucket_count P (put_bucket b c t) + length (filter P (get_bucket t b))
       = bucket_count P t + length (filter P c)"
proof -
  define M where "M = unat (max_bucket t)"
  have b: "unat b \<in> {..M}" using assms(2) by (simp add: M_def word_le_nat_alt)
  have rest: "(\<Sum>i \<in> {..M} - {unat b}. length (filter P (get_bucket (put_bucket b c t) (of_nat i))))
            = (\<Sum>i \<in> {..M} - {unat b}. length (filter P (get_bucket t (of_nat i))))"
    by (rule sum.cong) (auto simp: htab_shape_get_put [OF assms] M_def dest: unat_of_nat_le)
  show ?thesis
    using sum.remove [OF _ b, of "\<lambda>i. length (filter P (get_bucket (put_bucket b c t) (of_nat i)))"]
      sum.remove [OF _ b, of "\<lambda>i. length (filter P (get_bucket t (of_nat i)))"] rest
    by (simp add: bucket_count_def htab_shape_get_put [OF assms] flip: M_def)
qed

lemma bucket_count_cong:
  "(\<And>b e. b \<le> max_bucket t \<Longrightarrow> e \<in> set (get_bucket t b) \<Longrightarrow> P e = Q e) \<Longrightarrow> bucket_count P t = bucket_count Q t"
  unfolding bucket_count_def
  by (intro sum.cong refl arg_cong [of _ _ length] filter_cong)
     (metis atMost_iff unat_of_nat_le word_le_nat_alt)

subsection \<open>Entry allocation\<close>

text \<open>Allocation touches the freelists and the allocator only.\<close>

lemma alloc_update_sel [simp]:
  "get_bucket (t\<lparr>freeLists := fl\<rparr>) = get_bucket t" "calc_bucket (t\<lparr>freeLists := fl\<rparr>) = calc_bucket t"
  "FREELIST_IDX (t\<lparr>freeLists := fl\<rparr>) = FREELIST_IDX t" "bucket_count P (t\<lparr>freeLists := fl\<rparr>) = bucket_count P t"
  "get_bucket (t\<lparr>alloc_fails := fs\<rparr>) = get_bucket t" "calc_bucket (t\<lparr>alloc_fails := fs\<rparr>) = calc_bucket t"
  "FREELIST_IDX (t\<lparr>alloc_fails := fs\<rparr>) = FREELIST_IDX t" "bucket_count P (t\<lparr>alloc_fails := fs\<rparr>) = bucket_count P t"
  by (simp_all add: fun_eq_iff get_bucket_def calc_bucket_def FREELIST_IDX_def IS_PARTITIONED_def bucket_count_def Let_def)

definition alloc_frame :: "('k, 'v) HTAB \<Rightarrow> ('k, 'v) HTAB \<Rightarrow> bool" where
  "alloc_frame t t' \<longleftrightarrow> t'\<lparr>freeLists := freeLists t, alloc_fails := alloc_fails t\<rparr> = t
     \<and> length (freeLists t') = length (freeLists t)"

lemma alloc_frame_refl [simp]: "alloc_frame t t"
  by (simp add: alloc_frame_def)

lemma alloc_frame_trans: "alloc_frame t t' \<Longrightarrow> alloc_frame t' t'' \<Longrightarrow> alloc_frame t t''"
  unfolding alloc_frame_def by (cases t, cases t', cases t'') simp

lemma freelist_upd_frame [simp]: "alloc_frame t (freelist_pop i t)" "alloc_frame t (freelist_count i d t)"
  by (simp_all add: alloc_frame_def freelist_pop_def freelist_count_def Let_def)

lemmas alloc_frame_take = alloc_frame_trans [OF freelist_upd_frame(1) freelist_upd_frame(2)]

lemma element_alloc_frame: "element_alloc n i t = (r, t') \<Longrightarrow> alloc_frame t t'"
  unfolding element_alloc_def htab_alloc_def alloc_frame_def Let_def
  by (auto split: if_splits list.splits prod.splits bool.splits)

lemma nentries_pop [simp]:
  "i < length (freeLists t) \<Longrightarrow> nentries (freeLists (freelist_pop j t) ! i) = nentries (freeLists t ! i)"
  by (cases "i = j") (simp_all add: freelist_pop_def Let_def)

lemma nentries_count:
  "i < length (freeLists t) \<Longrightarrow> nentries (freeLists (freelist_count j d t) ! i)
     = nentries (freeLists t ! i) + (if i = j then d else 0)"
  by (cases "i = j") (simp_all add: freelist_count_def Let_def)

lemma freelist_upd_length [simp]:
  "length (freeLists (freelist_pop i t)) = length (freeLists t)"
  "length (freeLists (freelist_count i d t)) = length (freeLists t)"
  by (simp_all add: freelist_pop_def freelist_count_def Let_def)

lemma nentries_element_alloc:
  "element_alloc n j t = (r, t') \<Longrightarrow> i < length (freeLists t) \<Longrightarrow> nentries (freeLists t' ! i) = nentries (freeLists t ! i)"
  unfolding element_alloc_def htab_alloc_def Let_def
  by (cases "i = j") (auto split: if_splits list.splits prod.splits bool.splits)

lemma length_element_alloc:
  "element_alloc n j t = (r, t') \<Longrightarrow> length (freeLists t') = length (freeLists t)"
  by (auto dest!: element_alloc_frame simp: alloc_frame_def)

lemma get_hash_entry_frame:
  assumes "get_hash_entry idx t = (r, t')"
  shows "alloc_frame t t'"
  using assms unfolding get_hash_entry_def get_hash_entry_borrow_def
  by (auto split: list.splits prod.splits bool.splits if_splits option.splits
      dest!: element_alloc_frame intro: alloc_frame_take alloc_frame_trans [OF _ alloc_frame_take])

lemma get_hash_entry_nentries:
  assumes "get_hash_entry idx t = (r, t')" and "i < length (freeLists t)"
  shows "nentries (freeLists t' ! i) = nentries (freeLists t ! i) + (if i = idx \<and> r \<noteq> None then 1 else 0)"
  using assms unfolding get_hash_entry_def get_hash_entry_borrow_def
  by (auto split: list.splits prod.splits bool.splits if_splits option.splits
      simp: nentries_count nentries_element_alloc length_element_alloc)

lemma borrow_order_all:
  assumes "idx < NUM_FREELISTS" and "i < NUM_FREELISTS"
  shows "i = idx \<or> i \<in> set (borrow_order idx)"
proof (cases "i = idx")
  case False
  define d where "d = (i + NUM_FREELISTS - idx) mod NUM_FREELISTS"
  have "d \<in> {1..<NUM_FREELISTS}" "(idx + d) mod NUM_FREELISTS = i"
    using assms False by (auto simp: d_def hash_consts mod_if)
  then show ?thesis by (force simp: borrow_order_def image_iff)
qed simp

text \<open>
  Entry allocation fails only when it may not or cannot allocate and every freelist it may use is
  empty.
\<close>

lemma get_hash_entry_None:
  assumes "get_hash_entry idx t = (None, t')" and "0 < nelem_alloc t" and "idx < NUM_FREELISTS"
    and "length (freeLists t) = NUM_FREELISTS"
  shows "(isfixed t \<or> True \<in> set (alloc_fails t)) \<and> freeList (freeLists t ! idx) = [] \<and>
         (IS_PARTITIONED t \<longrightarrow> (\<forall>i < NUM_FREELISTS. freeList (freeLists t ! i) = []))"
proof (cases "freeList (freeLists t ! idx)")
  case Nil
  obtain b t1 where el: "element_alloc (nelem_alloc t) idx t = (b, t1)" by fastforce
  have b: "\<not> b"
    using assms(1-2) Nil el assms(3-4)
    by (auto simp: get_hash_entry_def element_alloc_def htab_alloc_def Let_def
        split: bool.splits list.splits if_splits prod.splits)
  hence same: "freeLists t1 = freeLists t" "IS_PARTITIONED t1 = IS_PARTITIONED t"
    and why: "isfixed t \<or> True \<in> set (alloc_fails t)"
    using el by (auto simp: element_alloc_def htab_alloc_def Let_def IS_PARTITIONED_def
        split: bool.splits list.splits if_splits prod.splits)
  have "freeList (freeLists t ! i) = []" if "IS_PARTITIONED t" "i < NUM_FREELISTS" for i
  proof -
    have "find (\<lambda>i. freeList (freeLists t ! i) \<noteq> []) (borrow_order idx) = None"
      using assms(1) Nil el b that(1) same
      by (auto simp: get_hash_entry_def get_hash_entry_borrow_def split: option.splits)
    moreover have "i = idx \<or> i \<in> set (borrow_order idx)"
      by (rule borrow_order_all [OF assms(3) that(2)])
    ultimately show ?thesis using Nil by (auto simp: find_None_iff)
  qed
  with why Nil show ?thesis by simp
next
  case Cons
  with assms(1) show ?thesis by (simp add: get_hash_entry_def)
qed

subsection \<open>Bucket splits\<close>

lemma calc_bucket_mask:
  "low_mask t = mask n \<Longrightarrow> high_mask t = mask (Suc n) \<Longrightarrow>
   calc_bucket t h = (if max_bucket t < take_bit (Suc n) h then take_bit n h else take_bit (Suc n) h)"
  by (simp add: calc_bucket_def Let_def min_def flip: take_bit_eq_mask)

definition expanded :: "('k, 'v) HTAB \<Rightarrow> ('k, 'v) HTAB" where
  "expanded t = expand_masks (max_bucket t + 1) (t\<lparr>max_bucket := max_bucket t + 1\<rparr>)"

lemma expanded_sel [simp]:
  "max_bucket (expanded t) = max_bucket t + 1" "dir (expanded t) = dir t" "hash (expanded t) = hash t"
  "freeLists (expanded t) = freeLists t" "nelem_alloc (expanded t) = nelem_alloc t"
  "num_partitions (expanded t) = num_partitions t" "get_bucket (expanded t) = get_bucket t"
  "frozen (expanded t) = frozen t" "isshared (expanded t) = isshared t" "isfixed (expanded t) = isfixed t"
  by (simp_all add: expanded_def expand_masks_def get_bucket_def fun_eq_iff)

text \<open>
  Adding a bucket moves the hash values of exactly one old bucket, and those only to the new one.
\<close>

lemma calc_bucket_expanded:
  assumes "htab_shape t" and "max_bucket t \<noteq> - 1"
  shows "calc_bucket (expanded t) h = calc_bucket t h \<or>
         calc_bucket (expanded t) h = max_bucket t + 1 \<and>
         calc_bucket t h = (max_bucket t + 1) AND low_mask t" (is ?split)
    and "\<exists>n < 32. low_mask (expanded t) = mask n \<and> high_mask (expanded t) = mask (Suc n) \<and>
         mask n \<le> max_bucket t + 1 \<and> max_bucket t + 1 \<le> mask (Suc n)" (is ?masks)
proof -
  obtain n where n: "n < 32" "low_mask t = mask n" "high_mask t = mask (Suc n)"
    "mask n \<le> max_bucket t" "max_bucket t \<le> mask (Suc n)"
    using assms(1) by (auto simp: htab_shape_def)
  define N where "N = max_bucket t + 1"
  have lt: "max_bucket t < N" using less_plus_one [OF assms(2)] by (simp add: N_def)
  have step: "max_bucket t < x \<longleftrightarrow> x = N \<or> N < x" for x
    using assms(2) by (simp add: N_def less_iff_plus_one)
  have old: "N AND mask n = take_bit n N" by (simp add: take_bit_eq_mask)
  have "?split \<and> ?masks"
  proof (cases "mask (Suc n) < N")
    case False
    hence m: "low_mask (expanded t) = mask n" "high_mask (expanded t) = mask (Suc n)"
      using n by (simp_all add: expanded_def expand_masks_def N_def)
    have hit: "take_bit n h = take_bit n N" if "take_bit (Suc n) h = N"
      using that by (metis take_bit_take_bit min.absorb1 lessI less_imp_le)
    have ?split
      using old hit unfolding calc_bucket_mask [OF m] calc_bucket_mask [OF n(2,3)] expanded_sel n(2)
        N_def [symmetric] step
      by (cases "take_bit (Suc n) h" N rule: linorder_cases) simp_all
    moreover have ?masks
      using n m order_trans [OF n(4) less_imp_le [OF lt]] False unfolding N_def
      by (intro exI [of _ n]) (simp add: not_less)
    ultimately show ?thesis ..
  next
    case True
    have max: "max_bucket t = mask (Suc n)" 
      using True n(5) step [of "mask (Suc n)"] by (cases "max_bucket t < mask (Suc n)") auto
    hence n': "Suc n < 32" using assms(2) n(1) by (cases "n = 31") (simp_all add: mask_eq_exp_minus_1)
    have N: "N = 2 ^ Suc n" using max by (simp add: N_def mask_eq_exp_minus_1)
    have m: "low_mask (expanded t) = mask (Suc n)" "high_mask (expanded t) = mask (Suc (Suc n))"
      using n(2,3) True N unfolding N_def by (simp_all add: expanded_def expand_masks_def mask_Suc_exp [of "Suc n"])
    have calc: "calc_bucket t h = take_bit (Suc n) h"
      using word_and_le1 [of h "mask (Suc n)"] unfolding calc_bucket_mask [OF n(2,3)] max
      by (simp add: leD flip: take_bit_eq_mask)
    have small: "take_bit (Suc n) h = take_bit (Suc (Suc n)) h"
      if "take_bit (Suc (Suc n)) h < N"
      using that n' take_bit_self_less [of "Suc n" "take_bit (Suc (Suc n)) h"] unfolding N by (simp add: min_def)
    have hit: "take_bit (Suc n) h = take_bit n N"
      if "take_bit (Suc (Suc n)) h = N"
    proof -
      have "take_bit (Suc n) h = take_bit (Suc n) N" using that by (metis take_bit_take_bit min.absorb1 lessI less_imp_le)
      also have "\<dots> = take_bit n N" 
        unfolding N take_bit_exp_0 [OF le_refl] take_bit_exp_0 [OF le_SucI [OF le_refl]] ..
      finally show ?thesis .
    qed
    have ?split
      using small hit old n(2) unfolding calc calc_bucket_mask [OF m] expanded_sel N_def [symmetric]
      by (cases "take_bit (Suc (Suc n)) h" N rule: linorder_cases) simp_all
    moreover have ?masks
      using n' m less_imp_le [OF True] le_word_or2 [of "2 ^ Suc n" "mask (Suc n)"]
      unfolding N_def [symmetric] N mask_Suc_exp [of "Suc n", symmetric] by blast
    ultimately show ?thesis ..
  qed
  then show ?split and ?masks by blast+
qed

lemma split_bucket_le:
  assumes "htab_shape t" and "max_bucket t \<noteq> - 1"
  shows "(max_bucket t + 1) AND low_mask t \<le> max_bucket t"
  using assms word_and_le1 [of "max_bucket t + 1" "low_mask t"]
  by (auto simp: htab_shape_def intro: order_trans)

text \<open>The directory step adds at most one empty segment and leaves the chains alone.\<close>

definition segment_frame :: "('k, 'v) HTAB \<Rightarrow> ('k, 'v) HTAB \<Rightarrow> bool" where
  "segment_frame t t' \<longleftrightarrow>
     t'\<lparr>dsize := dsize t, alloc_fails := alloc_fails t, dir := dir t\<rparr> = t \<and>
     (dir t' = dir t \<or> dir t' = dir t @ [replicate HASH_SEGSIZE []])"

lemma segment_frame_sel:
  assumes "segment_frame t t'"
  shows "hash t' = hash t" "freeLists t' = freeLists t" "max_bucket t' = max_bucket t"
    "high_mask t' = high_mask t" "low_mask t' = low_mask t" "num_partitions t' = num_partitions t"
    "nelem_alloc t' = nelem_alloc t" "frozen t' = frozen t" "isfixed t' = isfixed t" "isshared t' = isshared t"
    "junk t' = junk t"
  using assms by (cases t; cases t'; simp add: segment_frame_def)+

lemma expand_segment_frame: "expand_segment b t = (ok, t') \<Longrightarrow> segment_frame t t'"
  unfolding expand_segment_def dir_realloc_def seg_alloc_def htab_alloc_def segment_frame_def
  by (auto split: if_splits prod.splits bool.splits option.splits list.splits)

lemma segment_frame_get:
  assumes "segment_frame t t'" and "htab_shape t" and "b \<le> max_bucket t"
  shows "get_bucket t' b = get_bucket t b"
  using assms htab_shape_segment [OF assms(2,3)]
  by (auto simp: segment_frame_def get_bucket_def nth_append)

lemma segment_frame_shape:
  assumes "segment_frame t t'" and "htab_shape t"
  shows "htab_shape t'"
  using assms unfolding htab_shape_def segment_frame_sel [OF assms(1)]
  by (auto simp: segment_frame_def)

lemma expand_segment_ok:
  assumes "expand_segment (max_bucket t + 1) t = (True, t')" and "htab_shape t" and "max_bucket t \<noteq> - 1"
  shows "unat (max_bucket t + 1) < HASH_SEGSIZE * length (dir t')"
proof (cases "segment_num (max_bucket t + 1) < length (dir t)")
  case True
  with assms(1) show ?thesis by (simp add: expand_segment_def segment_num_div hash_consts)
next
  case False
  have "dir t' = dir t @ [replicate HASH_SEGSIZE []]"
    using assms(1) False
    by (auto simp: expand_segment_def dir_realloc_def seg_alloc_def htab_alloc_def
        split: if_splits prod.splits bool.splits option.splits list.splits)
  moreover have "unat (max_bucket t) < HASH_SEGSIZE * length (dir t)"
    using assms(2) by (simp add: htab_shape_def)
  ultimately show ?thesis by (simp add: unat_plus_one [OF assms(3)] hash_consts)
qed

lemma expanded_shape:
  assumes "htab_shape t" and "max_bucket t \<noteq> - 1" and "unat (max_bucket t + 1) < HASH_SEGSIZE * length (dir t)"
  shows "htab_shape (expanded t)"
  using assms calc_bucket_expanded(2) [OF assms(1,2)] by (simp add: htab_shape_def)

lemma find_filter_imp: "(\<And>x. P x \<Longrightarrow> Q x) \<Longrightarrow> find P (filter Q xs) = find P xs"
  by (induction xs) auto

lemma length_filter_split:
  "length (filter P (filter Q xs)) + length (filter P (filter (Not \<circ> Q) xs)) = length (filter P xs)"
  by (induction xs) auto

definition split_bucket :: "('k, 'v) HTAB \<Rightarrow> ('k, 'v) HTAB" where
  "split_bucket t =
     (let old_bucket = (max_bucket t + 1) AND low_mask t;
          stays = (\<lambda>e. calc_bucket (expanded t) (hashvalue e) = old_bucket);
          chain = get_bucket t old_bucket
      in put_bucket (max_bucket t + 1) (filter (Not \<circ> stays) chain)
           (put_bucket old_bucket (filter stays chain) (expanded t)))"

lemma expand_table_split:
  "expand_table t = (case expand_segment (max_bucket t + 1) t of (False, t') \<Rightarrow> (False, t')
                     | (True, t') \<Rightarrow> (True, split_bucket t'))"
  by (auto simp: expand_table_def split_bucket_def expanded_def Let_def get_bucket_def expand_masks_def
      segment_frame_sel dest!: expand_segment_frame split: prod.splits bool.splits)

lemma split_bucket_get:
  assumes "htab_shape t" and "max_bucket t \<noteq> - 1" and "unat (max_bucket t + 1) < HASH_SEGSIZE * length (dir t)"
  shows "get_bucket (split_bucket t) b =
    (let old = (max_bucket t + 1) AND low_mask t; stays = (\<lambda>e. calc_bucket (expanded t) (hashvalue e) = old)
     in if b = max_bucket t + 1 then filter (Not \<circ> stays) (get_bucket t old)
        else if b = old then filter stays (get_bucket t old) else get_bucket t b)"
proof -
  have sh: "htab_shape (expanded t)" by (rule expanded_shape [OF assms])
  have old: "(max_bucket t + 1) AND low_mask t \<le> max_bucket (expanded t)"
    using split_bucket_le [OF assms(1,2)] less_plus_one [OF assms(2)] by simp
  show ?thesis
    by (simp add: split_bucket_def Let_def htab_shape_get_put [OF htab_shape_put [OF sh old]]
        htab_shape_get_put [OF sh old])
qed

lemma split_bucket_sel [simp]:
  "max_bucket (split_bucket t) = max_bucket t + 1" "hash (split_bucket t) = hash t"
  "freeLists (split_bucket t) = freeLists t" "FREELIST_IDX (split_bucket t) = FREELIST_IDX t"
  "calc_bucket (split_bucket t) = calc_bucket (expanded t)" "frozen (split_bucket t) = frozen t"
  "num_partitions (split_bucket t) = num_partitions t" "isfixed (split_bucket t) = isfixed t"
  "isshared (split_bucket t) = isshared t"
  by (simp_all add: split_bucket_def Let_def fun_eq_iff FREELIST_IDX_def IS_PARTITIONED_def)

lemma split_bucket_map:
  assumes "htab_shape t" and "max_bucket t \<noteq> - 1" and "unat (max_bucket t + 1) < HASH_SEGSIZE * length (dir t)"
  shows "htab_map (split_bucket t) = htab_map t"
proof
  fix k
  let ?h = "hash t k" and ?N = "max_bucket t + 1" and ?old = "(max_bucket t + 1) AND low_mask t"
  have neq: "?N \<noteq> ?old" "calc_bucket t ?h \<noteq> ?N"
    using split_bucket_le [OF assms(1,2)] less_plus_one [OF assms(2)] calc_bucket_le [OF assms(1), of ?h] by auto
  have find: "find (matches ?h k) (filter Q xs) = find (matches ?h k) xs"
    if "\<And>e. hashvalue e = ?h \<Longrightarrow> Q e" for Q and xs :: "('a, 'b) HASHELEMENT list"
    using that by (intro find_filter_imp) (simp add: matches_def)
  show "htab_map (split_bucket t) k = htab_map t k"
    using calc_bucket_expanded(1) [OF assms(1,2), of ?h] neq
    by (auto simp: htab_map_def split_bucket_get [OF assms] Let_def find)
qed

lemma split_bucket_count:
  assumes "htab_shape t" and "max_bucket t \<noteq> - 1" and "unat (max_bucket t + 1) < HASH_SEGSIZE * length (dir t)"
  shows "bucket_count P (split_bucket t) = bucket_count P t"
proof -
  let ?N = "max_bucket t + 1" and ?old = "(max_bucket t + 1) AND low_mask t"
  let ?stays = "\<lambda>e. calc_bucket (expanded t) (hashvalue e) = ?old"
  have sh: "htab_shape (expanded t)" by (rule expanded_shape [OF assms])
  have old: "?old \<le> max_bucket (expanded t)" and neq: "?N \<noteq> ?old"
    using split_bucket_le [OF assms(1,2)] less_plus_one [OF assms(2)] by auto
  have all: "bucket_count P (expanded t) = bucket_count P t + length (filter P (get_bucket t ?N))"
    unfolding bucket_count_def expanded_sel unat_plus_one [OF assms(2)] by (simp add: add.commute)
  have put_old: "bucket_count P (put_bucket ?old c (expanded t)) + length (filter P (get_bucket t ?old))
      = bucket_count P (expanded t) + length (filter P c)" for c
    using bucket_count_put [OF sh old, of P c] by simp
  have put_new: "bucket_count P (put_bucket ?N c' (put_bucket ?old c (expanded t))) + length (filter P (get_bucket t ?N))
      = bucket_count P (put_bucket ?old c (expanded t)) + length (filter P c')" for c c'
    using bucket_count_put [OF htab_shape_put [OF sh old, of c], of ?N P c'] neq
    by (simp add: htab_shape_get_put [OF sh old])
  show ?thesis
    using all put_old [of "filter ?stays (get_bucket t ?old)"]
      put_new [of "filter (Not \<circ> ?stays) (get_bucket t ?old)" "filter ?stays (get_bucket t ?old)"]
      length_filter_split [of P ?stays "get_bucket t ?old"]
    unfolding split_bucket_def Let_def by linarith
qed

lemma split_bucket_inv:
  assumes "htab_inv t" and "max_bucket t \<noteq> - 1" and "unat (max_bucket t + 1) < HASH_SEGSIZE * length (dir t)"
  shows "htab_inv (split_bucket t)"
proof -
  let ?N = "max_bucket t + 1" and ?old = "(max_bucket t + 1) AND low_mask t"
  have t: "htab_shape t" "htab_chains t" "htab_counts t" using assms(1) by (simp_all add: htab_inv_def)
  have sh: "htab_shape (expanded t)" by (rule expanded_shape [OF t(1) assms(2,3)])
  have old: "?old \<le> max_bucket t" "max_bucket t < ?N"
    using split_bucket_le [OF t(1) assms(2)] less_plus_one [OF assms(2)] by auto
  have "htab_shape (split_bucket t)"
    unfolding split_bucket_def Let_def
    using sh old by (intro htab_shape_put) auto
  moreover have "htab_counts (split_bucket t)"
    using t(3) by (simp add: htab_counts_def split_bucket_count [OF t(1) assms(2,3)])
  moreover have "htab_chains (split_bucket t)"
    unfolding htab_chains_def split_bucket_sel
  proof (intro allI impI)
    fix b assume b: "b \<le> ?N"
    have lt: "b \<le> max_bucket t" if "b \<noteq> ?N" using b that less_iff_plus_one [OF assms(2), of b] by force
    have ok: "distinct (map ekey (get_bucket t b)) \<and>
        (\<forall>e \<in> set (get_bucket t b). hashvalue e = hash t (ekey e) \<and> calc_bucket t (hashvalue e) = b)"
      if "b \<le> max_bucket t" for b using t(2) that unfolding htab_chains_def by blast
    show "distinct (map ekey (get_bucket (split_bucket t) b)) \<and>
        (\<forall>e \<in> set (get_bucket (split_bucket t) b). hashvalue e = hash t (ekey e) \<and> calc_bucket (expanded t) (hashvalue e) = b)"
      using ok [OF old(1)] ok [OF lt] calc_bucket_expanded(1) [OF t(1) assms(2)]
      by (auto simp: split_bucket_get [OF t(1) assms(2,3)] Let_def distinct_map_filter) metis+
  qed
  ultimately show ?thesis by (simp add: htab_inv_def)
qed

text \<open>A table that has reached the largest bucket number has as many entries as a 32-bit count allows.\<close>

lemma frame_map_inv:
  assumes "htab_shape t" and "segment_frame t t'"
  shows "htab_map t' = htab_map t" and "htab_inv t \<Longrightarrow> htab_inv t'"
    and "bucket_count P t' = bucket_count P t"
proof -
  note sel = segment_frame_sel [OF assms(2)]
  have get: "get_bucket t' b = get_bucket t b" if "b \<le> max_bucket t" for b
    using segment_frame_get [OF assms(2,1) that] .
  have calc: "calc_bucket t' = calc_bucket t" and idx: "FREELIST_IDX t' = FREELIST_IDX t"
    using sel by (auto intro: calc_bucket_cong FREELIST_IDX_cong)
  show "htab_map t' = htab_map t"
    by (simp add: fun_eq_iff htab_map_def calc get calc_bucket_le [OF assms(1)] sel)
  show count: "bucket_count P t' = bucket_count P t" for P
    unfolding bucket_count_def sel 
    by (rule sum.cong) (simp_all add: get word_le_nat_alt unat_of_nat_le [of _ "max_bucket t"])
  show "htab_inv t'" if "htab_inv t"
    unfolding htab_inv_def
  proof (intro conjI)
    show "htab_shape t'" by (rule segment_frame_shape [OF assms(2,1)])
    show "htab_chains t'" unfolding htab_chains_def sel calc
    proof (intro allI impI)
      fix b assume b: "b \<le> max_bucket t"
      show "distinct (map ekey (get_bucket t' b)) \<and>
        (\<forall>e \<in> set (get_bucket t' b). hashvalue e = hash t (ekey e) \<and> calc_bucket t (hashvalue e) = b)"
        using that b unfolding get [OF b] htab_inv_def htab_chains_def by blast
    qed
    show "htab_counts t'" using that unfolding htab_inv_def htab_counts_def sel idx count by blast
  qed
qed

lemma expand_table_ok:
  assumes "htab_inv t" and "max_bucket t \<noteq> - 1"
  shows "htab_inv (snd (expand_table t))" and "htab_map (snd (expand_table t)) = htab_map t"
proof -
  obtain ok t1 where ex: "expand_segment (max_bucket t + 1) t = (ok, t1)" by fastforce
  have t: "htab_shape t" using assms(1) by (simp add: htab_inv_def)
  have fr: "segment_frame t t1" by (rule expand_segment_frame [OF ex])
  have t1: "htab_inv t1" "htab_map t1 = htab_map t" using frame_map_inv [OF t fr] assms(1) by auto
  have m: "max_bucket t1 = max_bucket t" by (rule segment_frame_sel [OF fr])
  have "htab_inv (snd (expand_table t)) \<and> htab_map (snd (expand_table t)) = htab_map t"
  proof (cases ok)
    case True
    have room: "unat (max_bucket t1 + 1) < HASH_SEGSIZE * length (dir t1)"
      using expand_segment_ok [OF _ t assms(2)] ex True m by simp
    show ?thesis
      using split_bucket_inv [OF t1(1) _ room] split_bucket_map [OF _ _ room] t1 ex True m assms(2)
      by (simp add: expand_table_split htab_inv_def)
  qed (simp add: expand_table_split ex t1)
  then show "htab_inv (snd (expand_table t))" "htab_map (snd (expand_table t)) = htab_map t" by auto
qed

lemma expand_table_sel [simp]:
  "hash (snd (expand_table t)) = hash t" "freeLists (snd (expand_table t)) = freeLists t"
  "num_partitions (snd (expand_table t)) = num_partitions t" "frozen (snd (expand_table t)) = frozen t"
  "isfixed (snd (expand_table t)) = isfixed t" "isshared (snd (expand_table t)) = isshared t"
  by (auto simp: expand_table_split segment_frame_sel dest!: expand_segment_frame split: prod.splits bool.splits)

end
