(* ===== verification/Hash_Search.thy ===== *)
theory Hash_Search
  imports Dynahash
begin

text \<open>
  Correctness of \<^verbatim>\<open>hash_search\<close> (src/src/backend/utils/hash/dynahash.c): under the invariant of
  Dynahash each action is the corresponding operation on a partial map, whether or not the call
  splits a bucket, borrows an element from another freelist or runs out of memory. The section on
  the interface states this contract as a locale, proves what clients of the table rely on, and
  interprets it on the model of dynahash.
\<close>

section \<open>Frames\<close>

lemma alloc_frame_sel:
  assumes "alloc_frame t t'"
  shows "hash t' = hash t" "dir t' = dir t" "max_bucket t' = max_bucket t" "high_mask t' = high_mask t"
    "low_mask t' = low_mask t" "num_partitions t' = num_partitions t" "nelem_alloc t' = nelem_alloc t"
    "frozen t' = frozen t" "isfixed t' = isfixed t" "isshared t' = isshared t"
    "length (freeLists t') = length (freeLists t)"
  using assms by (cases t; cases t'; simp add: alloc_frame_def)+

lemma alloc_frame_same:
  assumes "alloc_frame t t'"
  shows "get_bucket t' = get_bucket t" "calc_bucket t' = calc_bucket t" "FREELIST_IDX t' = FREELIST_IDX t"
    "htab_shape t' = htab_shape t" "htab_chains t' = htab_chains t" "bucket_count P t' = bucket_count P t"
    "htab_map t' = htab_map t"
proof -
  note sel = alloc_frame_sel [OF assms]
  show get: "get_bucket t' = get_bucket t" by (intro ext get_bucket_cong) (simp add: sel)
  show calc: "calc_bucket t' = calc_bucket t" by (intro ext calc_bucket_cong) (simp_all add: sel)
  show "FREELIST_IDX t' = FREELIST_IDX t" by (intro ext FREELIST_IDX_cong) (simp add: sel)
  show "htab_shape t' = htab_shape t" by (simp add: htab_shape_def sel)
  show "htab_chains t' = htab_chains t" by (simp add: htab_chains_def sel get calc)
  show "bucket_count P t' = bucket_count P t" by (simp add: bucket_count_def sel get)
  show "htab_map t' = htab_map t" by (simp add: fun_eq_iff htab_map_def sel get calc)
qed

definition chain_ok :: "('k, 'v) HTAB \<Rightarrow> u32 \<Rightarrow> ('k, 'v) HASHBUCKET \<Rightarrow> bool" where
  "chain_ok t b c \<longleftrightarrow> distinct (map ekey c) \<and>
     (\<forall>e \<in> set c. hashvalue e = hash t (ekey e) \<and> calc_bucket t (hash t (ekey e)) = b)"

lemma htab_chains_iff: "htab_chains t \<longleftrightarrow> (\<forall>b \<le> max_bucket t. chain_ok t b (get_bucket t b))"
  by (simp add: htab_chains_def chain_ok_def cong: conj_cong)

text \<open>Replacing one chain, and adjusting the counters by what the new chain gained or lost.\<close>

lemma htab_map_put:
  assumes "htab_shape t" and "b \<le> max_bucket t"
  shows "htab_map (put_bucket b c t) k =
    (if calc_bucket t (hash t k) = b then map_option edata (find (matches (hash t k) k) c) else htab_map t k)"
  by (simp add: htab_map_def htab_shape_get_put [OF assms])

lemma htab_inv_put:
  assumes "htab_inv t" and "alloc_frame t t1" and "b \<le> max_bucket t"
    and "chain_ok t b c"
    and "\<And>i. i < NUM_FREELISTS \<Longrightarrow> nentries (freeLists t1 ! i) + int (length (filter (\<lambda>e. FREELIST_IDX t (hashvalue e) = i) (get_bucket t b)))
           = nentries (freeLists t ! i) + int (length (filter (\<lambda>e. FREELIST_IDX t (hashvalue e) = i) c))"
  shows "htab_inv (put_bucket b c t1)"
proof -
  note same = alloc_frame_same [OF assms(2)] and sel = alloc_frame_sel [OF assms(2)]
  have t: "htab_shape t" "htab_chains t" "htab_counts t" using assms(1) by (simp_all add: htab_inv_def)
  have sh: "htab_shape t1" and b1: "b \<le> max_bucket t1" using t(1) same sel assms(3) by auto
  have "htab_chains (put_bucket b c t1)"
    using t(2) assms(4)
    by (auto simp: htab_chains_iff htab_shape_get_put [OF sh b1] same sel chain_ok_def)
  moreover have "htab_counts (put_bucket b c t1)"
    unfolding htab_counts_def put_bucket_sel FREELIST_IDX_put same
  proof (intro allI impI)
    fix i assume i: "i < NUM_FREELISTS"
    show "nentries (freeLists t1 ! i) = int (bucket_count (\<lambda>e. FREELIST_IDX t (hashvalue e) = i) (put_bucket b c t1))"
      using bucket_count_put [OF sh b1, of "\<lambda>e. FREELIST_IDX t (hashvalue e) = i" c] assms(5) [OF i] t(3) i
      unfolding same htab_counts_def by auto
  qed
  ultimately show ?thesis using htab_shape_put [OF sh b1] by (simp add: htab_inv_def)
qed

section \<open>Search\<close>

text \<open>
  Enough room for \<open>n\<close> more entries before the 32-bit bucket numbers of an expansion would wrap,
  and the well-formed tables clients see.
\<close>

definition htab_room :: "nat \<Rightarrow> ('k, 'v) HTAB \<Rightarrow> bool" where
  "htab_room n t \<longleftrightarrow> nentries (freeLists t ! 0) + int n < 2 ^ 32"

definition htab_ok :: "('k, 'v) HTAB \<Rightarrow> bool" where
  "htab_ok t \<longleftrightarrow> htab_inv t \<and> \<not> frozen t \<and> max_bucket t \<noteq> - 1"

lemma maybe_expand_ok:
  assumes "htab_inv t" and "max_bucket t \<noteq> - 1"
  shows "htab_inv (maybe_expand scanned action t)" "htab_map (maybe_expand scanned action t) = htab_map t"
  using assms expand_table_ok by (auto simp: maybe_expand_def)

lemma expand_table_max: "max_bucket (snd (expand_table t)) = max_bucket t \<or> max_bucket (snd (expand_table t)) = max_bucket t + 1"
  by (auto simp: expand_table_split segment_frame_sel dest!: expand_segment_frame split: prod.splits bool.splits)

text \<open>A table with room for an entry does not reach the last bucket number.\<close>

lemma maybe_expand_max:
  assumes "htab_room 1 t" and "max_bucket t \<noteq> - 1"
  shows "max_bucket (maybe_expand scanned action t) \<noteq> - 1"
proof (cases "uint (max_bucket t) < nentries (freeLists t ! 0)")
  case True
  moreover have "nentries (freeLists t ! 0) < 4294967295" using assms(1) by (simp add: htab_room_def)
  ultimately have "int (unat (max_bucket t)) < 4294967294" unfolding uint_nat by linarith
  hence "unat (max_bucket t) < 4294967294" by linarith
  hence lt: "unat (max_bucket t + 1) < 4294967295" unfolding unat_plus_one [OF assms(2)] by linarith
  have "max_bucket t + 1 \<noteq> - 1"
  proof
    assume "max_bucket t + 1 = - 1"
    hence "unat (max_bucket t + 1) = unat (- 1 :: u32)" by (rule arg_cong)
    also have "\<dots> = 4294967295" by (simp add: unsigned_minus_1_eq_mask mask_eq_exp_minus_1)
    finally show False using lt by linarith
  qed
  then show ?thesis using expand_table_max [of t] assms(2) by (auto simp: maybe_expand_def)
qed (use assms(2) in \<open>simp add: maybe_expand_def\<close>)

lemma maybe_expand_sel [simp]:
  "hash (maybe_expand scanned action t) = hash t" "freeLists (maybe_expand scanned action t) = freeLists t"
  "frozen (maybe_expand scanned action t) = frozen t" "isfixed (maybe_expand scanned action t) = isfixed t"
  "isshared (maybe_expand scanned action t) = isshared t"
  "num_partitions (maybe_expand scanned action t) = num_partitions t"
  by (simp_all add: maybe_expand_def)

lemma maybe_expand_read [simp]: "maybe_expand scanned HASH_FIND t = t" "maybe_expand scanned HASH_REMOVE t = t"
  by (simp_all add: maybe_expand_def)

lemma hash_initial_lookup_ok: "htab_shape t \<Longrightarrow> hash_initial_lookup hv t = (Inr (calc_bucket t hv), t)"
  using htab_shape_segment [OF _ calc_bucket_le, of t hv] by (simp add: hash_initial_lookup_def Let_def not_le)

lemma hash_initial_lookup_same: "hash_initial_lookup h t = (x, t') \<Longrightarrow> t' = t"
  by (auto simp: hash_initial_lookup_def Let_def split: if_splits)

lemma hash_search_find:
  "htab_inv t \<Longrightarrow> hash_search scanned k HASH_FIND t = (Inr (htab_map t k, htab_map t k \<noteq> None), t)"
  by (auto simp: hash_search_def hash_search_with_hash_value_def Let_def hash_initial_lookup_ok htab_inv_def
      htab_map_def split: option.splits)

lemma chain_ok_bucket: "htab_inv t \<Longrightarrow> chain_ok t (calc_bucket t h) (get_bucket t (calc_bucket t h))"
  by (simp add: htab_inv_def htab_chains_iff calc_bucket_le)

lemma find_remove1_key:
  "distinct (map ekey c) \<Longrightarrow> e \<in> set c \<Longrightarrow> \<not> matches h k' e \<Longrightarrow> find (matches h k') (remove1 e c) = find (matches h k') c"
  by (induction c) auto

lemma find_removed_key:
  "distinct (map ekey c) \<Longrightarrow> e \<in> set c \<Longrightarrow> find (matches h (ekey e)) (remove1 e c) = None"
  by (induction c) (auto simp: matches_def find_None_iff image_iff)

lemma find_SomeD: "find P xs = Some x \<Longrightarrow> x \<in> set xs \<and> P x"
  by (induction xs) (auto split: if_splits)

lemma find_append: "find P (xs @ ys) = (case find P xs of None \<Rightarrow> find P ys | Some x \<Rightarrow> Some x)"
  by (induction xs) auto

lemma find_map: "find P (map f xs) = map_option f (find (P \<circ> f) xs)"
  by (induction xs) auto

lemma length_filter_remove1:
  "e \<in> set c \<Longrightarrow> length (filter P (remove1 e c)) + (if P e then 1 else 0) = length (filter P c)"
  by (induction c) auto

text \<open>What the two updates of a search do to the map and the invariant.\<close>

lemma entry_added:
  assumes "htab_inv t" and "htab_map t k = None" and "get_hash_entry (FREELIST_IDX t (hash t k)) t = (Some v, t1)"
  defines "b \<equiv> calc_bucket t (hash t k)"
  defines "t2 \<equiv> put_bucket b (get_bucket t b @ [\<lparr>hashvalue = hash t k, ekey = k, edata = v\<rparr>]) t1"
  shows "htab_inv t2" and "htab_map t2 = (htab_map t)(k \<mapsto> v)"
proof -
  have fr: "alloc_frame t t1" by (rule get_hash_entry_frame [OF assms(3)])
  have sh: "htab_shape t" "length (freeLists t) = NUM_FREELISTS" using assms(1) by (simp_all add: htab_inv_def htab_shape_def)
  have b: "b \<le> max_bucket t" using calc_bucket_le [OF sh(1)] by (simp add: b_def)
  have sh1: "htab_shape t1" "b \<le> max_bucket t1"
    using sh b alloc_frame_same(4) [OF fr] alloc_frame_sel(3) [OF fr] by auto
  have c: "chain_ok t b (get_bucket t b)" unfolding b_def by (rule chain_ok_bucket [OF assms(1)])
  have new: "k \<notin> ekey ` set (get_bucket t b)"
    using assms(2) c by (auto simp: htab_map_def find_None_iff matches_def chain_ok_def b_def)
  show "htab_inv t2" unfolding t2_def
  proof (rule htab_inv_put [OF assms(1) fr b])
    show "chain_ok t b (get_bucket t b @ [\<lparr>hashvalue = hash t k, ekey = k, edata = v\<rparr>])"
      using c new by (auto simp: chain_ok_def b_def)
  qed (use get_hash_entry_nentries [OF assms(3)] sh in auto)
  show "htab_map t2 = (htab_map t)(k \<mapsto> v)"
  proof
    fix k'
    show "htab_map t2 k' = ((htab_map t)(k \<mapsto> v)) k'"
      using assms(2) unfolding t2_def htab_map_put [OF sh1]
      by (auto simp: alloc_frame_same [OF fr] alloc_frame_sel [OF fr] htab_map_def b_def matches_def find_append
          split: option.splits)
  qed
qed

lemma entry_removed:
  assumes "htab_inv t" and "find (matches (hash t k) k) (get_bucket t (calc_bucket t (hash t k))) = Some e"
    and "alloc_frame t t1"
    and "\<And>i. i < NUM_FREELISTS \<Longrightarrow>
           nentries (freeLists t1 ! i) = nentries (freeLists t ! i) - (if i = FREELIST_IDX t (hash t k) then 1 else 0)"
  defines "b \<equiv> calc_bucket t (hash t k)"
  shows "htab_inv (put_bucket b (remove1 e (get_bucket t b)) t1)"
    and "htab_map (put_bucket b (remove1 e (get_bucket t b)) t1) = (htab_map t)(k := None)"
proof -
  have sh: "htab_shape t" "length (freeLists t) = NUM_FREELISTS" using assms(1) by (simp_all add: htab_inv_def htab_shape_def)
  have b: "b \<le> max_bucket t" using calc_bucket_le [OF sh(1)] by (simp add: b_def)
  have sh1: "htab_shape t1" "b \<le> max_bucket t1"
    using sh b alloc_frame_same(4) [OF assms(3)] alloc_frame_sel(3) [OF assms(3)] by auto
  have c: "chain_ok t b (get_bucket t b)" unfolding b_def by (rule chain_ok_bucket [OF assms(1)])
  have e: "e \<in> set (get_bucket t b)" "hashvalue e = hash t k" "ekey e = k"
    using assms(2) unfolding b_def by (auto simp: find_Some_iff matches_def)
  have dist: "distinct (map ekey (get_bucket t b))" using c by (simp add: chain_ok_def)
  show "htab_inv (put_bucket b (remove1 e (get_bucket t b)) t1)"
  proof (rule htab_inv_put [OF assms(1,3) b])
    show "chain_ok t b (remove1 e (get_bucket t b))"
      using c by (auto simp: chain_ok_def distinct_map intro: inj_on_subset dest: notin_set_remove1)
    fix i assume "i < NUM_FREELISTS"
    then show "nentries (freeLists t1 ! i) + int (length (filter (\<lambda>e. FREELIST_IDX t (hashvalue e) = i) (get_bucket t b)))
      = nentries (freeLists t ! i) + int (length (filter (\<lambda>e. FREELIST_IDX t (hashvalue e) = i) (remove1 e (get_bucket t b))))"
      using length_filter_remove1 [OF e(1), of "\<lambda>e. FREELIST_IDX t (hashvalue e) = i"] assms(4) [of i] e(2)
      by (auto split: if_splits)
  qed
  show "htab_map (put_bucket b (remove1 e (get_bucket t b)) t1) = (htab_map t)(k := None)"
  proof
    fix k'
    show "htab_map (put_bucket b (remove1 e (get_bucket t b)) t1) k' = ((htab_map t)(k := None)) k'"
    proof (cases "k' = k")
      case True
      then show ?thesis unfolding htab_map_put [OF sh1]
        using find_removed_key [OF dist e(1), of "hash t k"] e(3)
        by (simp add: alloc_frame_same [OF assms(3)] alloc_frame_sel [OF assms(3)] b_def)
    next
      case False
      have "find (matches (hash t k') k') (remove1 e (get_bucket t b)) = find (matches (hash t k') k') (get_bucket t b)"
        by (rule find_remove1_key [OF dist e(1)]) (use e False in \<open>simp add: matches_def\<close>)
      with False show ?thesis unfolding htab_map_put [OF sh1]
        by (simp add: alloc_frame_same [OF assms(3)] alloc_frame_sel [OF assms(3)] htab_map_def)
    qed
  qed
qed

lemma hash_store_ok:
  assumes "htab_inv t" and "htab_map t k \<noteq> None"
  shows "htab_inv (hash_store k v t)" and "htab_map (hash_store k v t) = (htab_map t)(k \<mapsto> v)"
proof -
  define b where "b = calc_bucket t (hash t k)"
  define f where "f = (\<lambda>e :: ('a, 'b) HASHELEMENT. if matches (hash t k) k e then e\<lparr>edata := v\<rparr> else e)"
  have f: "ekey (f e) = ekey e" "hashvalue (f e) = hashvalue e" for e by (simp_all add: f_def)
  have sh: "htab_shape t" using assms(1) by (simp add: htab_inv_def)
  have b: "b \<le> max_bucket t" using calc_bucket_le [OF sh] by (simp add: b_def)
  have c: "chain_ok t b (get_bucket t b)" unfolding b_def by (rule chain_ok_bucket [OF assms(1)])
  have def: "hash_store k v t = put_bucket b (map f (get_bucket t b)) t"
    by (simp add: hash_store_def Let_def b_def f_def)
  show "htab_inv (hash_store k v t)" unfolding def
  proof (rule htab_inv_put [OF assms(1) alloc_frame_refl b])
    show "chain_ok t b (map f (get_bucket t b))" using c by (simp add: chain_ok_def f comp_def)
  qed (simp add: filter_map comp_def f)
  show "htab_map (hash_store k v t) = (htab_map t)(k \<mapsto> v)"
  proof
    fix k'
    have m: "find (matches (hash t k') k') (map f c) = map_option f (find (matches (hash t k') k') c)" for c
      unfolding find_map by (rule arg_cong [of _ _ "\<lambda>P. map_option f (find P c)"]) (simp add: fun_eq_iff matches_def f)
    have d: "edata (f e) = (if k' = k then v else edata e)" if "find (matches (hash t k') k') c = Some e" for c e
      using that by (auto simp: find_Some_iff f_def matches_def)
    have e: "map_option edata (find (matches (hash t k') k') (map f c)) =
        map_option (\<lambda>e. if k' = k then v else edata e) (find (matches (hash t k') k') c)" for c
      using d [of c] by (cases "find (matches (hash t k') k') c") (simp_all add: m)
    show "htab_map (hash_store k v t) k' = ((htab_map t)(k \<mapsto> v)) k'"
      using assms(2) unfolding def htab_map_put [OF sh b] e
      by (auto simp: htab_map_def b_def)
  qed
qed

section \<open>Insertion and removal\<close>

text \<open>
  \<open>hash_search\<close> with HASH_ENTER_NULL. An existing key is found. A missing key is entered with
  whatever payload the recycled element holds, unless no element can be had: then the table keeps
  its map, its allocator failed or may not grow, and every freelist it may use is empty.
\<close>

definition exhausted :: "('k, 'v) HTAB \<Rightarrow> 'k \<Rightarrow> bool" where
  "exhausted t k \<longleftrightarrow> (isfixed t \<or> True \<in> set (alloc_fails t)) \<and> freeList (freeLists t ! FREELIST_IDX t (hash t k)) = [] \<and>
     (IS_PARTITIONED t \<longrightarrow> (\<forall>i < NUM_FREELISTS. freeList (freeLists t ! i) = []))"

lemma FREELIST_IDX_less: "FREELIST_IDX t h < NUM_FREELISTS"
  by (simp add: FREELIST_IDX_def hash_consts)

definition enter_result :: "('k, 'v) HTAB \<Rightarrow> 'k \<Rightarrow> 'v option \<times> bool \<Rightarrow> ('k, 'v) HTAB \<Rightarrow> bool" where
  "enter_result t k r t' \<longleftrightarrow>
     (case htab_map t k of
        Some v \<Rightarrow> r = (Some v, True) \<and> htab_map t' = htab_map t
      | None \<Rightarrow> (\<exists>v. r = (Some v, False) \<and> htab_map t' = (htab_map t)(k \<mapsto> v)))"

lemma maybe_expand_alloc: "set (alloc_fails (maybe_expand scanned action t)) \<subseteq> set (alloc_fails t)"
proof -
  have "set (alloc_fails t') \<subseteq> set (alloc_fails t)" if "expand_segment b t = (ok, t')" for b ok t'
    using that unfolding expand_segment_def dir_realloc_def seg_alloc_def htab_alloc_def
    by (auto split: if_splits prod.splits bool.splits option.splits list.splits)
  moreover have "alloc_fails (split_bucket t') = alloc_fails t'" for t' :: "('a, 'b) HTAB"
    by (simp add: split_bucket_def Let_def expanded_def expand_masks_def)
  ultimately show ?thesis
    by (auto simp: maybe_expand_def expand_table_split split: prod.splits bool.splits)
qed

lemma exhausted_maybe_expand: "exhausted (maybe_expand scanned action t) k \<Longrightarrow> exhausted t k"
  using maybe_expand_alloc [of scanned action t]
  by (auto simp: exhausted_def IS_PARTITIONED_def FREELIST_IDX_def)

lemma get_hash_entry_exhausted:
  assumes "htab_inv t" and "get_hash_entry (FREELIST_IDX t (hash t k)) t = (None, t1)"
  shows "exhausted t k"
  using get_hash_entry_None [OF assms(2) _ FREELIST_IDX_less] assms(1)
  by (simp add: exhausted_def htab_inv_def htab_shape_def)

lemma get_hash_entry_fail_inv:
  assumes "htab_inv t" and "get_hash_entry idx t = (None, t1)"
  shows "htab_inv t1" and "htab_map t1 = htab_map t"
proof -
  note fr = get_hash_entry_frame [OF assms(2)]
  have "nentries (freeLists t1 ! i) = nentries (freeLists t ! i)" if "i < NUM_FREELISTS" for i
    using get_hash_entry_nentries [OF assms(2), of i] that assms(1) by (simp add: htab_inv_def htab_shape_def)
  then show "htab_inv t1"
    using assms(1) by (simp add: htab_inv_def htab_counts_def alloc_frame_same [OF fr])
  show "htab_map t1 = htab_map t" by (rule alloc_frame_same [OF fr])
qed

text \<open>The part of an insertion after the possible bucket split.\<close>

lemma hash_search_enter_cases:
  assumes "htab_ok t" and "action \<in> {HASH_ENTER, HASH_ENTER_NULL}" and "htab_room 1 t"
    and "hash_search scanned k action t = (r, t')"
  shows "htab_ok t'"
    and "(\<exists>x. r = Inr x \<and> enter_result t k x t') \<or>
         htab_map t k = None \<and> htab_map t' = htab_map t \<and> exhausted t k \<and>
         r = (if action = HASH_ENTER_NULL then Inr (None, False)
              else Inl (Ereport ERROR ERRCODE_OUT_OF_MEMORY (if isshared t then ''out of shared memory'' else ''out of memory'')))"
proof -
  define u where "u = maybe_expand scanned action t"
  have u: "htab_inv u" "htab_map u = htab_map t" "\<not> frozen u" "hash u = hash t" "isshared u = isshared t"
    "max_bucket u \<noteq> - 1"
    using maybe_expand_ok [of t scanned action] maybe_expand_max [OF assms(3)] assms(1) by (auto simp: u_def htab_ok_def)
  let ?b = "calc_bucket u (hash u k)" and ?e = "get_hash_entry (FREELIST_IDX u (hash u k)) u"
  have run: "hash_search scanned k action t =
    (case find (matches (hash u k) k) (get_bucket u ?b) of
       Some e \<Rightarrow> (Inr (Some (edata e), True), u)
     | None \<Rightarrow> (case ?e of
         (None, t1) \<Rightarrow> if action = HASH_ENTER_NULL then (Inr (None, False), t1)
           else (Inl (Ereport ERROR ERRCODE_OUT_OF_MEMORY (if isshared t1 then ''out of shared memory'' else ''out of memory'')), t1)
       | (Some v, t1) \<Rightarrow> (Inr (Some v, False), put_bucket ?b (get_bucket u ?b @ [\<lparr>hashvalue = hash u k, ekey = k, edata = v\<rparr>]) t1)))"
    using assms(2) u hash_initial_lookup_ok [of u "hash u k"]
    by (auto simp: hash_search_def hash_search_with_hash_value_def Let_def u_def [symmetric] htab_inv_def
        split: option.splits prod.splits)
  have "htab_ok t' \<and> ((\<exists>x. r = Inr x \<and> enter_result t k x t') \<or>
         htab_map t k = None \<and> htab_map t' = htab_map t \<and> exhausted t k \<and>
         r = (if action = HASH_ENTER_NULL then Inr (None, False)
              else Inl (Ereport ERROR ERRCODE_OUT_OF_MEMORY (if isshared t then ''out of shared memory'' else ''out of memory''))))"
  proof (cases "find (matches (hash u k) k) (get_bucket u ?b)")
    case (Some e)
    hence "htab_map t k = Some (edata e)" by (simp add: htab_map_def flip: u(2))
    with Some show ?thesis using run assms(4) u by (simp add: htab_ok_def enter_result_def)
  next
    case None
    hence none: "htab_map u k = None" by (simp add: htab_map_def)
    obtain o1 t1 where e: "?e = (o1, t1)" by fastforce
    have fr: "frozen t1 = frozen u" "isshared t1 = isshared u" "max_bucket t1 = max_bucket u"
      using alloc_frame_sel [OF get_hash_entry_frame [OF e]] by auto
    show ?thesis
    proof (cases o1)
      case None
      have "exhausted t k"
        using get_hash_entry_exhausted [OF u(1), of k] e None exhausted_maybe_expand by (auto simp: u_def)
      moreover have "(r, t') = (if action = HASH_ENTER_NULL then (Inr (None, False), t1)
          else (Inl (Ereport ERROR ERRCODE_OUT_OF_MEMORY (if isshared t then ''out of shared memory'' else ''out of memory'')), t1))"
        unfolding assms(4) [symmetric] run \<open>find _ _ = None\<close> e None using fr u by simp
      ultimately show ?thesis
        using get_hash_entry_fail_inv [OF u(1)] e None none u fr by (auto simp: htab_ok_def split: if_splits)
    next
      case (Some v)
      have "(r, t') = (Inr (Some v, False), put_bucket ?b (get_bucket u ?b @ [\<lparr>hashvalue = hash u k, ekey = k, edata = v\<rparr>]) t1)"
        unfolding assms(4) [symmetric] run \<open>find _ _ = None\<close> e Some by simp
      then show ?thesis
        using entry_added [OF u(1) none] e Some none u fr by (simp add: htab_ok_def enter_result_def)
    qed
  qed
  then show "htab_ok t'" and "(\<exists>x. r = Inr x \<and> enter_result t k x t') \<or>
         htab_map t k = None \<and> htab_map t' = htab_map t \<and> exhausted t k \<and>
         r = (if action = HASH_ENTER_NULL then Inr (None, False)
              else Inl (Ereport ERROR ERRCODE_OUT_OF_MEMORY (if isshared t then ''out of shared memory'' else ''out of memory'')))"
    by auto
qed

lemma hash_search_remove:
  assumes "htab_ok t" and "hash_search scanned k HASH_REMOVE t = (r, t')"
  shows "htab_ok t'" and "htab_map t' = (htab_map t)(k := None)" and "r = Inr (htab_map t k, htab_map t k \<noteq> None)"
proof -
  let ?b = "calc_bucket t (hash t k)"
  have inv: "htab_inv t" "\<not> frozen t" "max_bucket t \<noteq> - 1" using assms(1) by (simp_all add: htab_ok_def)
  have "htab_ok t' \<and> htab_map t' = (htab_map t)(k := None) \<and> r = Inr (htab_map t k, htab_map t k \<noteq> None)"
  proof (cases "find (matches (hash t k) k) (get_bucket t ?b)")
    case None
    then show ?thesis
      using assms(2) inv hash_initial_lookup_ok [of t "hash t k"]
      by (auto simp: hash_search_def hash_search_with_hash_value_def Let_def htab_inv_def htab_map_def htab_ok_def)
  next
    case (Some e)
    define idx where "idx = FREELIST_IDX t (hash t k)"
    define t1 where "t1 = (let t = freelist_count idx (-1) t; fl = freeLists t ! idx
       in t\<lparr>freeLists := (freeLists t)[idx := fl\<lparr>freeList := edata e # freeList fl\<rparr>]\<rparr>)"
    have len: "length (freeLists t) = NUM_FREELISTS" using inv by (simp add: htab_inv_def htab_shape_def)
    have fr: "alloc_frame t t1"
      by (simp add: t1_def Let_def alloc_frame_def freelist_count_def)
    have cnt: "nentries (freeLists t1 ! i) = nentries (freeLists t ! i) - (if i = idx then 1 else 0)"
      if "i < NUM_FREELISTS" for i
      using that len by (cases "i = idx") (simp_all add: t1_def Let_def nentries_count)
    have "t' = put_bucket ?b (remove1 e (get_bucket t ?b)) t1" "r = Inr (Some (edata e), True)"
      using assms(2) Some inv hash_initial_lookup_ok [of t "hash t k"]
      by (auto simp: hash_search_def hash_search_with_hash_value_def Let_def htab_inv_def t1_def idx_def
          put_bucket_def freelist_count_def)
    moreover have "htab_map t k = Some (edata e)" using Some by (simp add: htab_map_def)
    ultimately show ?thesis
      using entry_removed [OF inv(1) Some fr] cnt inv alloc_frame_sel [OF fr]
      by (simp add: htab_ok_def idx_def)
  qed
  then show "htab_ok t'" and "htab_map t' = (htab_map t)(k := None)" and "r = Inr (htab_map t k, htab_map t k \<noteq> None)"
    by auto
qed

lemma hash_search_hash:
  assumes "hash_search scanned k action t = (r, t')"
  shows "hash t' = hash t"
  using assms unfolding hash_search_def hash_search_with_hash_value_def Let_def
  by (auto split: prod.splits sum.splits option.splits if_splits dest!: hash_initial_lookup_same
      dest: get_hash_entry_frame [THEN alloc_frame_sel(1)] simp: freelist_count_def Let_def)

lemma nentries_push [simp]: "nentries (fls[j := (fls ! j)\<lparr>freeList := x\<rparr>] ! i) = nentries (fls ! i)"
  by (cases "i = j"; cases "j < length fls") (simp_all add: list_update_beyond)

lemma hash_search_room:
  assumes "htab_ok t" and "hash_search scanned k action t = (r, t')" and "htab_room (Suc n) t"
  shows "htab_room n t'"
proof -
  have len: "0 < length (freeLists t)" using assms(1) by (simp add: htab_ok_def htab_inv_def htab_shape_def hash_consts)
  have "nentries (freeLists t' ! 0) \<le> nentries (freeLists t ! 0) + 1"
    using assms(2) len unfolding hash_search_def hash_search_with_hash_value_def Let_def
    by (auto split: prod.splits sum.splits option.splits if_splits dest!: hash_initial_lookup_same
        dest: get_hash_entry_nentries [where i = 0] simp: nentries_count)
  with assms(3) show ?thesis by (simp add: htab_room_def)
qed

section \<open>Number of entries\<close>

lemma bucket_count_all:
  assumes "htab_shape t"
  shows "(\<Sum>i < NUM_FREELISTS. bucket_count (\<lambda>e. FREELIST_IDX t (hashvalue e) = i) t) = bucket_count (\<lambda>_. True) t"
proof -
  have one: "(\<Sum>i < NUM_FREELISTS. length (filter (\<lambda>e. FREELIST_IDX t (hashvalue e) = i) c)) = length c" for c :: "('a, 'b) HASHBUCKET"
  proof (induction c)
    case (Cons a c)
    have "(\<Sum>i < NUM_FREELISTS. length (filter (\<lambda>e. FREELIST_IDX t (hashvalue e) = i) (a # c)))
        = (\<Sum>i < NUM_FREELISTS. (if FREELIST_IDX t (hashvalue a) = i then 1 else 0)
             + length (filter (\<lambda>e. FREELIST_IDX t (hashvalue e) = i) c))"
      by (rule sum.cong) auto
    then show ?case using Cons by (simp add: sum.distrib FREELIST_IDX_less)
  qed simp
  show ?thesis
    unfolding bucket_count_def by (subst sum.swap) (simp add: one)
qed

lemma fold_sum: "fold (\<lambda>i sum. sum + f i) is (z :: int) = z + sum_list (map f is)"
  by (induction "is" arbitrary: z) simp_all

lemma hash_get_num_entries_sum:
  "IS_PARTITIONED t \<Longrightarrow> hash_get_num_entries t = (\<Sum>i < NUM_FREELISTS. nentries (freeLists t ! i))"
  by (simp add: hash_get_num_entries_def fold_sum hash_consts eval_nat_numeral lessThan_Suc upt_rec algebra_simps)

lemma hash_get_num_entries_count:
  assumes "htab_inv t"
  shows "hash_get_num_entries t = int (bucket_count (\<lambda>_. True) t)"
proof (cases "IS_PARTITIONED t")
  case True
  have "hash_get_num_entries t = (\<Sum>i < NUM_FREELISTS. nentries (freeLists t ! i))"
    using True by (rule hash_get_num_entries_sum)
  also have "\<dots> = (\<Sum>i < NUM_FREELISTS. int (bucket_count (\<lambda>e. FREELIST_IDX t (hashvalue e) = i) t))"
    using assms by (intro sum.cong) (auto simp: htab_inv_def htab_counts_def)
  finally show ?thesis
    using bucket_count_all [of t] assms by (simp add: htab_inv_def flip: of_nat_sum)
next
  case False
  then show ?thesis
    using assms by (simp add: hash_get_num_entries_def htab_inv_def htab_counts_def FREELIST_IDX_def hash_consts)
qed

lemma dom_buckets:
  assumes "htab_inv t"
  shows "dom (htab_map t) = (\<Union>i \<le> unat (max_bucket t). ekey ` set (get_bucket t (of_nat i)))"
proof -
  have sh: "htab_shape t" using assms by (simp add: htab_inv_def)
  have "\<exists>i \<le> unat (max_bucket t). k \<in> ekey ` set (get_bucket t (of_nat i))" if "htab_map t k \<noteq> None" for k
    using that calc_bucket_le [OF sh, of "hash t k"]
    by (intro exI [of _ "unat (calc_bucket t (hash t k))"])
       (auto simp: htab_map_def matches_def word_le_nat_alt dest!: find_SomeD)
  moreover have "htab_map t (ekey e) \<noteq> None" if "i \<le> unat (max_bucket t)" "e \<in> set (get_bucket t (of_nat i))" for i e
  proof -
    have "chain_ok t (of_nat i) (get_bucket t (of_nat i))"
      using assms that(1) by (simp add: htab_inv_def htab_chains_iff word_le_nat_alt unat_of_nat_le [OF that(1)])
    with that(2) show ?thesis by (auto simp: htab_map_def find_None_iff chain_ok_def matches_def)
  qed
  ultimately show ?thesis by blast
qed

lemma card_dom_htab_map:
  assumes "htab_inv t"
  shows "card (dom (htab_map t)) = bucket_count (\<lambda>_. True) t"
proof -
  have ok: "chain_ok t (of_nat i) (get_bucket t (of_nat i))" if "i \<le> unat (max_bucket t)" for i
    using assms that by (simp add: htab_inv_def htab_chains_iff word_le_nat_alt unat_of_nat_le [OF that])
  have "card (dom (htab_map t)) = (\<Sum>i \<le> unat (max_bucket t). card (ekey ` set (get_bucket t (of_nat i))))"
    unfolding dom_buckets [OF assms]
  proof (rule card_UN_disjoint)
    show "\<forall>i \<in> {..unat (max_bucket t)}. \<forall>j \<in> {..unat (max_bucket t)}. i \<noteq> j \<longrightarrow>
        ekey ` set (get_bucket t (of_nat i)) \<inter> ekey ` set (get_bucket t (of_nat j)) = {}"
    proof (intro ballI impI)
      fix i j assume "i \<in> {..unat (max_bucket t)}" "j \<in> {..unat (max_bucket t)}" "i \<noteq> j"
      then show "ekey ` set (get_bucket t (of_nat i)) \<inter> ekey ` set (get_bucket t (of_nat j)) = {}"
        using ok [of i] ok [of j] of_nat_eq_unat [of i "max_bucket t" "of_nat j"] unat_of_nat_le [of j "max_bucket t"]
        by (fastforce simp: chain_ok_def)
    qed
  qed simp_all
  also have "\<dots> = bucket_count (\<lambda>_. True) t"
    unfolding bucket_count_def using ok by (intro sum.cong) (auto simp: chain_ok_def distinct_card simp flip: set_map)
  finally show ?thesis .
qed

section \<open>The table as an interface\<close>

text \<open>
  What a client of a hash table relies on: a find changes nothing and tells what the map holds; a
  removal deletes one key; HASH_ENTER_NULL either answers for the key, creating it where it was
  missing, or reports a full table and changes nothing; a store through the returned pointer sets
  the payload of its key alone.
\<close>

locale hash_table =
  fixes lookup :: "'h \<Rightarrow> 'k \<Rightarrow> 'v option"
    and ok :: "'h \<Rightarrow> bool"
    and room :: "nat \<Rightarrow> 'h \<Rightarrow> bool"
    and search :: "bool \<Rightarrow> 'k \<Rightarrow> HASHACTION \<Rightarrow> ('h, 'v option \<times> bool) pg"
    and store :: "'k \<Rightarrow> 'v \<Rightarrow> 'h \<Rightarrow> 'h"
  assumes find: "ok t \<Longrightarrow> search s k HASH_FIND t = (Inr (lookup t k, lookup t k \<noteq> None), t)"
    and remove: "ok t \<Longrightarrow> search s k HASH_REMOVE t = (r, t') \<Longrightarrow>
      r = Inr (lookup t k, lookup t k \<noteq> None) \<and> ok t' \<and> lookup t' = (lookup t)(k := None)"
    and enter_null: "ok t \<Longrightarrow> room (Suc n) t \<Longrightarrow> search s k HASH_ENTER_NULL t = (r, t') \<Longrightarrow>
      ok t' \<and> room n t' \<and>
      (case lookup t k of
         Some v \<Rightarrow> r = Inr (Some v, True) \<and> lookup t' = lookup t
       | None \<Rightarrow> (\<exists>v. r = Inr (Some v, False) \<and> lookup t' = (lookup t)(k \<mapsto> v)) \<or>
           r = Inr (None, False) \<and> lookup t' = lookup t)"
    and store: "ok t \<Longrightarrow> lookup t k \<noteq> None \<Longrightarrow>
      ok (store k v t) \<and> lookup (store k v t) = (lookup t)(k \<mapsto> v)"
    and store_room: "room n t \<Longrightarrow> room n (store k v t)"
    and remove_room: "ok t \<Longrightarrow> room n t \<Longrightarrow> search s k HASH_REMOVE t = (r, t') \<Longrightarrow> room n t'"
    and room_mono: "room n t \<Longrightarrow> m \<le> n \<Longrightarrow> room m t"
begin

text \<open>Create-or-find, then store: the client's way to set a key.\<close>

lemma enter_store:
  assumes "ok t" "room (Suc n) t" "search s k HASH_ENTER_NULL t = (Inr (Some v0, found), t')"
  shows "ok (store k v t')" "lookup (store k v t') = (lookup t)(k \<mapsto> v)" "room n (store k v t')"
    and "found = (lookup t k \<noteq> None)"
proof -
  have "lookup t' k \<noteq> None \<and> (lookup t')(k \<mapsto> v) = (lookup t)(k \<mapsto> v) \<and> ok t' \<and> room n t' \<and> found = (lookup t k \<noteq> None)"
    using enter_null [OF assms] by (auto split: option.splits)
  then show "ok (store k v t')" "lookup (store k v t') = (lookup t)(k \<mapsto> v)" "room n (store k v t')"
    "found = (lookup t k \<noteq> None)"
    using store [of t' k v] store_room by auto
qed

text \<open>A full table is left as it was.\<close>

lemma enter_full:
  assumes "ok t" "room (Suc n) t" "search s k HASH_ENTER_NULL t = (Inr (None, found), t')"
  shows "ok t'" "lookup t' = lookup t" "room n t'" "lookup t k = None"
  using enter_null [OF assms] by (auto split: option.splits)

lemma enter_never_errs:
  assumes "ok t" "room (Suc n) t"
  shows "search s k HASH_ENTER_NULL t \<noteq> (Inl e, t')"
  using enter_null [OF assms] by (fastforce split: option.splits)

text \<open>Deleting a list of keys one by one.\<close>

lemma remove_keys:
  assumes "ok t"
  shows "ok (fold (\<lambda>k t. snd (search s k HASH_REMOVE t)) ks t)"
    and "lookup (fold (\<lambda>k t. snd (search s k HASH_REMOVE t)) ks t) = lookup t |` (- set ks)"
proof -
  have "ok (fold (\<lambda>k t. snd (search s k HASH_REMOVE t)) ks t) \<and>
        lookup (fold (\<lambda>k t. snd (search s k HASH_REMOVE t)) ks t) = lookup t |` (- set ks)"
    using assms
  proof (induction ks arbitrary: t)
    case Nil
    then show ?case by (auto simp: restrict_map_def)
  next
    case (Cons k ks)
    have "ok (snd (search s k HASH_REMOVE t)) \<and> lookup (snd (search s k HASH_REMOVE t)) = (lookup t)(k := None)"
      using remove [OF Cons.prems, of s k] by (cases "search s k HASH_REMOVE t") auto
    with Cons.IH show ?case by (auto simp: restrict_map_def fun_eq_iff)
  qed
  then show "ok (fold (\<lambda>k t. snd (search s k HASH_REMOVE t)) ks t)"
    and "lookup (fold (\<lambda>k t. snd (search s k HASH_REMOVE t)) ks t) = lookup t |` (- set ks)" by auto
qed

end

lemma hash_search_remove_nentries:
  assumes "htab_ok t" and "hash_search scanned k HASH_REMOVE t = (r, t')"
  shows "nentries (freeLists t' ! 0) \<le> nentries (freeLists t ! 0)"
proof -
  have len: "0 < length (freeLists t)" using assms(1) by (simp add: htab_ok_def htab_inv_def htab_shape_def hash_consts)
  have "htab_shape t" using assms(1) by (simp add: htab_ok_def htab_inv_def)
  with assms(2) len show ?thesis
    unfolding hash_search_def hash_search_with_hash_value_def Let_def
    by (auto simp: hash_initial_lookup_ok nentries_count split: option.splits)
qed

lemma hash_search_enter_null:
  assumes "htab_ok t" and "htab_room (Suc n) t" and "hash_search s k HASH_ENTER_NULL t = (r, t')"
  shows "htab_ok t' \<and> htab_room n t' \<and>
    (case htab_map t k of
       Some v \<Rightarrow> r = Inr (Some v, True) \<and> htab_map t' = htab_map t
     | None \<Rightarrow> (\<exists>v. r = Inr (Some v, False) \<and> htab_map t' = (htab_map t)(k \<mapsto> v)) \<or>
         r = Inr (None, False) \<and> htab_map t' = htab_map t)"
proof -
  have "htab_room 1 t" using assms(2) by (simp add: htab_room_def)
  from hash_search_enter_cases [OF assms(1) _ this assms(3)] hash_search_room [OF assms(1,3,2)]
  show ?thesis by (auto simp: enter_result_def split: option.splits)
qed

interpretation dh: hash_table htab_map htab_ok htab_room hash_search hash_store
proof (unfold_locales, goal_cases)
  case (1 t s k)
  then show ?case by (simp add: htab_ok_def hash_search_find)
next
  case (2 t s k r t')
  then show ?case using hash_search_remove [of t s k r t'] by simp
next
  case (3 t n s k r t')
  then show ?case by (rule hash_search_enter_null)
next
  case (4 t k v)
  moreover have "frozen (hash_store k v t) = frozen t" "max_bucket (hash_store k v t) = max_bucket t"
    by (simp_all add: hash_store_def Let_def)
  ultimately show ?case using hash_store_ok [of t k v] by (simp add: htab_ok_def)
next
  case (5 n t k v)
  then show ?case by (simp add: htab_room_def hash_store_def Let_def)
next
  case (6 t n s k r t')
  then show ?case using hash_search_remove_nentries [of t s k r t'] by (simp add: htab_room_def)
next
  case (7 n t m)
  then show ?case by (simp add: htab_room_def)
qed

end
