(* ===== verification/Hash_Create.thy ===== *)
theory Hash_Create
  imports Hash_Search
begin

text \<open>
  Creation of hash tables (src/src/backend/utils/hash/dynahash.c): sizing of the directory and of
  the element allocations, \<^verbatim>\<open>init_htab\<close> and \<^verbatim>\<open>hash_create\<close>, with every
  allocation that may fail. A created table is empty and satisfies the invariant, and a fixed-size
  table takes as many entries as it was created for. Attaching to an existing shared table
  (\<^verbatim>\<open>HASH_ATTACH\<close>) yields the same table and has no definition of its own.
\<close>

section \<open>Sizes\<close>

text \<open>The position of the highest set bit; the C function is a compiler intrinsic.\<close>

fun pg_leftmost_one_pos :: "nat \<Rightarrow> nat" where
  "pg_leftmost_one_pos word = (if word < 2 then 0 else Suc (pg_leftmost_one_pos (word div 2)))"

declare pg_leftmost_one_pos.simps [simp del]

definition pg_ceil_log2_64 :: "nat \<Rightarrow> nat" where
  "pg_ceil_log2_64 num = (if num < 2 then 0 else pg_leftmost_one_pos (num - 1) + 1)"

definition my_log2 :: "nat \<Rightarrow> nat" where
  "my_log2 num = pg_ceil_log2_64 (min num ((2 ^ 63 - 1) div 2))"

definition next_pow2_int64 :: "nat \<Rightarrow> nat" where
  "next_pow2_int64 num = 2 ^ my_log2 num"

definition next_pow2_int :: "nat \<Rightarrow> nat" where
  "next_pow2_int num = 2 ^ my_log2 (min num ((2 ^ 31 - 1) div 2))"

text \<open>
  Sizes in bytes have the 64-bit type \<^verbatim>\<open>Size\<close>, here a natural number with the wrap-around written out.
\<close>

definition MAXALIGN :: "nat \<Rightarrow> nat" where
  "MAXALIGN len = (len + 7) mod 2 ^ 64 div 8 * 8"

definition element_size :: "nat \<Rightarrow> nat" where
  "element_size entrysize = (MAXALIGN 16 + MAXALIGN entrysize) mod 2 ^ 64"

text \<open>
  The loop of \<^verbatim>\<open>choose_nelem_alloc\<close>. The shift drops the highest bit, so that \<^verbatim>\<open>allocSize\<close> becomes zero
  after 2 ^ 63 and stays so: \<open>None\<close> is a loop that does not end. The quotient fits an \<^verbatim>\<open>int\<close>,
  since it is at most twice a value below 32, plus one, after the first round.
\<close>

partial_function (option) choose_nelem_alloc_loop :: "nat \<Rightarrow> nat \<Rightarrow> nat option" where
  "choose_nelem_alloc_loop elementSize allocSize =
     (let allocSize = 2 * allocSize mod 2 ^ 64; nelem_alloc = allocSize div elementSize in
      if nelem_alloc < 32 then choose_nelem_alloc_loop elementSize allocSize else Some nelem_alloc)"

declare choose_nelem_alloc_loop.simps [code]

text \<open>An element size that wraps to zero is divided by.\<close>

definition choose_nelem_alloc :: "nat \<Rightarrow> nat option" where
  "choose_nelem_alloc entrysize =
     (let elementSize = element_size entrysize in
      if elementSize = 0 then None else choose_nelem_alloc_loop elementSize (32 * 4))"

text \<open>
  \<^verbatim>\<open>hash_estimate_size\<close>: the shared memory a table of \<open>num_entries\<close> entries takes. The
  overflow checks of \<^verbatim>\<open>add_size\<close> and \<^verbatim>\<open>mul_size\<close> raise an error; \<open>None\<close> is that error, or a
  sizing loop without a result.
\<close>

definition add_size :: "nat \<Rightarrow> nat \<Rightarrow> nat option" where
  "add_size s1 s2 = (if 2 ^ 64 \<le> s1 + s2 then None else Some (s1 + s2))"

definition mul_size :: "nat \<Rightarrow> nat \<Rightarrow> nat option" where
  "mul_size s1 s2 = (if 2 ^ 64 \<le> s1 * s2 then None else Some (s1 * s2))"

definition hash_estimate_size :: "nat \<Rightarrow> nat \<Rightarrow> nat \<Rightarrow> nat option" where
  "hash_estimate_size hdr_size num_entries entrysize =
     (let nBuckets = next_pow2_int64 num_entries;
          nSegments = next_pow2_int64 ((nBuckets - 1) div HASH_SEGSIZE + 1);
          nDirEntries = max DEF_DIRSIZE nSegments
      in Option.bind (mul_size nDirEntries 8) (\<lambda>d. Option.bind (add_size (MAXALIGN hdr_size) d) (\<lambda>size.
         Option.bind (mul_size nSegments (MAXALIGN (HASH_SEGSIZE * 8))) (\<lambda>s. Option.bind (add_size size s) (\<lambda>size.
         Option.bind (choose_nelem_alloc entrysize) (\<lambda>elementAllocCnt.
         let nElementAllocs = (num_entries - 1) div elementAllocCnt + 1 in
         Option.bind (mul_size elementAllocCnt (element_size entrysize)) (\<lambda>e.
         Option.bind (mul_size nElementAllocs e) (\<lambda>e. add_size size e))))))))"

section \<open>Creation\<close>

text \<open>
  The header after \<^verbatim>\<open>hdefault\<close>, for a handle that already has its hash function, allocator
  and sharing mode.
\<close>

definition hdefault :: "('k \<Rightarrow> u32) \<Rightarrow> bool \<Rightarrow> 'v \<Rightarrow> bool list \<Rightarrow> ('k, 'v) HTAB" where
  "hdefault h shared stale fails =
     \<lparr>hash = h, freeLists = replicate NUM_FREELISTS \<lparr>nentries = 0, freeList = []\<rparr>, dsize = 0, dir = [],
      max_bucket = 0, high_mask = 0, low_mask = 0, num_partitions = 0, max_dsize = None, nelem_alloc = 0,
      isfixed = False, isshared = shared, frozen = False, junk = stale, alloc_fails = fails\<rparr>"

text \<open>\<^verbatim>\<open>while (nbuckets < hctl->num_partitions) nbuckets <<= 1\<close>, from a positive start.\<close>

function double_until :: "nat \<Rightarrow> nat \<Rightarrow> nat" where
  "double_until nbuckets np = (if 0 < nbuckets \<and> nbuckets < np then double_until (2 * nbuckets) np else nbuckets)"
  by pat_completeness auto

termination
  by (relation "measure (\<lambda>(nbuckets, np). np - nbuckets)") auto

declare double_until.simps [simp del]

fun seg_alloc_loop :: "nat \<Rightarrow> ('k, 'v) HTAB \<Rightarrow> bool \<times> ('k, 'v) HTAB" where
  "seg_alloc_loop 0 t = (True, t)"
| "seg_alloc_loop (Suc n) t =
     (case seg_alloc t of
        (None, t) \<Rightarrow> (False, t)
      | (Some seg, t) \<Rightarrow> seg_alloc_loop n (t\<lparr>dir := dir t @ [seg]\<rparr>))"

text \<open>The derived header fields of \<^verbatim>\<open>init_htab\<close>, and the number of segments to allocate.\<close>

definition init_nbuckets :: "nat \<Rightarrow> ('k, 'v) HTAB \<Rightarrow> nat" where
  "init_nbuckets nelem t = double_until (next_pow2_int nelem) (num_partitions t)"

definition init_nsegs :: "nat \<Rightarrow> nat" where
  "init_nsegs nbuckets = next_pow2_int ((nbuckets - 1) div HASH_SEGSIZE + 1)"

definition init_header :: "nat \<Rightarrow> ('k, 'v) HTAB \<Rightarrow> ('k, 'v) HTAB" where
  "init_header nbuckets t =
     (let t = t\<lparr>max_bucket := of_nat (nbuckets - 1), low_mask := of_nat (nbuckets - 1),
               high_mask := of_nat (2 * nbuckets - 1), dsize := max DEF_DIRSIZE (init_nsegs nbuckets)\<rparr>
      in if isshared t then t\<lparr>max_dsize := Some (dsize t)\<rparr> else t)"

text \<open>The result is \<open>None\<close> where \<^verbatim>\<open>choose_nelem_alloc\<close> has none.\<close>

definition init_htab :: "nat \<Rightarrow> nat \<Rightarrow> ('k, 'v) HTAB \<Rightarrow> bool option \<times> ('k, 'v) HTAB" where
  "init_htab entrysize nelem t =
     (let nbuckets = init_nbuckets nelem t in
      case htab_alloc (init_header nbuckets t) of
        (False, t) \<Rightarrow> (Some False, t)
      | (True, t) \<Rightarrow>
          (case seg_alloc_loop (init_nsegs nbuckets) t of
             (False, t) \<Rightarrow> (Some False, t)
           | (True, t) \<Rightarrow>
               (case choose_nelem_alloc entrysize of
                  None \<Rightarrow> (None, t)
                | Some n \<Rightarrow> (Some True, t\<lparr>nelem_alloc := n\<rparr>))))"

text \<open>The initial elements: freelist 0 gets the excess of an uneven share.\<close>

definition prealloc_sizes :: "nat \<Rightarrow> nat \<Rightarrow> nat list" where
  "prealloc_sizes freelist_partitions nelem =
     (let share = (if nelem div freelist_partitions = 0 then 1 else nelem div freelist_partitions);
          first = (if share * freelist_partitions < nelem then nelem - share * (freelist_partitions - 1) else share)
      in map (\<lambda>i. if i = 0 then first else share) [0..<freelist_partitions])"

fun prealloc_loop :: "nat \<Rightarrow> nat list \<Rightarrow> ('k, 'v) HTAB \<Rightarrow> bool \<times> ('k, 'v) HTAB" where
  "prealloc_loop i [] t = (True, t)"
| "prealloc_loop i (n # ns) t =
     (case element_alloc n i t of
        (False, t) \<Rightarrow> (False, t)
      | (True, t) \<Rightarrow> prealloc_loop (Suc i) ns t)"

record hash_flags =
  HASH_SHARED_MEM :: bool
  HASH_PARTITION :: "nat option"
  HASH_FIXED_SIZE :: bool

text \<open>
  The hash function of a table with \<^verbatim>\<open>HASH_BLOBS\<close> keys, for keys whose bytes are given by
  \<open>bytes\<close>.
\<close>

definition blob_hash :: "bool \<Rightarrow> bool \<Rightarrow> nat \<Rightarrow> ('k \<Rightarrow> u8 list) \<Rightarrow> 'k \<Rightarrow> u32" where
  "blob_hash be aligned keysize bytes k =
     (if keysize = 4 then uint32_hash be (bytes k) else tag_hash be aligned (bytes k) keysize)"

definition hash_create ::
  "hash_flags \<Rightarrow> ('k \<Rightarrow> u32) \<Rightarrow> nat \<Rightarrow> nat \<Rightarrow> 'v \<Rightarrow> bool list \<Rightarrow> pg_error + ('k, 'v) HTAB" where
  "hash_create flags h entrysize nelem stale fails =
     (let oom = Inl (Ereport ERROR ERRCODE_OUT_OF_MEMORY ''out of memory'') in
      case htab_alloc (hdefault h (HASH_SHARED_MEM flags) stale fails) of
        (False, t) \<Rightarrow> oom
      | (True, t) \<Rightarrow>
          (let t = (case HASH_PARTITION flags of None \<Rightarrow> t | Some np \<Rightarrow> t\<lparr>num_partitions := np\<rparr>) in
           case init_htab entrysize nelem t of
             (None, t) \<Rightarrow> Inl (Undefined ''choose_nelem_alloc'')
           | (Some False, t) \<Rightarrow> Inl (Ereport ERROR ERRCODE_INTERNAL_ERROR ''failed to initialize hash table'')
           | (Some True, t) \<Rightarrow>
               (case (if isshared t \<or> nelem < nelem_alloc t
                      then prealloc_loop 0 (prealloc_sizes (if IS_PARTITIONED t then NUM_FREELISTS else 1) nelem) t
                      else (True, t)) of
                  (False, t) \<Rightarrow> oom
                | (True, t) \<Rightarrow> Inr (if HASH_FIXED_SIZE flags then t\<lparr>isfixed := True\<rparr> else t))))"

section \<open>Bounds of the sizes\<close>

lemma pg_leftmost_one_pos_bounds: "0 < w \<Longrightarrow> 2 ^ pg_leftmost_one_pos w \<le> w \<and> w < 2 ^ Suc (pg_leftmost_one_pos w)"
proof (induction w rule: pg_leftmost_one_pos.induct)
  case (1 w)
  show ?case
  proof (cases "w < 2")
    case False
    with 1 have "2 ^ pg_leftmost_one_pos (w div 2) \<le> w div 2 \<and> w div 2 < 2 ^ Suc (pg_leftmost_one_pos (w div 2))"
      by simp
    moreover have "pg_leftmost_one_pos w = Suc (pg_leftmost_one_pos (w div 2))"
      using False by (subst pg_leftmost_one_pos.simps) simp
    ultimately show ?thesis by auto
  qed (use 1 in \<open>simp add: pg_leftmost_one_pos.simps [of w]\<close>)
qed

lemma pg_ceil_log2_64_bounds:
  shows "num \<le> 2 ^ pg_ceil_log2_64 num"
    and "num \<le> 2 ^ k \<Longrightarrow> pg_ceil_log2_64 num \<le> k"
proof -
  note pos = pg_leftmost_one_pos_bounds [of "num - 1"]
  show "num \<le> 2 ^ pg_ceil_log2_64 num"
    using pos by (auto simp: pg_ceil_log2_64_def)
  show "pg_ceil_log2_64 num \<le> k" if "num \<le> 2 ^ k"
  proof (cases "num < 2")
    case False
    hence "(2::nat) ^ pg_leftmost_one_pos (num - 1) < 2 ^ k" using pos that by linarith
    then show ?thesis using False by (simp add: pg_ceil_log2_64_def)
  qed (simp add: pg_ceil_log2_64_def)
qed

lemma next_pow2_int_bounds:
  obtains k where "next_pow2_int num = 2 ^ k" "k \<le> 30" "num \<le> 2 ^ 30 \<longrightarrow> num \<le> 2 ^ k"
proof -
  define m where "m = min num ((2 ^ 31 - 1) div 2)"
  have m: "m \<le> 2 ^ 30 - 1" "min m ((2 ^ 63 - 1) div 2) = m" by (simp_all add: m_def)
  have le: "pg_ceil_log2_64 m \<le> 30" using m(1) by (intro pg_ceil_log2_64_bounds(2)) simp
  have "num \<le> 2 ^ pg_ceil_log2_64 m" if "num \<le> 2 ^ 30"
  proof (cases "num = 2 ^ 30")
    case True
    have "\<not> pg_ceil_log2_64 m \<le> 29"
    proof
      assume "pg_ceil_log2_64 m \<le> 29"
      hence "(2::nat) ^ pg_ceil_log2_64 m \<le> 2 ^ 29" by (intro power_increasing) simp_all
      with pg_ceil_log2_64_bounds(1) [of m] show False using True by (simp add: m_def)
    qed
    with le have "pg_ceil_log2_64 m = 30" by simp
    with True show ?thesis by simp
  next
    case False
    with that have "m = num" by (simp add: m_def)
    then show ?thesis using pg_ceil_log2_64_bounds(1) [of num] by simp
  qed
  moreover have "next_pow2_int num = 2 ^ pg_ceil_log2_64 m"
    using m(2) by (simp add: next_pow2_int_def my_log2_def m_def)
  ultimately show ?thesis using that le by blast
qed

lemma next_pow2_int_ge: "num \<le> 2 ^ 30 \<Longrightarrow> num \<le> next_pow2_int num"
  by (rule next_pow2_int_bounds [of num]) simp

lemma double_until_pow2:
  "k \<le> j \<Longrightarrow> double_until (2 ^ k) (2 ^ j) = 2 ^ j" "j \<le> k \<Longrightarrow> double_until (2 ^ k) (2 ^ j) = 2 ^ k"
  "double_until n 0 = n"
proof -
  show "double_until (2 ^ k) (2 ^ j) = 2 ^ j" if "k \<le> j"
    using that by (induction "j - k" arbitrary: k) (subst double_until.simps, fastforce simp flip: power_Suc)+
qed (simp_all add: double_until.simps)

lemma element_size_dvd: "8 dvd element_size entrysize"
proof -
  have "8 dvd (2 ^ 64 :: nat)" by (rule dvdI [of _ _ "2 ^ 61"]) simp
  moreover have "8 dvd MAXALIGN 16 + MAXALIGN entrysize" by (simp add: MAXALIGN_def)
  ultimately show ?thesis unfolding element_size_def by (simp add: dvd_mod_iff)
qed

lemma element_size_exact:
  assumes "entrysize < 2 ^ 57" shows "element_size entrysize = 16 + (entrysize + 7) div 8 * 8"
  using assms by (simp add: element_size_def MAXALIGN_def)

text \<open>The loop at a power of two: it ends at the first one that holds 32 elements.\<close>

lemma choose_nelem_alloc_loop_ends:
  assumes "0 < es" "es \<le> 2 ^ 58" "i \<le> 62" "2 ^ i < 32 * es"
  shows "\<exists>p \<le> 63. choose_nelem_alloc_loop es (2 ^ i) = Some (2 ^ p div es) \<and> 32 * es \<le> 2 ^ p \<and> 2 ^ p < 64 * es"
  using assms(3,4)
proof (induction "62 - i" arbitrary: i)
  case 0
  hence i: "i = 62" by simp
  have "32 * es \<le> 2 ^ 63" using assms(2) by simp
  hence "32 \<le> 2 ^ 63 div es" using assms(1) by (simp add: less_eq_div_iff_mult_less_eq)
  thus ?case using i 0(3) assms(1,2) by (intro exI [of _ 63]) (subst choose_nelem_alloc_loop.simps, simp add: Let_def)
next
  case (Suc d)
  have i: "i < 62" and d: "d = 62 - Suc i" using Suc.hyps(2) by simp_all
  have wrap: "2 * 2 ^ i mod 2 ^ 64 = (2 ^ Suc i :: nat)"
    using power_strict_increasing [of "Suc i" 64 "2 :: nat"] i by simp
  show ?case
  proof (cases "2 ^ Suc i div es < 32")
    case True
    hence "2 ^ Suc i < 32 * es" using assms(1) by (simp add: div_less_iff_less_mult)
    then obtain p where "p \<le> 63" "choose_nelem_alloc_loop es (2 ^ Suc i) = Some (2 ^ p div es)" "32 * es \<le> 2 ^ p" "2 ^ p < 64 * es"
      using Suc.hyps(1) [of "Suc i"] d i by (auto simp del: power_Suc)
    thus ?thesis using True by (intro exI [of _ p]) (subst choose_nelem_alloc_loop.simps, simp only: wrap Let_def, simp)
  next
    case False
    hence "32 * es \<le> 2 ^ Suc i" using assms(1) by (simp add: div_less_iff_less_mult not_less)
    thus ?thesis using False i Suc.prems(2)
      by (intro exI [of _ "Suc i"]) (subst choose_nelem_alloc_loop.simps, simp only: wrap Let_def, simp)
  qed
qed

text \<open>Above the limit no power of two below 2 ^ 64 holds 32 elements, and the loop has no result.\<close>

lemma doubled_power: "2 * a mod 2 ^ 64 = 0 \<or> (\<exists>k \<le> 63. 2 * a mod 2 ^ 64 = (2 ^ k :: nat))" if "a = 0 \<or> (\<exists>k \<le> 63. a = (2 ^ k :: nat))" for a
proof -
  have "2 * 2 ^ k mod 2 ^ 64 = (2 ^ Suc k :: nat)" if "k < 63" for k
    using power_strict_increasing [of "Suc k" 64 "2 :: nat"] that by simp
  moreover have "2 * 2 ^ 63 mod 2 ^ 64 = (0 :: nat)" by simp
  ultimately show ?thesis using that by (metis le_neq_implies_less Suc_leI mult_0_right mod_0)
qed

lemma choose_nelem_alloc_loop_none:
  assumes "2 ^ 58 < es" "a = 0 \<or> (\<exists>k \<le> 63. a = 2 ^ k)"
  shows "choose_nelem_alloc_loop es a = None"
proof -
  have "2 ^ 58 < es \<longrightarrow> \<not> (a = 0 \<or> (\<exists>k \<le> 63. a = 2 ^ k))" if "choose_nelem_alloc_loop es a = Some n" for es a n
    using that
  proof (rule choose_nelem_alloc_loop.raw_induct [rotated])
    fix loop and es a n :: nat
    assume IH: "\<And>es a n. loop es a = Some n \<Longrightarrow> 2 ^ 58 < es \<longrightarrow> \<not> (a = 0 \<or> (\<exists>k \<le> 63. a = 2 ^ k))"
      and run: "(let allocSize = 2 * a mod 2 ^ 64; nelem_alloc = allocSize div es
        in if nelem_alloc < 32 then loop es allocSize else Some nelem_alloc) = Some n"
    show "2 ^ 58 < es \<longrightarrow> \<not> (a = 0 \<or> (\<exists>k \<le> 63. a = 2 ^ k))"
    proof (intro impI notI)
      assume big: "2 ^ 58 < es" and a: "a = 0 \<or> (\<exists>k \<le> 63. a = 2 ^ k)"
      have d: "2 * a mod 2 ^ 64 = 0 \<or> (\<exists>k \<le> 63. 2 * a mod 2 ^ 64 = 2 ^ k)" by (rule doubled_power [OF a])
      hence "2 * a mod 2 ^ 64 \<le> 2 ^ 63" using power_increasing [of _ 63 "2 :: nat"] by auto
      hence "2 * a mod 2 ^ 64 < 32 * es" using big by simp
      hence "2 * a mod 2 ^ 64 div es < 32" using big by (simp add: div_less_iff_less_mult)
      hence "loop es (2 * a mod 2 ^ 64) = Some n" using run by (simp add: Let_def)
      from IH [OF this] show False using big d by blast
    qed
  qed
  thus ?thesis using assms by (cases "choose_nelem_alloc_loop es a") auto
qed

lemma choose_nelem_alloc_ends:
  assumes "0 < element_size entrysize" "element_size entrysize \<le> 2 ^ 58"
  shows "\<exists>p \<le> 63. choose_nelem_alloc entrysize = Some (2 ^ p div element_size entrysize)
    \<and> 32 * element_size entrysize \<le> 2 ^ p \<and> 2 ^ p < 64 * element_size entrysize"
proof -
  have "8 \<le> element_size entrysize" using element_size_dvd assms(1) by (auto dest: dvd_imp_le)
  hence "(2 :: nat) ^ 7 < 32 * element_size entrysize" by simp
  from choose_nelem_alloc_loop_ends [OF assms _ this] show ?thesis using assms(1) by (simp add: choose_nelem_alloc_def Let_def)
qed

lemma choose_nelem_alloc_bound: "choose_nelem_alloc entrysize = Some n \<Longrightarrow> 32 \<le> n"
proof -
  assume n: "choose_nelem_alloc entrysize = Some n"
  have pos: "0 < element_size entrysize" using n by (auto simp: choose_nelem_alloc_def Let_def split: if_splits)
  have "element_size entrysize \<le> 2 ^ 58"
  proof (rule ccontr)
    assume "\<not> element_size entrysize \<le> 2 ^ 58"
    moreover have "\<exists>k \<le> 63. (32 * 4 :: nat) = 2 ^ k" by (intro exI [of _ 7]) simp
    ultimately show False using n choose_nelem_alloc_loop_none [of "element_size entrysize" "32 * 4"]
      by (auto simp: choose_nelem_alloc_def Let_def)
  qed
  from choose_nelem_alloc_ends [OF pos this] n pos show ?thesis by (auto simp: less_eq_div_iff_mult_less_eq)
qed

section \<open>A created table\<close>

definition dir_frame :: "('k, 'v) HTAB \<Rightarrow> ('k, 'v) HTAB \<Rightarrow> bool" where
  "dir_frame t t' \<longleftrightarrow> t'\<lparr>dir := dir t, alloc_fails := alloc_fails t\<rparr> = t"

lemma dir_frame_sel:
  assumes "dir_frame t t'"
  shows "hash t' = hash t" "freeLists t' = freeLists t" "max_bucket t' = max_bucket t" "high_mask t' = high_mask t"
    "low_mask t' = low_mask t" "num_partitions t' = num_partitions t" "frozen t' = frozen t"
    "isfixed t' = isfixed t" "isshared t' = isshared t"
  using assms by (cases t; cases t'; simp add: dir_frame_def)+

lemma dir_frame_trans: "dir_frame t t1 \<Longrightarrow> dir_frame t1 t' \<Longrightarrow> dir_frame t t'"
  by (cases t; cases t1; cases t'; simp add: dir_frame_def)

lemma seg_alloc_frame: "seg_alloc t = (r, t') \<Longrightarrow> dir_frame t t' \<and> dir t' = dir t \<and> (r = None \<or> r = Some (replicate HASH_SEGSIZE []))"
  by (auto simp: dir_frame_def seg_alloc_def htab_alloc_def split: prod.splits bool.splits list.splits)

lemma seg_alloc_loop_True:
  "seg_alloc_loop n t = (True, t') \<Longrightarrow>
   dir_frame t t' \<and> dir t' = dir t @ replicate n (replicate HASH_SEGSIZE [])"
proof (induction n arbitrary: t)
  case (Suc n)
  obtain r t1 where t1: "seg_alloc t = (r, t1)" by fastforce
  with Suc.prems seg_alloc_frame [OF t1] have rest: "seg_alloc_loop n (t1\<lparr>dir := dir t @ [replicate HASH_SEGSIZE []]\<rparr>) = (True, t')"
    by (auto split: option.splits)
  have "dir_frame t (t1\<lparr>dir := dir t @ [replicate HASH_SEGSIZE []]\<rparr>)"
    using seg_alloc_frame [OF t1] by (simp add: dir_frame_def)
  with Suc.IH [OF rest] show ?case
    using dir_frame_trans by (simp add: replicate_append_same) blast
qed (simp add: dir_frame_def)

definition fresh_lists :: "('k, 'v) HTAB \<Rightarrow> bool" where
  "fresh_lists t \<longleftrightarrow> freeLists t = replicate NUM_FREELISTS \<lparr>nentries = 0, freeList = []\<rparr>"

definition prealloc_ok :: "nat \<Rightarrow> nat list \<Rightarrow> ('k, 'v) HTAB \<Rightarrow> ('k, 'v) HTAB \<Rightarrow> bool" where
  "prealloc_ok i ns t t' \<longleftrightarrow> alloc_frame t t' \<and> (\<forall>j < length (freeLists t).
     nentries (freeLists t' ! j) = nentries (freeLists t ! j) \<and>
     length (freeList (freeLists t' ! j)) = length (freeList (freeLists t ! j))
       + (if i \<le> j \<and> j < i + length ns then ns ! (j - i) else 0))"

lemma prealloc_loop_True:
  "prealloc_loop i ns t = (True, t') \<Longrightarrow> prealloc_ok i ns t t'"
proof (induction i ns t rule: prealloc_loop.induct)
  case (2 i n ns t)
  then obtain t1 where t1: "element_alloc n i t = (True, t1)" and rest: "prealloc_loop (Suc i) ns t1 = (True, t')"
    by (auto split: prod.splits bool.splits)
  have fr: "alloc_frame t t1" by (rule element_alloc_frame [OF t1])
  have len: "length (freeLists t1) = length (freeLists t)" by (rule length_element_alloc [OF t1])
  have one: "length (freeList (freeLists t1 ! j)) = length (freeList (freeLists t ! j)) + (if j = i then n else 0)"
    if "j < length (freeLists t)" for j
    using t1 that by (cases "j = i")
      (auto simp: element_alloc_def htab_alloc_def Let_def split: if_splits list.splits prod.splits bool.splits)
  have IH: "prealloc_ok (Suc i) ns t1 t'" using 2 t1 rest by simp
  show ?case unfolding prealloc_ok_def
  proof (intro conjI allI impI)
    show "alloc_frame t t'" using fr IH alloc_frame_trans by (auto simp: prealloc_ok_def)
    fix j assume j: "j < length (freeLists t)"
    show "nentries (freeLists t' ! j) = nentries (freeLists t ! j)"
      using IH j len nentries_element_alloc [OF t1] by (simp add: prealloc_ok_def)
    have "length (freeList (freeLists t' ! j)) = length (freeList (freeLists t1 ! j))
        + (if Suc i \<le> j \<and> j < Suc i + length ns then ns ! (j - Suc i) else 0)"
      using IH j len by (simp add: prealloc_ok_def)
    then show "length (freeList (freeLists t' ! j)) = length (freeList (freeLists t ! j))
        + (if i \<le> j \<and> j < i + length (n # ns) then (n # ns) ! (j - i) else 0)"
      using one [OF j] by (auto simp: nth_Cons' Suc_diff_Suc)
  qed
qed (simp add: prealloc_ok_def)

text \<open>What a partition count must be: a power of two that fits an \<^verbatim>\<open>int\<close>.\<close>

definition valid_partitions :: "nat option \<Rightarrow> bool" where
  "valid_partitions np \<longleftrightarrow> (case np of None \<Rightarrow> True | Some n \<Rightarrow> n \<in> (\<lambda>j. 2 ^ j) ` {..30})"

lemma nbuckets_pow2:
  assumes "np = 0 \<or> np \<in> (\<lambda>j. 2 ^ j) ` {..30}"
  obtains k where "double_until (next_pow2_int nelem) np = 2 ^ k" "k \<le> 30"
    "nelem \<le> 2 ^ 30 \<longrightarrow> nelem \<le> 2 ^ k"
proof -
  obtain k where k: "next_pow2_int nelem = 2 ^ k" "k \<le> 30" "nelem \<le> 2 ^ 30 \<longrightarrow> nelem \<le> 2 ^ k"
    by (rule next_pow2_int_bounds [of nelem])
  show ?thesis
  proof (cases "np = 0")
    case True
    with k that [of k] show ?thesis by (simp add: double_until_pow2)
  next
    case False
    then obtain j where j: "np = 2 ^ j" "j \<le> 30" using assms by auto
    have "nelem \<le> 2 ^ max j k" if "nelem \<le> 2 ^ 30"
      by (rule order_trans [OF _ power_increasing [OF max.cobounded2 [of k j]]]) (use k(3) that in auto)
    with j k that [of "max j k"] show ?thesis
      by (cases "j \<le> k") (simp_all add: double_until_pow2 max_def)
  qed
qed

definition fresh :: "('k, 'v) HTAB \<Rightarrow> bool" where
  "fresh t \<longleftrightarrow> dir t = [] \<and> fresh_lists t \<and>
     \<not> isfixed t \<and> \<not> frozen t \<and> (num_partitions t = 0 \<or> num_partitions t \<in> (\<lambda>j. 2 ^ j) ` {..30})"

lemma empty_buckets:
  assumes "dir t = replicate n (replicate HASH_SEGSIZE [])" and "unat (max_bucket t) < HASH_SEGSIZE * n" and "b \<le> max_bucket t"
  shows "get_bucket t b = []"
proof -
  have "unat b div 256 < n" using assms(2,3) by (simp add: word_le_nat_alt hash_consts)
  then show ?thesis by (simp add: get_bucket_def assms(1) segment_num_div segment_ndx_mod hash_consts)
qed

lemma init_header_sel [simp]:
  "hash (init_header n t) = hash t" "freeLists (init_header n t) = freeLists t" "dir (init_header n t) = dir t"
  "num_partitions (init_header n t) = num_partitions t" "frozen (init_header n t) = frozen t"
  "isfixed (init_header n t) = isfixed t" "isshared (init_header n t) = isshared t"
  "max_bucket (init_header n t) = of_nat (n - 1)" "low_mask (init_header n t) = of_nat (n - 1)"
  "high_mask (init_header n t) = of_nat (2 * n - 1)"
  by (simp_all add: init_header_def Let_def)

lemma init_htab_frame:
  assumes "init_htab entrysize nelem t = (Some True, t')" and "fresh t"
  defines "n \<equiv> init_nbuckets nelem t"
  obtains f1 m where "dir_frame (init_header n t) f1" "dir f1 = replicate (init_nsegs n) (replicate HASH_SEGSIZE [])"
    "t' = f1\<lparr>nelem_alloc := m\<rparr>" "32 \<le> m"
proof -
  define t0 where "t0 = init_header n t"
  obtain ok u where u: "htab_alloc t0 = (ok, u)" by fastforce
  have fu: "dir_frame t0 u" "dir u = dir t0"
    using u by (auto simp: dir_frame_def htab_alloc_def split: list.splits)
  obtain ok' f1 where f1: "seg_alloc_loop (init_nsegs n) u = (ok', f1)" by fastforce
  obtain m where ok: "ok" "ok'" and t': "t' = f1\<lparr>nelem_alloc := m\<rparr>" "32 \<le> m"
    using assms(1) u f1 choose_nelem_alloc_bound [of entrysize]
    by (auto simp: init_htab_def t0_def n_def split: bool.splits option.splits)
  have "dir_frame t0 f1 \<and> dir f1 = replicate (init_nsegs n) (replicate HASH_SEGSIZE [])"
    using seg_alloc_loop_True [of "init_nsegs n" u f1] f1 ok fu dir_frame_trans [OF fu(1)] assms(2)
    by (simp add: fresh_def t0_def)
  with t' that show ?thesis unfolding t0_def by blast
qed

lemma init_htab_ok:
  assumes "init_htab entrysize nelem t = (Some True, t')" and "fresh t"
  shows "htab_inv t'" "htab_map t' = Map.empty" "\<not> frozen t'" "freeLists t' = freeLists t"
    "isshared t' = isshared t" "num_partitions t' = num_partitions t" "hash t' = hash t" "\<not> isfixed t'"
    "nelem \<le> 2 ^ 30 \<Longrightarrow> nelem \<le> Suc (unat (max_bucket t'))" "unat (max_bucket t') < 2 ^ 30"
proof -
  obtain k where k: "init_nbuckets nelem t = 2 ^ k" "k \<le> 30"
    "nelem \<le> 2 ^ 30 \<longrightarrow> nelem \<le> 2 ^ k"
    using nbuckets_pow2 [of "num_partitions t" nelem] assms(2)
    unfolding fresh_def init_nbuckets_def by metis
  define nsegs where "nsegs = init_nsegs (2 ^ k)"
  obtain f1 m where f1: "dir_frame (init_header (2 ^ k) t) f1" "dir f1 = replicate nsegs (replicate HASH_SEGSIZE [])"
    "t' = f1\<lparr>nelem_alloc := m\<rparr>" "32 \<le> m"
    using init_htab_frame [OF assms] unfolding nsegs_def k(1) by blast
  note sel = dir_frame_sel [OF f1(1)]
  have max: "unat (max_bucket t') = 2 ^ k - 1" "2 ^ k - 1 < HASH_SEGSIZE * nsegs"
  proof -
    show "unat (max_bucket t') = 2 ^ k - 1"
    proof -
      have "2 ^ k - 1 < (2::nat) ^ 32" using power_increasing [OF k(2), of "2::nat"] by simp
      hence "unat (of_nat (2 ^ k - 1) :: u32) = 2 ^ k - 1" by (rule unat_of_nat32)
      then show ?thesis unfolding f1(3) by (simp add: sel)
    qed
    have "(2 ^ k - 1) div HASH_SEGSIZE + 1 \<le> (2::nat) ^ 30"
      using power_increasing [OF k(2), of "2::nat"] unfolding hash_consts by simp
    then have "(2 ^ k - 1) div HASH_SEGSIZE + 1 \<le> nsegs"
      unfolding nsegs_def init_nsegs_def by (rule next_pow2_int_ge)
    then show "2 ^ k - 1 < HASH_SEGSIZE * nsegs"
      using dividend_less_times_div [of HASH_SEGSIZE "2 ^ k - 1"] by (simp add: hash_consts)
  qed
  have empty: "get_bucket t' b = []" if "b \<le> max_bucket t'" for b
    by (rule empty_buckets [of t' nsegs]) (use max that f1 in auto)
  have sh: "htab_shape t'"
    unfolding htab_shape_def
  proof (intro conjI exI [of _ k])
    show "low_mask t' = mask k" "high_mask t' = mask (Suc k)"
      by (simp_all add: f1(3) sel mask_eq_exp_minus_1 of_nat_diff)
    have "max_bucket t' = mask k" by (simp add: f1(3) sel mask_eq_exp_minus_1 of_nat_diff)
    then show "mask k \<le> max_bucket t'" "max_bucket t' \<le> mask (Suc k)"
      by (simp_all add: mask_Suc_exp le_word_or1)
  qed (use k(2) max f1 assms(2) in
      \<open>auto simp: sel fresh_def fresh_lists_def hash_consts intro: less_le_trans\<close>)
  have "bucket_count P t' = 0" for P
    unfolding bucket_count_def by (simp add: empty word_le_nat_alt unat_of_nat_le [of _ "max_bucket t'"])
  then show "htab_inv t'"
    using sh empty assms(2) by (simp add: htab_inv_def htab_chains_iff chain_ok_def htab_counts_def f1(3) sel fresh_def fresh_lists_def)
  show "htab_map t' = Map.empty"
    by (simp add: fun_eq_iff htab_map_def empty calc_bucket_le [OF sh])
  show "\<not> frozen t'" "freeLists t' = freeLists t" "isshared t' = isshared t" "num_partitions t' = num_partitions t"
    "hash t' = hash t" "\<not> isfixed t'"
    using assms(2) f1(3) sel by (simp_all add: fresh_def fresh_lists_def)
  show "nelem \<le> Suc (unat (max_bucket t'))" if "nelem \<le> 2 ^ 30"
    using k(3) that max(1) by simp
  show "unat (max_bucket t') < 2 ^ 30" using max(1) power_increasing [OF k(2), of "2::nat"] by simp
qed

text \<open>The number of entries a table can hold with the elements it has.\<close>

definition htab_capacity :: "('k, 'v) HTAB \<Rightarrow> int" where
  "htab_capacity t = (\<Sum>i < (if IS_PARTITIONED t then NUM_FREELISTS else 1).
     nentries (freeLists t ! i) + int (length (freeList (freeLists t ! i))))"

lemma length_prealloc_sizes [simp]: "length (prealloc_sizes fp nelem) = fp"
  by (simp add: prealloc_sizes_def Let_def)

lemma prealloc_sizes_sum:
  assumes "0 < fp"
  shows "nelem \<le> sum_list (prealloc_sizes fp nelem)" and "sum_list (prealloc_sizes fp nelem) \<le> nelem + fp"
proof -
  define share where "share = (if nelem div fp = 0 then 1 else nelem div fp)"
  define first where "first = (if share * fp < nelem then nelem - share * (fp - 1) else share)"
  have "sum_list (map (\<lambda>i. if i = 0 then first else share) [0..<fp]) = first + share * (fp - 1)"
  proof -
    have rest: "map (\<lambda>i. if i = 0 then first else share) [Suc 0..<fp] = map (\<lambda>_. share) [Suc 0..<fp]"
      by (rule map_cong) auto
    show ?thesis using assms by (simp add: upt_conv_Cons sum_list_triv rest)
  qed
  moreover have "prealloc_sizes fp nelem = map (\<lambda>i. if i = 0 then first else share) [0..<fp]"
    by (simp add: prealloc_sizes_def Let_def share_def first_def)
  ultimately have sum: "sum_list (prealloc_sizes fp nelem) = first + share * (fp - 1)" by simp
  show "nelem \<le> sum_list (prealloc_sizes fp nelem)"
    unfolding sum using assms by (cases fp) (auto simp: first_def)
  have "share * fp \<le> nelem + fp"
    using trans_le_add1 [OF div_times_less_eq_dividend [of nelem fp], of fp] by (simp add: share_def)
  then show "sum_list (prealloc_sizes fp nelem) \<le> nelem + fp"
    unfolding sum using assms by (cases fp) (auto simp: first_def)
qed

lemma prealloc_capacity:
  assumes "prealloc_ok 0 (prealloc_sizes fp nelem) t t'" and "fresh_lists t"
    and "fp = (if IS_PARTITIONED t then NUM_FREELISTS else 1)"
  shows "int nelem \<le> htab_capacity t'" and "htab_capacity t' \<le> int (nelem + NUM_FREELISTS)"
proof -
  have fr: "alloc_frame t t'" using assms(1) by (simp add: prealloc_ok_def)
  have fp: "0 < fp" "fp \<le> length (freeLists t)" using assms(2,3) by (auto simp: hash_consts fresh_lists_def)
  have "nentries (freeLists t' ! i) + int (length (freeList (freeLists t' ! i))) = int (prealloc_sizes fp nelem ! i)"
    if "i < fp" for i
    using assms(1,2) that fp by (auto simp: prealloc_ok_def fresh_lists_def)
  hence "(\<Sum>i < fp. nentries (freeLists t' ! i) + int (length (freeList (freeLists t' ! i))))
       = int (sum_list (prealloc_sizes fp nelem))"
    by (simp add: sum_list_sum_nth atLeast0LessThan)
  hence "htab_capacity t' = int (sum_list (prealloc_sizes fp nelem))"
    by (simp add: htab_capacity_def IS_PARTITIONED_def alloc_frame_sel [OF fr] assms(3))
  moreover have "fp \<le> NUM_FREELISTS" using assms(3) by (simp add: hash_consts)
  ultimately show "int nelem \<le> htab_capacity t'" and "htab_capacity t' \<le> int (nelem + NUM_FREELISTS)"
    using prealloc_sizes_sum [OF fp(1), of nelem] by simp_all
qed

lemma hash_create_cases:
  assumes "hash_create flags h entrysize nelem stale fails = Inr t" and "valid_partitions (HASH_PARTITION flags)"
  obtains t0 t1 t2 where "fresh t0" "hash t0 = h" "isshared t0 = HASH_SHARED_MEM flags"
    "init_htab entrysize nelem t0 = (Some True, t1)"
    "t1 = t2 \<and> \<not> isshared t1 \<or> prealloc_ok 0 (prealloc_sizes (if IS_PARTITIONED t1 then NUM_FREELISTS else 1) nelem) t1 t2"
    "t = (if HASH_FIXED_SIZE flags then t2\<lparr>isfixed := True\<rparr> else t2)"
proof -
  obtain ok u where u: "htab_alloc (hdefault h (HASH_SHARED_MEM flags) stale fails) = (ok, u)" by fastforce
  define t0 where "t0 = (case HASH_PARTITION flags of None \<Rightarrow> u | Some np \<Rightarrow> u\<lparr>num_partitions := np\<rparr>)"
  have "fresh t0" "hash t0 = h" "isshared t0 = HASH_SHARED_MEM flags"
    using u assms(2)
    by (auto simp: htab_alloc_def hdefault_def t0_def fresh_def fresh_lists_def valid_partitions_def split: option.splits list.splits)
  moreover obtain ok1 t1 where t1: "init_htab entrysize nelem t0 = (ok1, t1)" by fastforce
  define pre where "pre = (if isshared t1 \<or> nelem < nelem_alloc t1
    then prealloc_loop 0 (prealloc_sizes (if IS_PARTITIONED t1 then NUM_FREELISTS else 1) nelem) t1 else (True, t1))"
  obtain ok2 t2 where t2: "pre = (ok2, t2)" by fastforce
  have "ok1 = Some True" "ok2" "t = (if HASH_FIXED_SIZE flags then t2\<lparr>isfixed := True\<rparr> else t2)"
    using assms(1) u t1 t2 unfolding hash_create_def Let_def t0_def pre_def
    by (auto split: bool.splits prod.splits option.splits)
  moreover have "t1 = t2 \<and> \<not> isshared t1 \<or> prealloc_ok 0 (prealloc_sizes (if IS_PARTITIONED t1 then NUM_FREELISTS else 1) nelem) t1 t2"
    using t2 calculation(5) unfolding pre_def by (auto split: if_splits intro: prealloc_loop_True)
  ultimately show ?thesis using that [of t0 t1 t2] t1 by simp
qed

lemma prealloc_inv:
  assumes "htab_inv t1" and "prealloc_ok 0 ns t1 t2"
  shows "htab_inv t2" "htab_map t2 = htab_map t1"
proof -
  have fr: "alloc_frame t1 t2" using assms(2) by (simp add: prealloc_ok_def)
  have len: "length (freeLists t1) = NUM_FREELISTS" using assms(1) by (simp add: htab_inv_def htab_shape_def)
  show "htab_inv t2"
    using assms len unfolding htab_inv_def htab_counts_def alloc_frame_same [OF fr] by (simp add: prealloc_ok_def)
  show "htab_map t2 = htab_map t1" by (rule alloc_frame_same [OF fr])
qed

lemma isfixed_update [simp]:
  "htab_inv (t\<lparr>isfixed := f\<rparr>) = htab_inv t" "htab_map (t\<lparr>isfixed := f\<rparr>) = htab_map t"
  "htab_capacity (t\<lparr>isfixed := f\<rparr>) = htab_capacity t"
proof -
  have eqs: "get_bucket (t\<lparr>isfixed := f\<rparr>) = get_bucket t" "calc_bucket (t\<lparr>isfixed := f\<rparr>) = calc_bucket t"
    "FREELIST_IDX (t\<lparr>isfixed := f\<rparr>) = FREELIST_IDX t"
    by (auto simp: get_bucket_def calc_bucket_def FREELIST_IDX_def IS_PARTITIONED_def Let_def)
  show "htab_inv (t\<lparr>isfixed := f\<rparr>) = htab_inv t"
    by (simp add: htab_inv_def htab_shape_def htab_chains_def htab_counts_def bucket_count_def eqs)
  show "htab_map (t\<lparr>isfixed := f\<rparr>) = htab_map t" by (simp add: fun_eq_iff htab_map_def eqs)
  show "htab_capacity (t\<lparr>isfixed := f\<rparr>) = htab_capacity t" by (simp add: htab_capacity_def IS_PARTITIONED_def)
qed

lemma small_max: "unat w < 2 ^ 30 \<Longrightarrow> w \<noteq> - 1" for w :: u32
  by (auto simp: unsigned_minus_1_eq_mask mask_eq_exp_minus_1)

lemma hash_create_ok:
  assumes "hash_create flags h entrysize nelem stale fails = Inr t" and "valid_partitions (HASH_PARTITION flags)"
  shows "htab_ok t" "htab_map t = Map.empty" "hash t = h" "isshared t = HASH_SHARED_MEM flags"
    "isfixed t = HASH_FIXED_SIZE flags" "unat (max_bucket t) < 2 ^ 30"
    "HASH_SHARED_MEM flags \<Longrightarrow> int nelem \<le> htab_capacity t"
    "HASH_SHARED_MEM flags \<Longrightarrow> htab_capacity t \<le> int (nelem + NUM_FREELISTS)"
proof -
  obtain t0 t1 t2 where t: "fresh t0" "hash t0 = h" "isshared t0 = HASH_SHARED_MEM flags"
    "init_htab entrysize nelem t0 = (Some True, t1)"
    "t1 = t2 \<and> \<not> isshared t1 \<or> prealloc_ok 0 (prealloc_sizes (if IS_PARTITIONED t1 then NUM_FREELISTS else 1) nelem) t1 t2"
    "t = (if HASH_FIXED_SIZE flags then t2\<lparr>isfixed := True\<rparr> else t2)"
    by (rule hash_create_cases [OF assms])
  note i = init_htab_ok [OF t(4,1)]
  have fr: "alloc_frame t1 t2" using t(5) by (auto simp: prealloc_ok_def)
  have "htab_inv t2 \<and> htab_map t2 = Map.empty"
    using t(5)
  proof
    assume "prealloc_ok 0 (prealloc_sizes (if IS_PARTITIONED t1 then NUM_FREELISTS else 1) nelem) t1 t2"
    from prealloc_inv [OF i(1) this] i(2) show ?thesis by simp
  qed (use i in simp)
  then show "htab_ok t" "htab_map t = Map.empty" "hash t = h" "isshared t = HASH_SHARED_MEM flags"
    using t(2,3,6) i(3,5,7) alloc_frame_sel [OF fr] small_max [OF i(10)] by (auto simp: htab_ok_def)
  show "isfixed t = HASH_FIXED_SIZE flags" "unat (max_bucket t) < 2 ^ 30"
    using t(6) i(8,10) alloc_frame_sel(3,9) [OF fr] by simp_all
  show "int nelem \<le> htab_capacity t" "htab_capacity t \<le> int (nelem + NUM_FREELISTS)" if "HASH_SHARED_MEM flags"
    using that t prealloc_capacity [of _ nelem t1 t2] i(4,5) by (auto simp: fresh_def fresh_lists_def)
qed

section \<open>Capacity\<close>

text \<open>No search loses an element: what leaves a freelist is an entry, what is removed returns to one.\<close>

definition list_cap :: "'v FreeListData \<Rightarrow> int" where
  "list_cap fl = nentries fl + int (length (freeList fl))"

lemma sum_list_update_nth:
  fixes f :: "'a \<Rightarrow> int"
  assumes "j < n" and "n \<le> length xs"
  shows "(\<Sum>i < n. f (xs[j := x] ! i)) = (\<Sum>i < n. f (xs ! i)) - f (xs ! j) + f x"
proof -
  have "(\<Sum>i < n. f (xs[j := x] ! i)) = f x + (\<Sum>i \<in> {..<n} - {j}. f (xs[j := x] ! i))"
    using assms by (subst sum.remove [of _ j]) auto
  also have "(\<Sum>i \<in> {..<n} - {j}. f (xs[j := x] ! i)) = (\<Sum>i \<in> {..<n} - {j}. f (xs ! i))"
    by (rule sum.cong) auto
  also have "f x + \<dots> = (\<Sum>i < n. f (xs ! i)) - f (xs ! j) + f x"
    using assms sum.remove [of "{..<n}" j "\<lambda>i. f (xs ! i)"] by auto
  finally show ?thesis .
qed

definition nlists :: "('k, 'v) HTAB \<Rightarrow> nat" where
  "nlists t = (if IS_PARTITIONED t then NUM_FREELISTS else 1)"

lemma nlists_frame: "alloc_frame t t' \<Longrightarrow> nlists t' = nlists t"
  by (simp add: nlists_def IS_PARTITIONED_def alloc_frame_sel)

lemma htab_capacity_alt: "htab_capacity t = (\<Sum>i < nlists t. list_cap (freeLists t ! i))"
  by (simp add: htab_capacity_def nlists_def list_cap_def)

lemma FREELIST_IDX_nlists: "FREELIST_IDX t h < nlists t"
  by (simp add: FREELIST_IDX_def nlists_def hash_consts)

lemma capacity_upd:
  assumes "j < nlists t" and "length (freeLists t) = NUM_FREELISTS"
  shows "htab_capacity (t\<lparr>freeLists := (freeLists t)[j := x]\<rparr>)
       = htab_capacity t - list_cap (freeLists t ! j) + list_cap x"
  using sum_list_update_nth [OF assms(1), of "freeLists t" list_cap x] assms(2)
  by (simp add: htab_capacity_alt nlists_def IS_PARTITIONED_def hash_consts)

lemma capacity_alloc_fails [simp]: "htab_capacity (t\<lparr>alloc_fails := fs\<rparr>) = htab_capacity t"
  "nlists (t\<lparr>alloc_fails := fs\<rparr>) = nlists t"
  by (simp_all add: htab_capacity_alt nlists_def IS_PARTITIONED_def)

lemma capacity_pop:
  assumes "i < nlists t" "length (freeLists t) = NUM_FREELISTS" "freeList (freeLists t ! i) \<noteq> []"
  shows "htab_capacity (freelist_pop i t) = htab_capacity t - 1"
  using capacity_upd [OF assms(1,2)] assms(3)
  by (cases "freeList (freeLists t ! i)") (simp_all add: freelist_pop_def Let_def list_cap_def)

lemma capacity_count:
  assumes "idx < nlists t" "length (freeLists t) = NUM_FREELISTS"
  shows "htab_capacity (freelist_count idx d t) = htab_capacity t + d"
  using capacity_upd [OF assms] by (simp add: freelist_count_def Let_def list_cap_def)

lemma capacity_take:
  assumes "i < nlists t" "idx < nlists t" "length (freeLists t) = NUM_FREELISTS" "freeList (freeLists t ! i) \<noteq> []"
  shows "htab_capacity (freelist_count idx 1 (freelist_pop i t)) = htab_capacity t"
  using capacity_pop [OF assms(1,3,4)] capacity_count [of idx "freelist_pop i t" 1] assms
  by (simp add: nlists_def freelist_pop_def Let_def IS_PARTITIONED_def)

lemma capacity_element_alloc:
  assumes "element_alloc m idx t = (ok, t')" "idx < nlists t" "length (freeLists t) = NUM_FREELISTS"
  shows "htab_capacity t \<le> htab_capacity t'"
proof -
  have le: "htab_capacity t \<le> htab_capacity (u\<lparr>freeLists := (freeLists t)[idx := (freeLists t ! idx)
      \<lparr>freeList := replicate m (junk t) @ freeList (freeLists t ! idx)\<rparr>]\<rparr>)"
    if "htab_capacity u = htab_capacity t" "nlists u = nlists t" "freeLists u = freeLists t" for u
    using capacity_upd [of idx u] assms(2,3) that by (simp add: list_cap_def)
  have "htab_capacity t \<le> htab_capacity (t\<lparr>alloc_fails := fs, freeLists := (freeLists t)[idx := (freeLists t ! idx)
      \<lparr>freeList := replicate m (junk t) @ freeList (freeLists t ! idx)\<rparr>]\<rparr>)" for fs
    by (rule le) simp_all
  with le [of t] show ?thesis
    using assms(1) by (auto simp: element_alloc_def htab_alloc_def Let_def split: if_splits list.splits prod.splits bool.splits)
qed

lemma borrow_order_less: "i \<in> set (borrow_order idx) \<Longrightarrow> i < NUM_FREELISTS"
  by (auto simp: borrow_order_def hash_consts)

lemma capacity_get_hash_entry:
  assumes "get_hash_entry idx t = (r, t')" "idx < nlists t" "length (freeLists t) = NUM_FREELISTS"
  shows "htab_capacity t \<le> htab_capacity t'"
proof (cases "freeList (freeLists t ! idx)")
  case (Cons v vs)
  then show ?thesis using assms capacity_take [of idx t idx] by (auto simp: get_hash_entry_def)
next
  case Nil
  obtain ok u where u: "element_alloc (nelem_alloc t) idx t = (ok, u)" by fastforce
  have le: "htab_capacity t \<le> htab_capacity u" by (rule capacity_element_alloc [OF u assms(2,3)])
  have fu: "idx < nlists u" "length (freeLists u) = NUM_FREELISTS"
    using assms(2,3) nlists_frame [OF element_alloc_frame [OF u]] alloc_frame_sel(11) [OF element_alloc_frame [OF u]] by simp_all
  have lt: "i < nlists u" if "find (\<lambda>i. freeList (freeLists u ! i) \<noteq> []) (borrow_order idx) = Some i" "IS_PARTITIONED u" for i
    using find_SomeD [OF that(1)] that(2) borrow_order_less [of i idx] by (simp add: nlists_def)
  show ?thesis
    using assms(1) Nil u le fu lt
    by (auto simp: get_hash_entry_def get_hash_entry_borrow_def capacity_take
        split: bool.splits list.splits if_splits option.splits dest: find_SomeD)
qed

lemma capacity_get_hash_entry_fixed:
  assumes "get_hash_entry idx t = (r, t')" "idx < nlists t" "length (freeLists t) = NUM_FREELISTS" "isfixed t"
  shows "htab_capacity t' = htab_capacity t"
proof -
  have "element_alloc (nelem_alloc t) idx t = (False, t)" using assms(4) by (simp add: element_alloc_def)
  moreover have "i < nlists t" if "find (\<lambda>i. freeList (freeLists t ! i) \<noteq> []) (borrow_order idx) = Some i" "IS_PARTITIONED t" for i
    using find_SomeD [OF that(1)] that(2) borrow_order_less [of i idx] by (simp add: nlists_def)
  ultimately show ?thesis
    using assms(1-3)
    by (auto simp: get_hash_entry_def get_hash_entry_borrow_def capacity_take
        split: bool.splits list.splits if_splits option.splits dest: find_SomeD)
qed

lemma capacity_put [simp]: "htab_capacity (put_bucket b c t) = htab_capacity t"
  by (simp add: htab_capacity_def IS_PARTITIONED_def)

lemma capacity_maybe_expand [simp]: "htab_capacity (maybe_expand s a t) = htab_capacity t"
  by (simp add: htab_capacity_def IS_PARTITIONED_def)

lemma capacity_give_back:
  assumes "idx < nlists t" "length (freeLists t) = NUM_FREELISTS"
  defines "u \<equiv> freelist_count idx (- 1) t"
  shows "htab_capacity ((put_bucket b c u)\<lparr>freeLists := (freeLists u)[idx := (freeLists u ! idx)\<lparr>freeList := v # freeList (freeLists u ! idx)\<rparr>]\<rparr>)
    = htab_capacity t"
proof -
  have u: "idx < nlists u" "length (freeLists u) = NUM_FREELISTS"
    using assms by (simp_all add: u_def nlists_def IS_PARTITIONED_def freelist_count_def Let_def)
  have "nlists (put_bucket b c u) = nlists u" by (simp add: nlists_def IS_PARTITIONED_def)
  with capacity_upd [of idx "put_bucket b c u"] capacity_count [OF assms(1,2), of "- 1"] u show ?thesis
    by (simp add: list_cap_def u_def)
qed

lemma capacity_search:
  assumes "htab_ok t" and "hash_search scanned k action t = (r, t')"
  shows "htab_capacity t \<le> htab_capacity t'" and "isfixed t \<Longrightarrow> htab_capacity t' = htab_capacity t" and "isfixed t' = isfixed t"
proof -
  have len0: "length (freeLists t) = NUM_FREELISTS" using assms(1) by (simp add: htab_ok_def htab_inv_def htab_shape_def)
  have len: "length (freeLists (maybe_expand s a t)) = NUM_FREELISTS" for s a using len0 by simp
  note get = capacity_get_hash_entry [OF _ FREELIST_IDX_nlists len]
    capacity_get_hash_entry_fixed [OF _ FREELIST_IDX_nlists len] get_hash_entry_frame [THEN alloc_frame_sel(9)]
  show "htab_capacity t \<le> htab_capacity t'"
    using assms(2) unfolding hash_search_def hash_search_with_hash_value_def Let_def
    by (auto split: prod.splits sum.splits option.splits if_splits dest!: hash_initial_lookup_same dest: get
        simp: capacity_give_back [OF FREELIST_IDX_nlists len0])
  show "htab_capacity t' = htab_capacity t" if "isfixed t"
    using assms(2) that unfolding hash_search_def hash_search_with_hash_value_def Let_def
    by (auto split: prod.splits sum.splits option.splits if_splits dest!: hash_initial_lookup_same dest: get
        simp: capacity_give_back [OF FREELIST_IDX_nlists len0])
  show "isfixed t' = isfixed t"
    using assms(2) unfolding hash_search_def hash_search_with_hash_value_def Let_def
    by (auto split: prod.splits sum.splits option.splits if_splits dest!: hash_initial_lookup_same dest: get
        simp: freelist_count_def Let_def)
qed

text \<open>A table that has no element left holds as many entries as its capacity.\<close>

lemma exhausted_full:
  assumes "htab_inv t" and "exhausted t k"
  shows "hash_get_num_entries t = htab_capacity t"
proof (cases "IS_PARTITIONED t")
  case True
  have "hash_get_num_entries t = (\<Sum>i < NUM_FREELISTS. nentries (freeLists t ! i))"
    using True by (rule hash_get_num_entries_sum)
  with True assms(2) show ?thesis by (simp add: htab_capacity_def exhausted_def)
next
  case False
  with assms(2) show ?thesis
    by (simp add: htab_capacity_def exhausted_def hash_get_num_entries_def FREELIST_IDX_def)
qed

lemma nentries_le_capacity:
  assumes "htab_inv t"
  shows "nentries (freeLists t ! 0) \<le> htab_capacity t"
proof -
  have nn: "0 \<le> list_cap (freeLists t ! i)" if "i < nlists t" for i
    using assms that by (simp add: list_cap_def htab_inv_def htab_counts_def nlists_def hash_consts split: if_splits)
  have "list_cap (freeLists t ! 0) \<le> htab_capacity t"
    unfolding htab_capacity_alt
    by (rule member_le_sum) (use nn in \<open>auto simp: nlists_def hash_consts\<close>)
  then show ?thesis by (simp add: list_cap_def)
qed

section \<open>The interface again\<close>

text \<open>
  A fixed-size table never outgrows 32-bit bucket numbers; a table that may grow needs the room
  hypothesis.
\<close>

definition htab_roomy :: "nat \<Rightarrow> ('k, 'v) HTAB \<Rightarrow> bool" where
  "htab_roomy n t \<longleftrightarrow> isfixed t \<and> htab_capacity t < 2 ^ 32 - 1 \<or> htab_room n t"

lemma htab_roomy_room: "htab_ok t \<Longrightarrow> htab_roomy (Suc n) t \<Longrightarrow> htab_room 1 t"
  using nentries_le_capacity [of t] by (auto simp: htab_roomy_def htab_room_def htab_ok_def)

lemma hash_store_sel [simp]:
  "freeLists (hash_store k v t) = freeLists t" "isfixed (hash_store k v t) = isfixed t" "isshared (hash_store k v t) = isshared t"
  "htab_capacity (hash_store k v t) = htab_capacity t" "hash (hash_store k v t) = hash t"
  by (simp_all add: hash_store_def Let_def)

interpretation dt: hash_table htab_map htab_ok htab_roomy hash_search hash_store
proof (unfold_locales, goal_cases)
  case (1 t s k)
  then show ?case by (rule dh.find)
next
  case (2 t s k r t')
  then show ?case by (rule dh.remove)
next
  case (3 t n s k r t')
  then have "htab_room (Suc 0) t" using htab_roomy_room by simp
  from dh.enter_null [OF 3(1) this 3(3)] capacity_search(2,3) [OF 3(1,3)] hash_search_room [OF 3(1,3)] 3(2)
  show ?case by (auto simp: htab_roomy_def)
next
  case (4 t k v)
  then show ?case by (rule dh.store)
next
  case (5 n t k v)
  then show ?case by (auto simp: htab_roomy_def htab_room_def)
next
  case (6 t n s k r t')
  then show ?case using dh.remove_room [OF 6(1) _ 6(3)] capacity_search(2,3) [OF 6(1,3)] by (auto simp: htab_roomy_def)
next
  case (7 n t m)
  then show ?case using dh.room_mono by (auto simp: htab_roomy_def)
qed

section \<open>Properties\<close>

text \<open>
  C5: \<open>hash_search\<close> is the partial map. On a well-formed table HASH_FIND returns what the map
  holds and changes nothing; HASH_REMOVE returns the same and deletes exactly the key; HASH_ENTER
  and HASH_ENTER_NULL find an existing key, or add exactly the missing key, or, only when the table
  holds as many entries as it has elements, report that no memory is left and keep the map. The
  call keeps the table well formed in every case, also when it split a bucket.
\<close>

theorem hash_search_map:
  assumes "htab_ok t" and "htab_roomy 1 t" and "hash_search scanned k action t = (r, t')"
  shows "htab_ok t' \<and>
    (case action of
       HASH_FIND \<Rightarrow> r = Inr (htab_map t k, htab_map t k \<noteq> None) \<and> t' = t
     | HASH_REMOVE \<Rightarrow> r = Inr (htab_map t k, htab_map t k \<noteq> None) \<and> htab_map t' = (htab_map t)(k := None)
     | _ \<Rightarrow>
         (case htab_map t k of
            Some v \<Rightarrow> r = Inr (Some v, True) \<and> htab_map t' = htab_map t
          | None \<Rightarrow> (\<exists>v. r = Inr (Some v, False) \<and> htab_map t' = (htab_map t)(k \<mapsto> v)) \<or>
              htab_map t' = htab_map t \<and> hash_get_num_entries t = htab_capacity t \<and>
              r = (if action = HASH_ENTER_NULL then Inr (None, False)
                   else Inl (Ereport ERROR ERRCODE_OUT_OF_MEMORY
                              (if isshared t then ''out of shared memory'' else ''out of memory'')))))"
proof -
  have room: "htab_room 1 t" using htab_roomy_room [of t 0] assms(1,2) by simp
  have full: "exhausted t k \<Longrightarrow> hash_get_num_entries t = htab_capacity t"
    using assms(1) exhausted_full by (auto simp: htab_ok_def)
  have enter: ?thesis if "action \<in> {HASH_ENTER, HASH_ENTER_NULL}"
    using hash_search_enter_cases [OF assms(1) that room assms(3)] full that
    by (auto simp: enter_result_def split: option.splits)
  show ?thesis
    using enter dt.find [OF assms(1)] dt.remove [OF assms(1)] assms(1,3) by (cases action) auto
qed

text \<open>Creation succeeds when no allocation fails.\<close>

lemma seg_alloc_loop_succeeds:
  "alloc_fails t = [] \<Longrightarrow> \<exists>t'. seg_alloc_loop n t = (True, t') \<and> alloc_fails t' = [] \<and> isfixed t' = isfixed t"
proof (induction n arbitrary: t)
  case (Suc n)
  then show ?case
    using Suc.IH [of "t\<lparr>dir := dir t @ [replicate HASH_SEGSIZE []]\<rparr>"] by (simp add: seg_alloc_def htab_alloc_def)
qed simp

lemma prealloc_loop_succeeds:
  "alloc_fails t = [] \<Longrightarrow> \<not> isfixed t \<Longrightarrow> \<exists>t'. prealloc_loop i ns t = (True, t')"
  by (induction ns arbitrary: i t) (simp_all add: element_alloc_def htab_alloc_def Let_def)

lemma hash_create_succeeds: "entrysize < 2 ^ 57 \<Longrightarrow> \<exists>t. hash_create flags h entrysize nelem stale [] = Inr t"
proof -
  assume "entrysize < 2 ^ 57"
  hence "0 < element_size entrysize" "element_size entrysize \<le> 2 ^ 58" by (simp_all add: element_size_exact)
  then obtain m where m: "choose_nelem_alloc entrysize = Some m" using choose_nelem_alloc_ends by blast
  define t0 where "t0 = (case HASH_PARTITION flags of None \<Rightarrow> hdefault h (HASH_SHARED_MEM flags) stale []
    | Some np \<Rightarrow> hdefault h (HASH_SHARED_MEM flags) stale []\<lparr>num_partitions := np\<rparr>)"
  have t0: "alloc_fails t0 = []" "\<not> isfixed t0" by (auto simp: t0_def hdefault_def split: option.splits)
  have "alloc_fails (init_header n t0) = []" for n using t0 by (simp add: init_header_def Let_def)
  then obtain t1 where t1: "seg_alloc_loop (init_nsegs (init_nbuckets nelem t0)) (init_header (init_nbuckets nelem t0) t0) = (True, t1)"
    "alloc_fails t1 = []" "isfixed t1 = isfixed t0"
    using seg_alloc_loop_succeeds by fastforce
  let ?u = "t1\<lparr>nelem_alloc := m\<rparr>"
  have i: "init_htab entrysize nelem t0 = (Some True, ?u)"
    using m t0 t1(1) \<open>\<And>n. alloc_fails (init_header n t0) = []\<close> by (simp add: init_htab_def Let_def htab_alloc_def)
  obtain t2 where "prealloc_loop 0 (prealloc_sizes (if IS_PARTITIONED ?u then NUM_FREELISTS else 1) nelem) ?u = (True, t2)"
    using prealloc_loop_succeeds [of ?u] t0(2) t1(2,3) by fastforce
  moreover have "htab_alloc (hdefault h (HASH_SHARED_MEM flags) stale []) = (True, hdefault h (HASH_SHARED_MEM flags) stale [])"
    by (simp add: htab_alloc_def hdefault_def)
  ultimately show ?thesis
    unfolding hash_create_def Let_def by (auto simp flip: t0_def simp: i)
qed

text \<open>A small shared table for the concrete instances: two entries, one segment, no partitions.\<close>

definition sample_flags :: hash_flags where
  "sample_flags = \<lparr>HASH_SHARED_MEM = True, HASH_PARTITION = None, HASH_FIXED_SIZE = True\<rparr>"

definition sample_table :: "(u32, nat) HTAB" where
  "sample_table = (case hash_create sample_flags (\<lambda>k. k) 8 2 0 [] of Inr t \<Rightarrow> t)"

lemma sample_create: "hash_create sample_flags (\<lambda>k :: u32. k) 8 2 (0 :: nat) [] = Inr sample_table"
  using hash_create_succeeds [of 8 sample_flags "\<lambda>k :: u32. k" 2 "0 :: nat"] by (auto simp: sample_table_def)

lemma sample_partitions: "valid_partitions (HASH_PARTITION sample_flags)"
  by (simp add: sample_flags_def valid_partitions_def)

lemma sample_ok: "htab_ok sample_table" "htab_roomy 1 sample_table" "htab_map sample_table = Map.empty"
  using hash_create_ok [OF sample_create sample_partitions]
  by (auto simp: htab_roomy_def sample_flags_def hash_consts)

theorem hash_search_map_witness:
  "htab_ok sample_table \<and> htab_roomy 1 sample_table \<and>
   htab_map (snd (hash_search False 7 HASH_REMOVE sample_table)) 7 = None"
  using hash_search_map [OF sample_ok(1,2), of False 7 HASH_REMOVE] sample_ok
  by (cases "hash_search False 7 HASH_REMOVE sample_table") auto

text \<open>Tables of a fixed size: the capacity is kept by every operation.\<close>

definition run_searches :: "(HASHACTION \<times> 'k) list \<Rightarrow> ('k, 'v) HTAB \<Rightarrow> ('k, 'v) HTAB" where
  "run_searches = fold (\<lambda>(action, k) t. snd (hash_search False k action t))"

definition fixed_ok :: "nat \<Rightarrow> ('k, 'v) HTAB \<Rightarrow> bool" where
  "fixed_ok nelem t \<longleftrightarrow> htab_ok t \<and> isfixed t \<and> int nelem \<le> htab_capacity t \<and> htab_capacity t < 2 ^ 32 - 1"

lemma fixed_ok_search: "fixed_ok nelem t \<Longrightarrow> fixed_ok nelem (snd (hash_search s k action t))"
proof -
  assume t: "fixed_ok nelem t"
  obtain r t' where run: "hash_search s k action t = (r, t')" by fastforce
  have "htab_ok t" "htab_room 1 t" using t htab_roomy_room [of t 0] by (auto simp: fixed_ok_def htab_roomy_def)
  hence "htab_ok t'"
    using run hash_search_enter_cases(1) [of t action s k r t'] dt.find [of t s k] dt.remove [of t s k] by (cases action) auto
  with t capacity_search(2,3) [OF _ run] show "fixed_ok nelem (snd (hash_search s k action t))"
    by (auto simp: fixed_ok_def run)
qed

lemma fixed_ok_run: "fixed_ok nelem t \<Longrightarrow> fixed_ok nelem (run_searches ops t)"
  by (induction ops arbitrary: t) (auto simp: run_searches_def fixed_ok_search)

lemma fixed_ok_create:
  assumes "hash_create flags h entrysize nelem stale fails = Inr t" and "valid_partitions (HASH_PARTITION flags)"
    and "HASH_SHARED_MEM flags" and "HASH_FIXED_SIZE flags" and "nelem \<le> 2 ^ 30"
  shows "fixed_ok nelem t"
  using hash_create_ok [OF assms(1,2)] assms(3-5) by (auto simp: fixed_ok_def hash_consts)

lemma fixed_enter:
  assumes "fixed_ok nelem t" and "card (dom (htab_map t)) < nelem"
  shows "\<exists>v found t'. hash_search s k HASH_ENTER_NULL t = (Inr (Some v, found), t')"
proof -
  obtain r t' where run: "hash_search s k HASH_ENTER_NULL t = (r, t')" by fastforce
  have ok: "htab_ok t" "htab_room 1 t" using assms(1) htab_roomy_room [of t 0] by (auto simp: fixed_ok_def htab_roomy_def)
  have "\<not> exhausted t k"
    using assms exhausted_full [of t k] hash_get_num_entries_count [of t] card_dom_htab_map [of t]
    by (auto simp: fixed_ok_def htab_ok_def)
  then show ?thesis
    using hash_search_enter_cases(2) [OF ok(1) _ ok(2) run] run by (auto simp: enter_result_def split: option.splits)
qed

text \<open>
  C6: a table made for \<open>nelem\<close> entries with a fixed size takes \<open>nelem\<close> entries. Whatever
  sequence of searches, insertions and removals ran on it, with partitioned freelists or without,
  an insertion finds an element as long as the table holds fewer than \<open>nelem\<close> keys: elements
  neither leak nor stay stuck in another partition's freelist.
\<close>

theorem fixed_table_capacity:
  assumes "hash_create flags h entrysize nelem stale fails = Inr t0" and "valid_partitions (HASH_PARTITION flags)"
    and "HASH_SHARED_MEM flags" and "HASH_FIXED_SIZE flags" and "nelem \<le> 2 ^ 30"
    and "card (dom (htab_map (run_searches ops t0))) < nelem"
  shows "\<exists>v found. fst (hash_search False k HASH_ENTER_NULL (run_searches ops t0)) = Inr (Some v, found)"
  using fixed_enter [OF fixed_ok_run [OF fixed_ok_create [OF assms(1-5)]] assms(6), of False k] by (elim exE) simp

theorem fixed_table_capacity_witness:
  "card (dom (htab_map (run_searches [] sample_table))) < 2 \<and>
   (\<exists>v found. fst (hash_search False 7 HASH_ENTER_NULL (run_searches [] sample_table)) = Inr (Some v, found))"
proof -
  have "card (dom (htab_map (run_searches [] sample_table))) < 2" by (simp add: run_searches_def sample_ok)
  with fixed_table_capacity [OF sample_create sample_partitions, of "[]" 7] show ?thesis
    by (simp add: sample_flags_def)
qed

text \<open>
  C7: what a bucket split does. It keeps the table well formed and its map unchanged, it moves
  nothing but elements of the one bucket that shares the new bucket's low bits, and where no memory
  for a segment or a directory is to be had the table stays as it is.
\<close>

theorem expand_table_map:
  assumes "htab_inv t" and "max_bucket t \<noteq> - 1" and "expand_table t = (grown, t')"
  shows "htab_inv t' \<and> htab_map t' = htab_map t \<and>
    (if grown then max_bucket t' = max_bucket t + 1 \<and>
       (\<forall>h. calc_bucket t' h = calc_bucket t h \<or>
            calc_bucket t' h = max_bucket t + 1 \<and> calc_bucket t h = (max_bucket t + 1) AND low_mask t)
     else max_bucket t' = max_bucket t \<and> (\<forall>h. calc_bucket t' h = calc_bucket t h))"
proof -
  obtain ok u where u: "expand_segment (max_bucket t + 1) t = (ok, u)" by fastforce
  have fr: "segment_frame t u" by (rule expand_segment_frame [OF u])
  have t: "htab_shape t" using assms(1) by (simp add: htab_inv_def)
  note sel = segment_frame_sel [OF fr]
  have u': "htab_shape u" "max_bucket u \<noteq> - 1" using segment_frame_shape [OF fr t] assms(2) sel by auto
  have calc: "calc_bucket u = calc_bucket t" using sel by (auto intro: calc_bucket_cong)
  have run: "grown = ok" "t' = (if ok then split_bucket u else u)"
    using assms(3) u by (auto simp: expand_table_split split: bool.splits)
  show ?thesis
    using expand_table_ok [OF assms(1,2)] assms(3) run calc_bucket_expanded(1) [OF u'] sel calc by simp
qed

theorem expand_table_map_witness:
  "htab_inv sample_table \<and> max_bucket sample_table \<noteq> - 1 \<and> htab_map (snd (expand_table sample_table)) = Map.empty"
proof -
  have "unat (max_bucket sample_table) < 2 ^ 30" by (rule hash_create_ok [OF sample_create sample_partitions])
  hence "max_bucket sample_table \<noteq> - 1" by (auto simp: unsigned_minus_1_eq_mask mask_eq_exp_minus_1)
  with expand_table_map [of sample_table] sample_ok show ?thesis
    by (cases "expand_table sample_table") (simp add: htab_ok_def)
qed

text \<open>
  C8: the counters tell the truth. On a well-formed table \<open>hash_get_num_entries\<close>, which adds up
  the entry counters of the freelists, is the number of keys in the table, although elements move
  between the freelists of a partitioned table.
\<close>

theorem hash_get_num_entries_card:
  assumes "htab_inv t"
  shows "hash_get_num_entries t = int (card (dom (htab_map t)))"
  using hash_get_num_entries_count [OF assms] card_dom_htab_map [OF assms] by simp

theorem hash_get_num_entries_card_witness:
  "htab_inv sample_table \<and> hash_get_num_entries sample_table = 0"
  using hash_get_num_entries_card [of sample_table] sample_ok by (simp add: htab_ok_def)

text \<open>
  C16: the size of an allocation. The loop of \<open>choose_nelem_alloc\<close> ends exactly for element sizes above
  zero and up to 2 ^ 58, sizes being 64-bit numbers that wrap around. It then gives at least 32
  and fewer than 64 elements, and the request they lead to is a power of two that a \<open>Size\<close> can hold, or
  falls short of one by less than an element. Beyond 2 ^ 58 the doubled size becomes zero before 32
  elements fit, and the loop never ends; an element size that wraps to zero is a division by zero.
\<close>

theorem choose_nelem_alloc_size:
  "if 0 < element_size entrysize \<and> element_size entrysize \<le> 2 ^ 58
   then \<exists>n p. choose_nelem_alloc entrysize = Some n \<and> 32 \<le> n \<and> n < 64 \<and> p \<le> 63 \<and>
     n * element_size entrysize \<le> 2 ^ p \<and> 2 ^ p < Suc n * element_size entrysize
   else choose_nelem_alloc entrysize = None"
proof (cases "0 < element_size entrysize \<and> element_size entrysize \<le> 2 ^ 58")
  case True
  hence pos: "0 < element_size entrysize" by simp
  obtain p where "p \<le> 63" "choose_nelem_alloc entrysize = Some (2 ^ p div element_size entrysize)"
    "32 * element_size entrysize \<le> 2 ^ p" "2 ^ p < 64 * element_size entrysize"
    using choose_nelem_alloc_ends True by blast
  moreover have "2 ^ p div element_size entrysize * element_size entrysize \<le> 2 ^ p" by (rule div_times_less_eq_dividend)
  moreover have "2 ^ p < Suc (2 ^ p div element_size entrysize) * element_size entrysize"
    using dividend_less_div_times [OF pos, of "2 ^ p"] by (simp add: add.commute)
  ultimately show ?thesis using True pos
    by (auto simp: less_eq_div_iff_mult_less_eq div_less_iff_less_mult intro!: exI [of _ p])
next
  case False
  have "\<exists>k \<le> 63. (32 * 4 :: nat) = 2 ^ k" by (intro exI [of _ 7]) simp
  hence "element_size entrysize \<noteq> 0 \<Longrightarrow> choose_nelem_alloc_loop (element_size entrysize) (32 * 4) = None"
    using False by (intro choose_nelem_alloc_loop_none) auto
  thus ?thesis unfolding if_not_P [OF False] by (simp add: choose_nelem_alloc_def Let_def)
qed

end
