(* ===== verification/Hash_Update.thy ===== *)
theory Hash_Update
  imports Hash_Create
begin

text \<open>
  \<^verbatim>\<open>hash_update_hash_key\<close> (src/src/backend/utils/hash/dynahash.c): an element changes its key
  without leaving the table. The element is named by its saved hash value and its key. The move is
  the one on the map, and it leaves the entry counters alone: in a partitioned table an element
  that moves to another freelist's share of the keys is still counted where it was.
\<close>

definition hash_update_hash_key :: "u32 \<Rightarrow> 'k \<Rightarrow> 'k \<Rightarrow> (('k, 'v) HTAB, bool) pg" where
  "hash_update_hash_key hv k k' t =
     (if frozen t then ereport ERRCODE_INTERNAL_ERROR ''cannot update in frozen hashtable'' t
      else case fst (hash_initial_lookup hv t) of
        Inl err \<Rightarrow> (Inl err, t)
      | Inr bucket \<Rightarrow>
          (case find (\<lambda>e. ekey e = k) (get_bucket t bucket) of
             None \<Rightarrow> ereport ERRCODE_INTERNAL_ERROR ''hash_update_hash_key argument is not in hashtable'' t
           | Some e \<Rightarrow>
               (case fst (hash_initial_lookup (hash t k') t) of
                  Inl err \<Rightarrow> (Inl err, t)
                | Inr newbucket \<Rightarrow>
                    (if find (matches (hash t k') k') (get_bucket t newbucket) \<noteq> None then (Inr False, t)
                     else
                       (let e' = e\<lparr>hashvalue := hash t k', ekey := k'\<rparr> in
                        if bucket \<noteq> newbucket
                        then (let t = put_bucket bucket (remove1 e (get_bucket t bucket)) t
                              in (Inr True, put_bucket newbucket (get_bucket t newbucket @ [e']) t))
                        else (Inr True,
                              put_bucket bucket (map (\<lambda>x. if ekey x = k then e' else x) (get_bucket t bucket)) t))))))"

section \<open>Lemmas\<close>

lemma htab_chains_put:
  assumes "htab_shape t" and "htab_chains t" and "b \<le> max_bucket t" and "chain_ok t b c"
  shows "htab_chains (put_bucket b c t)"
  using assms by (auto simp: htab_chains_iff htab_shape_get_put chain_ok_def)

lemma chain_ok_put [simp]: "chain_ok (put_bucket b c t) = chain_ok t"
  by (simp add: chain_ok_def fun_eq_iff)

lemma chain_ok_remove1: "chain_ok t b c \<Longrightarrow> chain_ok t b (remove1 e c)"
  by (auto simp: chain_ok_def distinct_map intro: inj_on_subset dest: notin_set_remove1)

lemma find_key:
  assumes "find (\<lambda>e. ekey e = k) c = Some e" and "chain_ok t b c"
  shows "find (matches (hash t k) k) c = Some e" "e \<in> set c" "ekey e = k" "hashvalue e = hash t k"
proof -
  show e: "e \<in> set c" "ekey e = k" using find_SomeD [OF assms(1)] by auto
  then show "hashvalue e = hash t k" using assms(2) by (auto simp: chain_ok_def)
  have "\<And>x. x \<in> set c \<Longrightarrow> matches (hash t k) k x = (ekey x = k)" using assms(2) by (auto simp: chain_ok_def matches_def)
  then show "find (matches (hash t k) k) c = Some e"
    using assms(1) find_cong [of c c "matches (hash t k) k" "\<lambda>x. ekey x = k"] by simp
qed

text \<open>Replacing the key of one element of a chain.\<close>

lemma chain_ok_rename:
  assumes "chain_ok t b c" and "k' \<notin> ekey ` set c" and "calc_bucket t (hash t k') = b"
  shows "chain_ok t b (map (\<lambda>x. if ekey x = k then x\<lparr>hashvalue := hash t k', ekey := k'\<rparr> else x) c)"
proof -
  let ?g = "\<lambda>x. if ekey x = k then x\<lparr>hashvalue := hash t k', ekey := k'\<rparr> else x"
  have keys: "map ekey (map ?g c) = map (\<lambda>k0. if k0 = k then k' else k0) (map ekey c)" by simp
  have "inj_on (\<lambda>k0. if k0 = k then k' else k0) (ekey ` set c)" using assms(2) by (auto simp: inj_on_def)
  hence "distinct (map ekey (map ?g c))"
    using assms(1) unfolding keys by (subst distinct_map) (simp add: chain_ok_def)
  then show ?thesis using assms(1,3) by (auto simp: chain_ok_def)
qed

lemma find_rename:
  assumes "chain_ok t b c" and "k' \<notin> ekey ` set c"
  shows "find (matches (hash t x) x) (map (\<lambda>x. if ekey x = k then x\<lparr>hashvalue := hash t k', ekey := k'\<rparr> else x) c)
    = (if x = k' then map_option (\<lambda>e. e\<lparr>hashvalue := hash t k', ekey := k'\<rparr>) (find (matches (hash t k) k) c)
       else if x = k then None else find (matches (hash t x) x) c)"
  using assms by (induction c) (auto simp: chain_ok_def matches_def)

lemma length_filter_rename:
  assumes "distinct (map ekey c)" and "e \<in> set c" and "ekey e = k"
  shows "length (filter P (map (\<lambda>x. if ekey x = k then f x else x) c)) + (if P e then 1 else 0)
       = length (filter P c) + (if P (f e) then 1 else 0)"
  using assms
proof (induction c)
  case (Cons x c)
  show ?case
  proof (cases "x = e")
    case True
    have "map (\<lambda>x. if ekey x = k then f x else x) c = c"
      using Cons.prems True by (intro map_idI) (auto simp: image_iff)
    then show ?thesis using True Cons.prems(3) by simp
  next
    case False
    hence "e \<in> set c" "ekey x \<noteq> k" using Cons.prems by (auto simp: image_iff)
    with Cons show ?thesis by simp
  qed
qed simp

text \<open>What the move does: the map, the counts of every class of elements, the shape.\<close>

definition moved :: "('k, 'v) HTAB \<Rightarrow> 'k \<Rightarrow> 'k \<Rightarrow> 'v \<Rightarrow> ('k, 'v) HTAB \<Rightarrow> bool" where
  "moved t k k' v t' \<longleftrightarrow> htab_shape t' \<and> htab_chains t' \<and> htab_map t' = (htab_map t)(k := None, k' \<mapsto> v) \<and>
     freeLists t' = freeLists t \<and> num_partitions t' = num_partitions t \<and> frozen t' = frozen t \<and> max_bucket t' = max_bucket t \<and>
     (\<exists>e. hashvalue e = hash t k \<and>
        (\<forall>P. bucket_count P t' + (if P e then 1 else 0)
           = bucket_count P t + (if P (e\<lparr>hashvalue := hash t k', ekey := k'\<rparr>) then 1 else 0)))"

lemma moved_same_bucket:
  assumes "htab_inv t" and "find (\<lambda>e. ekey e = k) (get_bucket t b) = Some e" and "b = calc_bucket t (hash t k)"
    and "htab_map t k' = None" and "calc_bucket t (hash t k') = b"
  shows "moved t k k' (edata e)
    (put_bucket b (map (\<lambda>x. if ekey x = k then e\<lparr>hashvalue := hash t k', ekey := k'\<rparr> else x) (get_bucket t b)) t)"
proof -
  have sh: "htab_shape t" "htab_chains t" using assms(1) by (simp_all add: htab_inv_def)
  have b: "b \<le> max_bucket t" using calc_bucket_le [OF sh(1)] assms(3) by simp
  have c: "chain_ok t b (get_bucket t b)" using chain_ok_bucket [OF assms(1)] assms(3) by simp
  note e = find_key [OF assms(2) c]
  let ?e = "e\<lparr>hashvalue := hash t k', ekey := k'\<rparr>"
  have eq: "map (\<lambda>x. if ekey x = k then ?e else x) (get_bucket t b)
      = map (\<lambda>x. if ekey x = k then x\<lparr>hashvalue := hash t k', ekey := k'\<rparr> else x) (get_bucket t b)"
    using c e by (intro map_cong) (auto simp: chain_ok_def distinct_map inj_on_def)
  have new: "k' \<notin> ekey ` set (get_bucket t b)"
    using assms(4,5) c by (auto simp: htab_map_def find_None_iff matches_def chain_ok_def)
  have map: "htab_map (put_bucket b (map (\<lambda>x. if ekey x = k then ?e else x) (get_bucket t b)) t) x
      = ((htab_map t)(k := None, k' \<mapsto> edata e)) x" for x
    using new e assms(3,5) unfolding htab_map_put [OF sh(1) b] eq find_rename [OF c new]
    by (auto simp: htab_map_def)
  have chains: "htab_chains (put_bucket b (map (\<lambda>x. if ekey x = k then ?e else x) (get_bucket t b)) t)"
    unfolding eq by (rule htab_chains_put [OF sh b chain_ok_rename [OF c new assms(5)]])
  have cnt: "bucket_count P (put_bucket b (map (\<lambda>x. if ekey x = k then ?e else x) (get_bucket t b)) t) + (if P e then 1 else 0)
      = bucket_count P t + (if P ?e then 1 else 0)" for P
    using bucket_count_put [OF sh(1) b, of P "map (\<lambda>x. if ekey x = k then ?e else x) (get_bucket t b)"]
      length_filter_rename [of "get_bucket t b" e k P "\<lambda>_. ?e"] c e by (simp add: chain_ok_def)
  show ?thesis unfolding moved_def
    by (intro conjI exI [of _ e] allI ext) (simp_all only: cnt map chains e(4) put_bucket_sel htab_shape_put [OF sh(1) b])
qed

lemma moved_other_bucket:
  assumes "htab_inv t" and "find (\<lambda>e. ekey e = k) (get_bucket t b) = Some e" and "b = calc_bucket t (hash t k)"
    and "htab_map t k' = None" and "b' = calc_bucket t (hash t k')" and "b \<noteq> b'"
  defines "t1 \<equiv> put_bucket b (remove1 e (get_bucket t b)) t"
  shows "moved t k k' (edata e) (put_bucket b' (get_bucket t1 b' @ [e\<lparr>hashvalue := hash t k', ekey := k'\<rparr>]) t1)"
proof -
  have sh: "htab_shape t" "htab_chains t" using assms(1) by (simp_all add: htab_inv_def)
  have b: "b \<le> max_bucket t" "b' \<le> max_bucket t" using calc_bucket_le [OF sh(1)] assms(3,5) by simp_all
  have c: "chain_ok t b (get_bucket t b)" "chain_ok t b' (get_bucket t b')"
    using chain_ok_bucket [OF assms(1)] assms(3,5) by simp_all
  note e = find_key [OF assms(2) c(1)]
  have dist: "distinct (map ekey (get_bucket t b))" using c(1) by (simp add: chain_ok_def)
  let ?e = "e\<lparr>hashvalue := hash t k', ekey := k'\<rparr>"
  have t1: "htab_shape t1" "htab_chains t1" "b' \<le> max_bucket t1" "get_bucket t1 b' = get_bucket t b'"
    using sh b htab_chains_put [OF sh b(1) chain_ok_remove1 [OF c(1)]] assms(6)
    by (simp_all add: t1_def htab_shape_get_put)
  have new: "k' \<notin> ekey ` set (get_bucket t b')"
    using assms(4,5) c(2) by (auto simp: htab_map_def find_None_iff matches_def chain_ok_def)
  have chains: "htab_chains (put_bucket b' (get_bucket t1 b' @ [?e]) t1)"
  proof (rule htab_chains_put [OF t1(1-3)])
    have "chain_ok t b' (get_bucket t b' @ [?e])" using c(2) new assms(5) by (auto simp: chain_ok_def)
    then show "chain_ok t1 b' (get_bucket t1 b' @ [?e])" unfolding t1(4) by (simp add: t1_def)
  qed
  have map: "htab_map (put_bucket b' (get_bucket t1 b' @ [?e]) t1) x = ((htab_map t)(k := None, k' \<mapsto> edata e)) x" for x
  proof -
    have same: "hash t1 = hash t" "calc_bucket t1 = calc_bucket t" by (simp_all add: t1_def)
    have gone: "htab_map t1 x = (if x = k then None else htab_map t x)"
    proof (cases "x = k")
      case True
      then show ?thesis unfolding t1_def htab_map_put [OF sh(1) b(1)]
        using find_removed_key [OF dist e(2), of "hash t k"] e(3) by (simp add: assms(3) [symmetric])
    next
      case False
      have "find (matches (hash t x) x) (remove1 e (get_bucket t b)) = find (matches (hash t x) x) (get_bucket t b)"
        by (rule find_remove1_key [OF dist e(2)]) (use e False in \<open>simp add: matches_def\<close>)
      with False show ?thesis unfolding t1_def htab_map_put [OF sh(1) b(1)] by (simp add: htab_map_def)
    qed
    show ?thesis
    proof (cases "x = k'")
      case True
      have "find (matches (hash t k') k') (get_bucket t b') = None" using assms(4,5) by (simp add: htab_map_def)
      then show ?thesis unfolding htab_map_put [OF t1(1,3)] same t1(4) using True assms(5)
        by (simp add: find_append matches_def)
    next
      case False
      have "find (matches (hash t x) x) (get_bucket t1 b' @ [?e]) = find (matches (hash t x) x) (get_bucket t1 b')"
        using False by (simp add: find_append matches_def split: option.splits)
      hence "htab_map (put_bucket b' (get_bucket t1 b' @ [?e]) t1) x = htab_map t1 x"
        unfolding htab_map_put [OF t1(1,3)] same by (simp add: htab_map_def same)
      with False show ?thesis unfolding gone by simp
    qed
  qed
  have cnt: "bucket_count P (put_bucket b' (get_bucket t1 b' @ [?e]) t1) + (if P e then 1 else 0)
      = bucket_count P t + (if P ?e then 1 else 0)" for P
    using bucket_count_put [OF t1(1,3), of P "get_bucket t1 b' @ [?e]"] t1(4)
      bucket_count_put [OF sh(1) b(1), of P "remove1 e (get_bucket t b)"] length_filter_remove1 [OF e(2), of P]
    unfolding t1_def by simp
  show ?thesis unfolding moved_def
    by (intro conjI exI [of _ e] allI ext)
      (simp_all only: cnt map chains e(4) put_bucket_sel htab_shape_put [OF t1(1,3)], simp_all add: t1_def)
qed

lemma moved_counts:
  assumes "htab_ok t" and "moved t k k' v t'"
  shows "htab_ok t' \<longleftrightarrow> FREELIST_IDX t (hash t k) = FREELIST_IDX t (hash t k')"
proof -
  have t: "htab_counts t" "\<not> frozen t" "max_bucket t \<noteq> - 1" using assms(1) by (simp_all add: htab_ok_def htab_inv_def)
  obtain e where e: "hashvalue e = hash t k" "\<And>P. bucket_count P t' + (if P e then 1 else 0)
      = bucket_count P t + (if P (e\<lparr>hashvalue := hash t k', ekey := k'\<rparr>) then 1 else 0)"
    using assms(2) unfolding moved_def by blast
  have idx: "FREELIST_IDX t' = FREELIST_IDX t"
    using assms(2) by (auto simp: moved_def FREELIST_IDX_def IS_PARTITIONED_def)
  let ?c = "\<lambda>i u. bucket_count (\<lambda>e. FREELIST_IDX t (hashvalue e) = i) u"
  have cnt: "?c i t' + (if FREELIST_IDX t (hash t k) = i then 1 else 0) = ?c i t + (if FREELIST_IDX t (hash t k') = i then 1 else 0)" for i
    using e(2) [of "\<lambda>e. FREELIST_IDX t (hashvalue e) = i"] e(1) by simp
  have "htab_ok t' \<longleftrightarrow> htab_counts t'"
    using assms(2) t by (simp add: moved_def htab_ok_def htab_inv_def)
  also have "\<dots> \<longleftrightarrow> (\<forall>i < NUM_FREELISTS. ?c i t = ?c i t')"
    using t(1) assms(2) by (simp add: htab_counts_def idx moved_def)
  also have "\<dots> \<longleftrightarrow> FREELIST_IDX t (hash t k) = FREELIST_IDX t (hash t k')"
  proof
    assume "\<forall>i < NUM_FREELISTS. ?c i t = ?c i t'"
    with cnt [of "FREELIST_IDX t (hash t k)"] FREELIST_IDX_less [of t "hash t k"]
    show "FREELIST_IDX t (hash t k) = FREELIST_IDX t (hash t k')" by (auto split: if_splits)
  qed (use cnt in \<open>auto split: if_splits\<close>)
  finally show ?thesis .
qed

section \<open>Property\<close>

text \<open>
  C20: changing a key. For an entry of a well-formed table the call answers false and changes nothing
  when the new key is taken; otherwise it answers true and the map moves the entry's payload from
  the old key to the new one, chains and number of entries stay right, and no memory is needed. The
  entry counters stay right exactly when both keys belong to the same freelist.
\<close>

theorem hash_update_hash_key_moves:
  assumes "htab_ok t" and "htab_map t k = Some v"
  shows "if htab_map t k' \<noteq> None then hash_update_hash_key (hash t k) k k' t = (Inr False, t)
    else \<exists>t'. hash_update_hash_key (hash t k) k k' t = (Inr True, t') \<and>
      htab_map t' = (htab_map t)(k := None, k' \<mapsto> v) \<and> htab_shape t' \<and> htab_chains t' \<and>
      hash_get_num_entries t' = hash_get_num_entries t \<and>
      (htab_ok t' \<longleftrightarrow> FREELIST_IDX t (hash t k) = FREELIST_IDX t (hash t k'))"
proof -
  let ?b = "calc_bucket t (hash t k)" and ?b' = "calc_bucket t (hash t k')"
  have inv: "htab_inv t" "\<not> frozen t" "htab_shape t" using assms(1) by (simp_all add: htab_ok_def htab_inv_def)
  have c: "chain_ok t ?b (get_bucket t ?b)" by (rule chain_ok_bucket [OF inv(1)])
  obtain e where e: "find (\<lambda>e. ekey e = k) (get_bucket t ?b) = Some e" "edata e = v"
  proof -
    obtain e where "find (matches (hash t k) k) (get_bucket t ?b) = Some e" "edata e = v"
      using assms(2) by (auto simp: htab_map_def)
    moreover have "\<And>x. x \<in> set (get_bucket t ?b) \<Longrightarrow> matches (hash t k) k x = (ekey x = k)"
      using c by (auto simp: chain_ok_def matches_def)
    ultimately show ?thesis
      using that find_cong [of "get_bucket t ?b" "get_bucket t ?b" "matches (hash t k) k" "\<lambda>x. ekey x = k"] by simp
  qed
  show ?thesis
  proof (cases "htab_map t k' = None")
    case False
    then show ?thesis using inv e hash_initial_lookup_ok [OF inv(3)]
      by (auto simp: hash_update_hash_key_def htab_map_def)
  next
    case True
    obtain t' where t': "hash_update_hash_key (hash t k) k k' t = (Inr True, t')" "moved t k k' v t'"
    proof (cases "?b = ?b'")
      case True
      with moved_same_bucket [OF inv(1) e(1) refl \<open>htab_map t k' = None\<close> sym] \<open>htab_map t k' = None\<close> show ?thesis
        using inv e hash_initial_lookup_ok [OF inv(3)] that
        by (auto simp: hash_update_hash_key_def htab_map_def Let_def)
    next
      case False
      with moved_other_bucket [OF inv(1) e(1) refl \<open>htab_map t k' = None\<close> refl False] \<open>htab_map t k' = None\<close> show ?thesis
        using inv e hash_initial_lookup_ok [OF inv(3)] that
        by (auto simp: hash_update_hash_key_def htab_map_def Let_def)
    qed
    have "hash_get_num_entries t' = hash_get_num_entries t"
      using t'(2) by (simp add: moved_def hash_get_num_entries_def IS_PARTITIONED_def)
    moreover have "htab_ok t' \<longleftrightarrow> FREELIST_IDX t (hash t k) = FREELIST_IDX t (hash t k')"
      using moved_counts [OF assms(1) t'(2)] .
    ultimately show ?thesis using True t' by (auto simp: moved_def)
  qed
qed

theorem hash_update_hash_key_moves_witness:
  "\<exists>t v t'. htab_ok t \<and> htab_map t 7 = Some v \<and> hash_update_hash_key (hash t 7) 7 9 t = (Inr True, t') \<and>
     htab_map (t' :: (u32, nat) HTAB) = [9 \<mapsto> v]"
proof -
  obtain t v where t: "htab_ok t" "htab_map (t :: (u32, nat) HTAB) = [7 \<mapsto> v]"
  proof -
    have "fixed_ok 2 sample_table"
      using fixed_ok_create [OF sample_create sample_partitions] by (simp add: sample_flags_def)
    then obtain v found t where "hash_search False 7 HASH_ENTER_NULL sample_table = (Inr (Some v, found), t)"
      using fixed_enter [of 2 sample_table False 7] sample_ok by auto
    then show ?thesis using that dt.enter_null [OF sample_ok(1), of 0 False 7] sample_ok by fastforce
  qed
  then show ?thesis using hash_update_hash_key_moves [OF t(1), of 7 v 9] by (fastforce simp: fun_eq_iff)
qed

end
