(* ===== verification/Hash_Scan.thy ===== *)
theory Hash_Scan
  imports Hash_Create "HOL-Library.Multiset"
begin

text \<open>
  Sequential scans of hash tables (src/src/backend/utils/hash/dynahash.c): the scan status, its
  registry with the clean-up at the end of transactions and subtransactions, and
  \<^verbatim>\<open>hash_seq_search\<close>. The position of a scan is a bucket number and a pointer to the next
  element; since keys are unique the pointer is the element's key. A scan that follows the pointer
  of an element that is no longer in its bucket has no defined behaviour, and neither has the search
  for a non-empty bucket in a table with \<open>2 ^ 32\<close> empty buckets, which never ends; both are
  the value \<open>Undefined\<close>. The theorems show that a scan returns every element once, also when
  the caller deletes the elements it is given.
\<close>

section \<open>The registry of active scans\<close>

text \<open>
  \<^verbatim>\<open>seq_scan_tables\<close> and \<^verbatim>\<open>seq_scan_level\<close>, up to \<^verbatim>\<open>num_seq_scans\<close>: the
  table and the transaction nesting level of every active scan.
\<close>

type_synonym 'id seq_scans = "('id \<times> int) list"

definition MAX_SEQ_SCANS :: nat where "MAX_SEQ_SCANS = 100"

definition register_seq_scan :: "'id \<Rightarrow> int \<Rightarrow> ('id seq_scans, unit) pg" where
  "register_seq_scan hashp level scans =
     (if MAX_SEQ_SCANS \<le> length scans
      then ereport ERRCODE_INTERNAL_ERROR ''too many active hash_seq_search scans'' scans
      else (Inr (), scans @ [(hashp, level)]))"

text \<open>Drop position \<open>i\<close>: the last scan takes its place.\<close>

definition drop_scan :: "nat \<Rightarrow> 'id seq_scans \<Rightarrow> 'id seq_scans" where
  "drop_scan i scans = butlast (scans[i := last scans])"

fun deregister_loop :: "'id \<Rightarrow> nat \<Rightarrow> ('id seq_scans, unit) pg" where
  "deregister_loop hashp 0 scans = ereport ERRCODE_INTERNAL_ERROR ''no hash_seq_search scan for hash table'' scans"
| "deregister_loop hashp (Suc i) scans =
     (if fst (scans ! i) = hashp then (Inr (), drop_scan i scans) else deregister_loop hashp i scans)"

definition deregister_seq_scan :: "'id \<Rightarrow> ('id seq_scans, unit) pg" where
  "deregister_seq_scan hashp scans = deregister_loop hashp (length scans) scans"

definition has_seq_scans :: "'id \<Rightarrow> 'id seq_scans \<Rightarrow> bool" where
  "has_seq_scans hashp scans \<longleftrightarrow> list_ex (\<lambda>s. fst s = hashp) scans"

text \<open>The result lists the tables the commit warns about.\<close>

definition AtEOXact_HashTables :: "bool \<Rightarrow> 'id seq_scans \<Rightarrow> 'id list \<times> 'id seq_scans" where
  "AtEOXact_HashTables isCommit scans = (if isCommit then map fst scans else [], [])"

fun AtEOSubXact_loop :: "bool \<Rightarrow> int \<Rightarrow> nat \<Rightarrow> 'id list \<Rightarrow> 'id seq_scans \<Rightarrow> 'id list \<times> 'id seq_scans" where
  "AtEOSubXact_loop isCommit nestDepth 0 warned scans = (warned, scans)"
| "AtEOSubXact_loop isCommit nestDepth (Suc i) warned scans =
     (if nestDepth \<le> snd (scans ! i)
      then AtEOSubXact_loop isCommit nestDepth i (if isCommit then warned @ [fst (scans ! i)] else warned) (drop_scan i scans)
      else AtEOSubXact_loop isCommit nestDepth i warned scans)"

definition AtEOSubXact_HashTables :: "bool \<Rightarrow> int \<Rightarrow> 'id seq_scans \<Rightarrow> 'id list \<times> 'id seq_scans" where
  "AtEOSubXact_HashTables isCommit nestDepth scans = AtEOSubXact_loop isCommit nestDepth (length scans) [] scans"

section \<open>Scans\<close>

record 'k HASH_SEQ_STATUS =
  curBucket :: u32
  curEntry :: "'k option"
  hasHashvalue :: bool
  seq_hashvalue :: u32

definition hash_seq_init :: "'id \<Rightarrow> int \<Rightarrow> ('k, 'v) HTAB \<Rightarrow> ('id seq_scans, 'k HASH_SEQ_STATUS) pg" where
  "hash_seq_init hashp level t =
     (let status = \<lparr>curBucket = 0, curEntry = None, hasHashvalue = False, seq_hashvalue = 0\<rparr> in
      if frozen t then pg_return status
      else pg_bind (register_seq_scan hashp level) (\<lambda>_. pg_return status))"

definition first_key :: "('k, 'v) HASHBUCKET \<Rightarrow> 'k option" where
  "first_key chain = (case chain of [] \<Rightarrow> None | e # _ \<Rightarrow> Some (ekey e))"

definition hash_seq_init_with_hash_value ::
  "'id \<Rightarrow> int \<Rightarrow> ('k, 'v) HTAB \<Rightarrow> u32 \<Rightarrow> ('id seq_scans, 'k HASH_SEQ_STATUS) pg" where
  "hash_seq_init_with_hash_value hashp level t hv =
     pg_bind (hash_seq_init hashp level t) (\<lambda>status scans.
       case fst (hash_initial_lookup hv t) of
         Inl err \<Rightarrow> (Inl err, scans)
       | Inr b \<Rightarrow> (Inr (status\<lparr>hasHashvalue := True, seq_hashvalue := hv, curBucket := b,
                               curEntry := first_key (get_bucket t b)\<rparr>), scans))"

definition hash_seq_term :: "'id \<Rightarrow> ('k, 'v) HTAB \<Rightarrow> ('id seq_scans, unit) pg" where
  "hash_seq_term hashp t = (if frozen t then pg_return () else deregister_seq_scan hashp)"

text \<open>The chain from the element that a pointer names; empty when the pointer dangles.\<close>

definition chain_from :: "'k \<Rightarrow> ('k, 'v) HASHBUCKET \<Rightarrow> ('k, 'v) HASHBUCKET" where
  "chain_from k chain = dropWhile (\<lambda>e. ekey e \<noteq> k) chain"

text \<open>The chain walk of a scan by hash value: the first element with that hash value, and what follows it.\<close>

fun hashvalue_walk :: "u32 \<Rightarrow> ('k, 'v) HASHBUCKET \<Rightarrow> (('k, 'v) HASHELEMENT \<times> ('k, 'v) HASHBUCKET) option" where
  "hashvalue_walk hv [] = None"
| "hashvalue_walk hv (e # chain) = (if hv \<noteq> hashvalue e then hashvalue_walk hv chain else Some (e, chain))"

text \<open>The next non-empty bucket from \<open>b\<close> on, or \<open>Some None\<close> at the end of the table.\<close>

partial_function (option) next_bucket :: "('k, 'v) HTAB \<Rightarrow> u32 \<Rightarrow> u32 option option" where
  "next_bucket t b =
     (if get_bucket t b \<noteq> [] then Some (Some b)
      else if max_bucket t < b + 1 then Some None
      else next_bucket t (b + 1))"

text \<open>The result is the element found, or \<open>None\<close> for NULL, with the new status.\<close>

definition hash_seq_search ::
  "'id \<Rightarrow> ('k, 'v) HTAB \<Rightarrow> 'k HASH_SEQ_STATUS \<Rightarrow>
   ('id seq_scans, ('k, 'v) HASHELEMENT option \<times> 'k HASH_SEQ_STATUS) pg" where
  "hash_seq_search hashp t status scans =
     (let finish = (\<lambda>status. pg_bind (hash_seq_term hashp t) (\<lambda>_. pg_return (None, status)) scans);
          dangling = (Inl (Undefined ''dangling element pointer''), scans)
      in
      if hasHashvalue status
      then (case curEntry status of
              None \<Rightarrow> finish status
            | Some k \<Rightarrow>
                (case chain_from k (get_bucket t (curBucket status)) of
                   [] \<Rightarrow> dangling
                 | chain \<Rightarrow>
                     (case hashvalue_walk (seq_hashvalue status) chain of
                        None \<Rightarrow> finish (status\<lparr>curEntry := None\<rparr>)
                      | Some (e, rest) \<Rightarrow> (Inr (Some e, status\<lparr>curEntry := first_key rest\<rparr>), scans))))
      else
        case curEntry status of
          Some k \<Rightarrow>
            (case chain_from k (get_bucket t (curBucket status)) of
               [] \<Rightarrow> dangling
             | e # rest \<Rightarrow>
                 (Inr (Some e, status\<lparr>curEntry := first_key rest,
                                    curBucket := (if rest = [] then curBucket status + 1 else curBucket status)\<rparr>), scans))
        | None \<Rightarrow>
            if max_bucket t < curBucket status then finish status
            else
              (case next_bucket t (curBucket status) of
                 None \<Rightarrow> (Inl (Undefined ''bucket search never ends''), scans)
               | Some None \<Rightarrow> finish (status\<lparr>curBucket := max_bucket t + 1\<rparr>)
               | Some (Some b) \<Rightarrow>
                   (case get_bucket t b of
                      [] \<Rightarrow> dangling
                    | e # rest \<Rightarrow>
                        (Inr (Some e, status\<lparr>curEntry := first_key rest, curBucket := (if rest = [] then b + 1 else b)\<rparr>), scans))))"

text \<open>
  The loop that scans a table and deletes the entries whose key satisfies \<open>P\<close>, as
  \<^verbatim>\<open>mem_remove_pages\<close> of the memory storage manager runs it. Each round takes one unit of
  fuel; the number of entries plus one is enough.
\<close>

fun hash_scan_remove ::
  "nat \<Rightarrow> 'id \<Rightarrow> ('k \<Rightarrow> bool) \<Rightarrow> 'k HASH_SEQ_STATUS \<Rightarrow> (('k, 'v) HTAB \<times> 'id seq_scans, unit) pg" where
  "hash_scan_remove 0 hashp P status s = (Inl (Undefined ''out of fuel''), s)"
| "hash_scan_remove (Suc fuel) hashp P status (t, scans) =
     (case hash_seq_search hashp t status scans of
        (Inl err, scans) \<Rightarrow> (Inl err, (t, scans))
      | (Inr (None, _), scans) \<Rightarrow> (Inr (), (t, scans))
      | (Inr (Some e, status), scans) \<Rightarrow>
          if P (ekey e)
          then (case hash_search (has_seq_scans hashp scans) (ekey e) HASH_REMOVE t of
                  (Inl err, t) \<Rightarrow> (Inl err, (t, scans))
                | (Inr _, t) \<Rightarrow> hash_scan_remove fuel hashp P status (t, scans))
          else hash_scan_remove fuel hashp P status (t, scans))"

definition hash_seq_remove_where ::
  "'id \<Rightarrow> int \<Rightarrow> ('k \<Rightarrow> bool) \<Rightarrow> (('k, 'v) HTAB \<times> 'id seq_scans, unit) pg" where
  "hash_seq_remove_where hashp level P = (\<lambda>(t, scans).
     case hash_seq_init hashp level t scans of
       (Inl err, scans) \<Rightarrow> (Inl err, (t, scans))
     | (Inr status, scans) \<Rightarrow>
         hash_scan_remove (Suc (nat (hash_get_num_entries t))) hashp P status (t, scans))"

text \<open>A whole scan that only looks: \<^verbatim>\<open>while ((e = hash_seq_search(&status)) != NULL)\<close>, collecting what it sees.\<close>

fun hash_scan_collect ::
  "nat \<Rightarrow> 'id \<Rightarrow> ('k, 'v) HTAB \<Rightarrow> 'k HASH_SEQ_STATUS \<Rightarrow> ('id seq_scans, ('k, 'v) HASHELEMENT list) pg" where
  "hash_scan_collect 0 hashp t status scans = (Inl (Undefined ''out of fuel''), scans)"
| "hash_scan_collect (Suc fuel) hashp t status scans =
     (case hash_seq_search hashp t status scans of
        (Inl err, scans) \<Rightarrow> (Inl err, scans)
      | (Inr (None, _), scans) \<Rightarrow> (Inr [], scans)
      | (Inr (Some e, status), scans) \<Rightarrow>
          pg_bind (hash_scan_collect fuel hashp t status) (\<lambda>es. pg_return (e # es)) scans)"

definition hash_seq_collect :: "'id \<Rightarrow> int \<Rightarrow> ('k, 'v) HTAB \<Rightarrow> ('id seq_scans, ('k, 'v) HASHELEMENT list) pg" where
  "hash_seq_collect hashp level t =
     pg_bind (hash_seq_init hashp level t)
       (hash_scan_collect (Suc (nat (hash_get_num_entries t))) hashp t)"

section \<open>Lemmas on the registry\<close>

lemma mset_drop_scan: "i < length scans \<Longrightarrow> mset (drop_scan i scans) = mset scans - {#scans ! i#}"
proof -
  assume i: "i < length scans"
  obtain xs x where s: "scans = xs @ [x]" using i by (metis append_butlast_last_id length_0_conv not_less0)
  show ?thesis
  proof (cases "i = length xs")
    case False
    hence "i < length xs" using i s by simp
    then show ?thesis using s by (simp add: drop_scan_def list_update_append1 butlast_append mset_update nth_append)
  qed (simp add: s drop_scan_def)
qed

lemma length_drop_scan [simp]: "length (drop_scan i scans) = length scans - 1"
  by (simp add: drop_scan_def)

lemma deregister_loop_ok:
  assumes "n \<le> length scans" and "\<exists>i < n. fst (scans ! i) = hashp"
  shows "\<exists>i < length scans. fst (scans ! i) = hashp \<and> deregister_loop hashp n scans = (Inr (), drop_scan i scans)"
  using assms
proof (induction n)
  case (Suc n)
  show ?case
  proof (cases "fst (scans ! n) = hashp")
    case True
    then show ?thesis using Suc.prems(1) by (intro exI [of _ n]) simp
  next
    case False
    hence "\<exists>i < n. fst (scans ! i) = hashp" using Suc.prems(2) less_Suc_eq by auto
    with Suc False show ?thesis by auto
  qed
qed simp

lemma deregister_registered:
  assumes "has_seq_scans hashp scans"
  shows "\<exists>l. (hashp, l) \<in> set scans \<and> (\<exists>scans'. deregister_seq_scan hashp scans = (Inr (), scans') \<and> mset scans' = mset scans - {#(hashp, l)#})"
proof -
  have "\<exists>i < length scans. fst (scans ! i) = hashp"
    using assms by (auto simp: has_seq_scans_def list_ex_length)
  then obtain i where i: "i < length scans" "fst (scans ! i) = hashp" "deregister_seq_scan hashp scans = (Inr (), drop_scan i scans)"
    using deregister_loop_ok [of "length scans" scans hashp] by (auto simp: deregister_seq_scan_def)
  then show ?thesis using mset_drop_scan [OF i(1)] nth_mem [OF i(1)] by (metis prod.collapse)
qed

lemma AtEOSubXact_loop_ok:
  assumes "n \<le> length scans" and "\<forall>j. n \<le> j \<and> j < length scans \<longrightarrow> snd (scans ! j) < d"
    and "AtEOSubXact_loop c d n w scans = (w', scans')"
  shows "mset scans' = filter_mset (\<lambda>x. snd x < d) (mset scans) \<and>
    mset w' = mset w + (if c then image_mset fst (filter_mset (\<lambda>x. d \<le> snd x) (mset scans)) else {#})"
  using assms
proof (induction n arbitrary: w scans)
  case 0
  hence "\<forall>x \<in> set scans. snd x < d" by (metis in_set_conv_nth le0)
  hence "filter_mset (\<lambda>x. snd x < d) (mset scans) = mset scans" "filter_mset (\<lambda>x. d \<le> snd x) (mset scans) = {#}"
    by (simp_all add: not_le flip: mset_filter)
  with 0 show ?case by auto
next
  case (Suc n)
  have n: "n < length scans" using Suc.prems(1) by simp
  show ?case
  proof (cases "d \<le> snd (scans ! n)")
    case False
    hence "\<forall>j. n \<le> j \<and> j < length scans \<longrightarrow> snd (scans ! j) < d"
      using Suc.prems(2) by (metis le_eq_less_or_eq not_le Suc_leI)
    with Suc False show ?thesis by simp
  next
    case True
    let ?s = "drop_scan n scans"
    have later: "\<forall>j. n \<le> j \<and> j < length ?s \<longrightarrow> snd (?s ! j) < d"
    proof (intro allI impI)
      fix j assume j: "n \<le> j \<and> j < length ?s"
      hence "?s ! j = (if j = n then last scans else scans ! j)"
        by (auto simp: drop_scan_def nth_butlast)
      moreover have "last scans = scans ! (length scans - 1)" using n by (intro last_conv_nth) auto
      ultimately show "snd (?s ! j) < d" using Suc.prems(2) j by auto
    qed
    have "AtEOSubXact_loop c d n (if c then w @ [fst (scans ! n)] else w) ?s = (w', scans')"
      using Suc.prems(3) True by simp
    from Suc.IH [OF _ later this] n have IH:
      "mset scans' = filter_mset (\<lambda>x. snd x < d) (mset ?s)"
      "mset w' = mset (if c then w @ [fst (scans ! n)] else w) + (if c then image_mset fst (filter_mset (\<lambda>x. d \<le> snd x) (mset ?s)) else {#})"
      by auto
    have split: "mset scans = add_mset (scans ! n) (mset ?s)"
      using mset_drop_scan [OF n] nth_mem [OF n] by simp
    show ?thesis using IH True by (simp add: split)
  qed
qed

section \<open>Lemmas on scans\<close>

text \<open>The elements a scan has still to return, in the order in which it returns them.\<close>

definition buckets_from :: "('k, 'v) HTAB \<Rightarrow> nat \<Rightarrow> ('k, 'v) HASHELEMENT list" where
  "buckets_from t n = concat (map (\<lambda>i. get_bucket t (of_nat i)) [n..<Suc (unat (max_bucket t))])"

definition remaining :: "('k, 'v) HTAB \<Rightarrow> 'k HASH_SEQ_STATUS \<Rightarrow> ('k, 'v) HASHELEMENT list" where
  "remaining t status =
     (case curEntry status of
        Some k \<Rightarrow> chain_from k (get_bucket t (curBucket status)) @ buckets_from t (Suc (unat (curBucket status)))
      | None \<Rightarrow> buckets_from t (unat (curBucket status)))"

definition scan_ok :: "('k, 'v) HTAB \<Rightarrow> 'k HASH_SEQ_STATUS \<Rightarrow> bool" where
  "scan_ok t status \<longleftrightarrow> \<not> hasHashvalue status \<and> max_bucket t \<noteq> - 1 \<and> curBucket status \<le> max_bucket t + 1 \<and>
     (case curEntry status of None \<Rightarrow> True
      | Some k \<Rightarrow> curBucket status \<le> max_bucket t \<and> chain_from k (get_bucket t (curBucket status)) \<noteq> [])"

lemma buckets_from_Cons: "n \<le> unat (max_bucket t) \<Longrightarrow> buckets_from t n = get_bucket t (of_nat n) @ buckets_from t (Suc n)"
  by (simp add: buckets_from_def upt_conv_Cons del: upt_Suc)

lemma buckets_from_end: "unat (max_bucket t) < n \<Longrightarrow> buckets_from t n = []"
  by (simp add: buckets_from_def)

lemma next_bucket_step:
  "next_bucket t b = (if get_bucket t b \<noteq> [] then Some (Some b)
     else if max_bucket t < b + 1 then Some None else next_bucket t (b + 1))"
  by (rule next_bucket.simps)

lemma next_bucket_ends:
  assumes "max_bucket t \<noteq> - 1" and "b \<le> max_bucket t"
  shows "next_bucket t b = Some None \<and> buckets_from t (unat b) = [] \<or>
    (\<exists>b' \<le> max_bucket t. next_bucket t b = Some (Some b') \<and> get_bucket t b' \<noteq> [] \<and> buckets_from t (unat b) = buckets_from t (unat b'))"
  using assms(2)
proof (induction "unat (max_bucket t) - unat b" arbitrary: b)
  case 0
  hence b: "b = max_bucket t" by (simp add: word_le_nat_alt word_unat_eq_iff)
  have "buckets_from t (unat b) = get_bucket t b" using buckets_from_Cons [of "unat b" t] by (simp add: b buckets_from_end)
  then show ?case using next_bucket_step [of t b] less_plus_one [OF assms(1)] b by auto
next
  case (Suc n)
  show ?case
  proof (cases "get_bucket t b = []")
    case False
    then show ?thesis using next_bucket_step [of t b] Suc.prems by auto
  next
    case True
    have lt: "b < max_bucket t" using Suc(2,3) by (simp add: word_less_nat_alt word_le_nat_alt)
    hence b1: "b \<noteq> - 1" by auto
    have u: "unat (b + 1) = Suc (unat b)" by (rule unat_plus_one [OF b1])
    have le: "b + 1 \<le> max_bucket t" using lt u by (simp add: word_less_nat_alt word_le_nat_alt)
    have "buckets_from t (unat b) = buckets_from t (unat (b + 1))"
      using buckets_from_Cons [of "unat b" t] lt True u by (simp add: word_less_nat_alt)
    moreover have "next_bucket t b = next_bucket t (b + 1)"
      using next_bucket_step [of t b] True le by (simp add: leD)
    ultimately show ?thesis using Suc(1) [OF _ le] Suc(2) u by simp
  qed
qed

lemma chain_from_next:
  assumes "distinct (map ekey chain)" and "chain_from k chain = e # e' # rest"
  shows "chain_from (ekey e') chain = e' # rest"
  using assms
proof (induction chain)
  case (Cons a chain)
  show ?case
  proof (cases "ekey a = k")
    case False
    hence "chain_from k chain = e # e' # rest" using Cons.prems(2) by (simp add: chain_from_def)
    moreover from this have "e' \<in> set chain"
      unfolding chain_from_def by (metis set_dropWhileD list.set_intros(1,2))
    ultimately show ?thesis using Cons by (auto simp: chain_from_def image_iff)
  qed (use Cons.prems in \<open>auto simp: chain_from_def\<close>)
qed (simp add: chain_from_def)

lemma chain_from_second:
  "distinct (map ekey (e # e' # rest)) \<Longrightarrow> chain_from (ekey e') (e # e' # rest) = e' # rest"
  by (simp add: chain_from_def)

text \<open>Moving past the element \<open>e\<close> of bucket \<open>b\<close>.\<close>

lemma advance:
  assumes "htab_inv t" and "max_bucket t \<noteq> - 1" and "b \<le> max_bucket t" and "\<not> hasHashvalue status"
    and "rest \<noteq> [] \<Longrightarrow> chain_from (ekey (hd rest)) (get_bucket t b) = rest"
  defines "status' \<equiv> status\<lparr>curEntry := first_key rest, curBucket := (if rest = [] then b + 1 else b)\<rparr>"
  shows "scan_ok t status'" and "remaining t status' = rest @ buckets_from t (Suc (unat b))"
proof -
  have b: "b \<noteq> - 1" using assms(2,3) by (metis max_word_max order_antisym)
  have u: "unat (b + 1) = Suc (unat b)" by (rule unat_plus_one [OF b])
  have le: "b \<le> max_bucket t + 1" "b + 1 \<le> max_bucket t + 1"
    using assms(3) u unat_plus_one [OF assms(2)] by (simp_all add: word_le_nat_alt)
  show "scan_ok t status'"
    using assms(2-5) le by (cases rest) (simp_all add: scan_ok_def status'_def first_key_def)
  show "remaining t status' = rest @ buckets_from t (Suc (unat b))"
    using assms(5) u by (cases rest) (simp_all add: remaining_def status'_def first_key_def)
qed

lemma chain_distinct: "htab_inv t \<Longrightarrow> b \<le> max_bucket t \<Longrightarrow> distinct (map ekey (get_bucket t b))"
  by (simp add: htab_inv_def htab_chains_iff chain_ok_def)

lemma hash_seq_search_next:
  assumes "htab_inv t" and "scan_ok t status" and "remaining t status = e # es"
  shows "\<exists>status'. hash_seq_search hashp t status scans = (Inr (Some e, status'), scans) \<and>
    scan_ok t status' \<and> remaining t status' = es"
proof (cases "curEntry status")
  case (Some k)
  let ?b = "curBucket status"
  have b: "max_bucket t \<noteq> - 1" "?b \<le> max_bucket t" "chain_from k (get_bucket t ?b) \<noteq> []" "\<not> hasHashvalue status"
    using assms(2) Some by (auto simp: scan_ok_def)
  then obtain rest where rest: "chain_from k (get_bucket t ?b) = e # rest" "es = rest @ buckets_from t (Suc (unat ?b))"
    using assms(3) Some by (cases "chain_from k (get_bucket t ?b)") (auto simp: remaining_def)
  have nx: "chain_from (ekey (hd rest)) (get_bucket t ?b) = rest" if "rest \<noteq> []"
    using that rest(1) chain_from_next [OF chain_distinct [OF assms(1) b(2)], of k e "hd rest" "tl rest"] by (cases rest) auto
  show ?thesis
    using advance [OF assms(1) b(1,2,4) nx] rest Some b(4) by (auto simp: hash_seq_search_def)
next
  case None
  let ?b = "curBucket status"
  have st: "max_bucket t \<noteq> - 1" "\<not> hasHashvalue status" using assms(2) by (auto simp: scan_ok_def)
  have rem: "buckets_from t (unat ?b) = e # es" using assms(3) None by (simp add: remaining_def)
  have b: "?b \<le> max_bucket t"
    using rem buckets_from_end [of t "unat ?b"] by (cases "max_bucket t < ?b") (auto simp: word_less_nat_alt word_le_nat_alt)
  then obtain b' where b': "b' \<le> max_bucket t" "next_bucket t ?b = Some (Some b')" "get_bucket t b' \<noteq> []"
      "buckets_from t (unat ?b) = buckets_from t (unat b')"
    using next_bucket_ends [OF st(1) b] rem by auto
  obtain rest where rest: "get_bucket t b' = e # rest" "es = rest @ buckets_from t (Suc (unat b'))"
    using b' rem buckets_from_Cons [of "unat b'" t] by (cases "get_bucket t b'") (auto simp: word_le_nat_alt)
  have nx: "chain_from (ekey (hd rest)) (get_bucket t b') = rest" if "rest \<noteq> []"
    using that rest(1) chain_from_second [of e "hd rest" "tl rest"] chain_distinct [OF assms(1) b'(1)] by (cases rest) auto
  show ?thesis
    using advance [OF assms(1) st(1) b'(1) st(2) nx] rest None st b b'(2) by (auto simp: hash_seq_search_def not_less)
qed

lemma hash_seq_search_end:
  assumes "scan_ok t status" and "remaining t status = []"
  shows "\<exists>status'. hash_seq_search hashp t status scans
    = pg_bind (hash_seq_term hashp t) (\<lambda>_. pg_return (None, status')) scans"
proof -
  let ?b = "curBucket status"
  have none: "curEntry status = None" using assms by (cases "curEntry status") (auto simp: remaining_def scan_ok_def)
  have st: "max_bucket t \<noteq> - 1" "\<not> hasHashvalue status" using assms(1) by (auto simp: scan_ok_def)
  show ?thesis
  proof (cases "max_bucket t < ?b")
    case True
    then show ?thesis using st none by (auto simp: hash_seq_search_def)
  next
    case False
    hence "next_bucket t ?b = Some None"
      using next_bucket_ends [OF st(1), of ?b] assms(2) none buckets_from_Cons [of _ t]
      by (auto simp: remaining_def not_less word_le_nat_alt)
    then show ?thesis using st none False by (auto simp: hash_seq_search_def Let_def)
  qed
qed

text \<open>A removal takes the key out of its chain and leaves the rest as it is.\<close>

lemma filter_key_remove1:
  "distinct (map ekey chain) \<Longrightarrow> e \<in> set chain \<Longrightarrow> filter (\<lambda>x. ekey x \<noteq> ekey e) chain = remove1 e chain"
proof (induction chain)
  case (Cons a chain)
  show ?case
  proof (cases "a = e")
    case True
    have "filter (\<lambda>x. ekey x \<noteq> ekey e) chain = chain"
      using Cons.prems(1) True by (intro filter_True) (auto simp: image_iff)
    then show ?thesis by (simp add: True)
  next
    case False
    hence "e \<in> set chain" "ekey a \<noteq> ekey e" using Cons.prems by (auto simp: image_iff)
    with Cons False show ?thesis by simp
  qed
qed simp

lemma hash_search_remove_chains:
  assumes "htab_ok t" and "hash_search scanned k HASH_REMOVE t = (r, t')"
  shows "max_bucket t' = max_bucket t" and "frozen t' = frozen t"
    and "b \<le> max_bucket t \<Longrightarrow> get_bucket t' b = filter (\<lambda>e. ekey e \<noteq> k) (get_bucket t b)"
proof -
  have inv: "htab_inv t" "\<not> frozen t" "htab_shape t" using assms(1) by (simp_all add: htab_ok_def htab_inv_def)
  let ?b = "calc_bucket t (hash t k)"
  have le: "?b \<le> max_bucket t" by (rule calc_bucket_le [OF inv(3)])
  have ok: "chain_ok t b (get_bucket t b)" if "b \<le> max_bucket t" for b
    using inv(1) that by (simp add: htab_inv_def htab_chains_iff)
  have other: "filter (\<lambda>e. ekey e \<noteq> k) (get_bucket t b) = get_bucket t b" if "b \<le> max_bucket t" "b \<noteq> ?b" for b
    using ok [OF that(1)] that(2) by (auto simp: filter_id_conv chain_ok_def)
  have "max_bucket t' = max_bucket t \<and> frozen t' = frozen t \<and>
    (b \<le> max_bucket t \<longrightarrow> get_bucket t' b = filter (\<lambda>e. ekey e \<noteq> k) (get_bucket t b))" for b
  proof (cases "find (matches (hash t k) k) (get_bucket t ?b)")
    case None
    hence "filter (\<lambda>e. ekey e \<noteq> k) (get_bucket t ?b) = get_bucket t ?b"
      using ok [OF le] by (auto simp: find_None_iff matches_def filter_id_conv chain_ok_def)
    moreover have "t' = t"
      using assms(2) None inv hash_initial_lookup_ok [of t "hash t k"]
      by (auto simp: hash_search_def hash_search_with_hash_value_def Let_def)
    ultimately show ?thesis using other by (cases "b = ?b") auto
  next
    case (Some e)
    have e: "e \<in> set (get_bucket t ?b)" "ekey e = k" using find_SomeD [OF Some] by (auto simp: matches_def)
    have t': "get_bucket t' = get_bucket (put_bucket ?b (remove1 e (get_bucket t ?b)) t)" "max_bucket t' = max_bucket t" "frozen t' = frozen t"
      using assms(2) Some inv hash_initial_lookup_ok [of t "hash t k"]
      by (auto simp: hash_search_def hash_search_with_hash_value_def Let_def freelist_count_def put_bucket_def get_bucket_def fun_eq_iff)
    have "remove1 e (get_bucket t ?b) = filter (\<lambda>x. ekey x \<noteq> k) (get_bucket t ?b)"
      using filter_key_remove1 [of "get_bucket t ?b" e] ok [OF le] e by (simp add: chain_ok_def)
    then show ?thesis
      using t' other by (auto simp: htab_shape_get_put [OF inv(3) le])
  qed
  then show "max_bucket t' = max_bucket t" "frozen t' = frozen t"
    "b \<le> max_bucket t \<Longrightarrow> get_bucket t' b = filter (\<lambda>e. ekey e \<noteq> k) (get_bucket t b)" by auto
qed

lemma chain_from_filter:
  "k' \<noteq> k \<Longrightarrow> chain_from k' (filter (\<lambda>e. ekey e \<noteq> k) chain) = filter (\<lambda>e. ekey e \<noteq> k) (chain_from k' chain)"
  by (induction chain) (auto simp: chain_from_def)

lemma remaining_remove:
  assumes "htab_ok t" and "scan_ok t status" and "curEntry status \<noteq> Some k"
    and "hash_search scanned k HASH_REMOVE t = (r, t')"
  shows "scan_ok t' status" and "remaining t' status = filter (\<lambda>e. ekey e \<noteq> k) (remaining t status)"
proof -
  note ch = hash_search_remove_chains [OF assms(1,4)]
  have from_eq: "buckets_from t' n = filter (\<lambda>e. ekey e \<noteq> k) (buckets_from t n)" for n
    unfolding buckets_from_def filter_concat map_map ch(1)
    by (rule arg_cong [of _ _ concat]) (auto simp: ch(3) word_le_nat_alt unat_of_nat_le [of _ "max_bucket t"])
  show "remaining t' status = filter (\<lambda>e. ekey e \<noteq> k) (remaining t status)"
    using assms(2,3) by (cases "curEntry status") (auto simp: remaining_def from_eq ch(3) scan_ok_def chain_from_filter)
  have "chain_from k' (get_bucket t' (curBucket status)) \<noteq> []" if "curEntry status = Some k'" for k'
  proof -
    have le: "curBucket status \<le> max_bucket t" and ne: "chain_from k' (get_bucket t (curBucket status)) \<noteq> []"
      using assms(2) that by (auto simp: scan_ok_def)
    have "ekey (hd (chain_from k' (get_bucket t (curBucket status)))) = k'"
      using ne hd_dropWhile [of "\<lambda>e. ekey e \<noteq> k'"] by (auto simp: chain_from_def)
    then show ?thesis using ne assms(3) that
      by (cases "chain_from k' (get_bucket t (curBucket status))") (auto simp: ch(3) [OF le] chain_from_filter)
  qed
  then show "scan_ok t' status"
    using assms(2) by (auto simp: scan_ok_def ch(1) split: option.splits)
qed

lemma buckets_from_all:
  assumes "htab_inv t"
  shows "ekey ` set (buckets_from t 0) = dom (htab_map t)"
    and "int (length (buckets_from t 0)) = hash_get_num_entries t"
    and "distinct (map ekey (buckets_from t 0))"
proof -
  show keys: "ekey ` set (buckets_from t 0) = dom (htab_map t)"
    unfolding dom_buckets [OF assms] by (auto simp: buckets_from_def atLeast0LessThan lessThan_Suc_atMost simp del: upt_Suc)
  have len: "length (buckets_from t 0) = bucket_count (\<lambda>_. True) t"
    by (simp add: buckets_from_def bucket_count_def length_concat comp_def interv_sum_list_conv_sum_set_nat
        atLeast0LessThan lessThan_Suc_atMost del: upt_Suc)
  then show "int (length (buckets_from t 0)) = hash_get_num_entries t"
    by (simp add: hash_get_num_entries_count [OF assms])
  show "distinct (map ekey (buckets_from t 0))"
    using card_dom_htab_map [OF assms] keys len by (intro card_distinct) simp
qed

lemma find_unique:
  "distinct (map ekey chain) \<Longrightarrow> e \<in> set chain \<Longrightarrow> hashvalue e = h \<Longrightarrow> find (matches h (ekey e)) chain = Some e"
  by (induction chain) (auto simp: matches_def image_iff)

lemma htab_map_element:
  assumes "htab_inv t" and "e \<in> set (buckets_from t 0)"
  shows "htab_map t (ekey e) = Some (edata e)"
proof -
  obtain i where i: "i \<le> unat (max_bucket t)" "e \<in> set (get_bucket t (of_nat i))"
    using assms(2) by (auto simp: buckets_from_def less_Suc_eq_le simp del: upt_Suc)
  have ok: "chain_ok t (of_nat i) (get_bucket t (of_nat i))"
    using assms(1) i(1) by (simp add: htab_inv_def htab_chains_iff word_le_nat_alt unat_of_nat_le [OF i(1)])
  hence "hashvalue e = hash t (ekey e)" "calc_bucket t (hash t (ekey e)) = of_nat i"
    using i(2) by (auto simp: chain_ok_def)
  with find_unique [of "get_bucket t (of_nat i)" e] ok i(2) show ?thesis
    by (simp add: htab_map_def chain_ok_def)
qed

lemma buckets_from_map:
  assumes "htab_inv t"
  shows "htab_map t = map_of (map (\<lambda>e. (ekey e, edata e)) (buckets_from t 0))"
proof
  fix k
  note all = buckets_from_all [OF assms]
  show "htab_map t k = map_of (map (\<lambda>e. (ekey e, edata e)) (buckets_from t 0)) k"
  proof (cases "k \<in> dom (htab_map t)")
    case True
    then obtain e where e: "e \<in> set (buckets_from t 0)" "k = ekey e" using all(1) by auto
    have "map_of (map (\<lambda>e. (ekey e, edata e)) (buckets_from t 0)) k = Some (edata e)"
      using e all(3) by (intro map_of_is_SomeI) (auto simp: comp_def)
    then show ?thesis using htab_map_element [OF assms e(1)] e(2) by simp
  next
    case False
    hence "map_of (map (\<lambda>e. (ekey e, edata e)) (buckets_from t 0)) k = None"
      using all(1) by (auto simp: map_of_eq_None_iff image_iff)
    with False show ?thesis by auto
  qed
qed

lemma curEntry_remaining:
  assumes "scan_ok t status" and "curEntry status = Some k"
  shows "k \<in> ekey ` set (remaining t status)"
proof -
  have ne: "chain_from k (get_bucket t (curBucket status)) \<noteq> []" using assms by (simp add: scan_ok_def)
  hence "ekey (hd (chain_from k (get_bucket t (curBucket status)))) = k"
    using hd_dropWhile [of "\<lambda>e. ekey e \<noteq> k"] by (auto simp: chain_from_def)
  with ne assms(2) show ?thesis
    by (cases "chain_from k (get_bucket t (curBucket status))") (auto simp: remaining_def)
qed

text \<open>With enough fuel the loop ends without error and has deleted what it was asked to delete.\<close>

lemma hash_scan_remove_ok:
  assumes "htab_ok t" and "scan_ok t status" and "distinct (map ekey (remaining t status))"
    and "length (remaining t status) < fuel" and "deregister_seq_scan hashp scans = (Inr (), scans')"
  shows "\<exists>t'. hash_scan_remove fuel hashp P status (t, scans) = (Inr (), (t', scans')) \<and> htab_ok t' \<and>
    htab_map t' = htab_map t |` (- {k \<in> ekey ` set (remaining t status). P k}) \<and>
    (\<forall>n. htab_roomy n t \<longrightarrow> htab_roomy n t') \<and> hash t' = hash t"
  using assms(1-4)
proof (induction fuel arbitrary: t status)
  case (Suc fuel)
  have inv: "htab_inv t" "\<not> frozen t" using Suc.prems(1) by (simp_all add: htab_ok_def)
  show ?case
  proof (cases "remaining t status")
    case Nil
    with hash_seq_search_end [OF Suc.prems(2) Nil, of hashp scans] assms(5) inv(2) Suc.prems(1) show ?thesis
      by (auto simp: hash_seq_term_def pg_simps)
  next
    case (Cons e es)
    obtain status' where nx: "hash_seq_search hashp t status scans = (Inr (Some e, status'), scans)"
        "scan_ok t status'" "remaining t status' = es"
      using hash_seq_search_next [OF inv(1) Suc.prems(2) Cons, of hashp scans] by (elim exE conjE)
    have new: "ekey e \<notin> ekey ` set es" "distinct (map ekey es)" using Suc.prems(3) Cons by auto
    show ?thesis
    proof (cases "P (ekey e)")
      case False
      have "{k \<in> ekey ` set (remaining t status). P k} = {k \<in> ekey ` set es. P k}" using Cons False by auto
      then show ?thesis using Suc.IH [OF Suc.prems(1) nx(2)] nx Suc.prems(4) new Cons False by simp
    next
      case True
      obtain r t1 where rm: "hash_search (has_seq_scans hashp scans) (ekey e) HASH_REMOVE t = (r, t1)" by fastforce
      note t1 = dt.remove [OF Suc.prems(1) rm]
      have cur: "curEntry status' \<noteq> Some (ekey e)" using curEntry_remaining [OF nx(2)] nx(3) new(1) by auto
      have rem: "remaining t1 status' = es" "scan_ok t1 status'"
        using remaining_remove [OF Suc.prems(1) nx(2) cur rm] nx(3) new(1) by (auto simp: filter_id_conv image_iff)
      have c: "htab_ok t1" "distinct (map ekey (remaining t1 status'))" "length (remaining t1 status') < fuel"
        using t1 rem(1) new(2) Suc.prems(4) Cons by simp_all
      obtain t' where IH: "hash_scan_remove fuel hashp P status' (t1, scans) = (Inr (), (t', scans'))" "htab_ok t'"
          "htab_map t' = htab_map t1 |` (- {k \<in> ekey ` set es. P k})" "\<forall>n. htab_roomy n t1 \<longrightarrow> htab_roomy n t'" "hash t' = hash t1"
        using Suc.IH [OF c(1) rem(2) c(2,3)] unfolding rem(1) by (elim exE conjE)
      have "htab_map t' = htab_map t |` (- {k \<in> ekey ` set (remaining t status). P k})"
        using IH(3) t1 Cons True by (auto simp: restrict_map_def fun_eq_iff)
      moreover have "hash t1 = hash t" by (rule hash_search_hash [OF rm])
      ultimately show ?thesis
        using IH t1 nx(1) rm True dt.remove_room [OF Suc.prems(1) _ rm] by auto
    qed
  qed
qed simp

lemma deregister_last [simp]: "deregister_seq_scan hashp (scans @ [(hashp, l)]) = (Inr (), scans)"
  by (simp add: deregister_seq_scan_def drop_scan_def nth_append)

lemma init_scan_ok:
  assumes "htab_ok t"
  defines "status \<equiv> \<lparr>curBucket = 0, curEntry = None, hasHashvalue = False, seq_hashvalue = 0\<rparr>"
  shows "scan_ok t status" and "remaining t status = buckets_from t 0"
  using assms by (simp_all add: scan_ok_def remaining_def htab_ok_def)

lemma hash_seq_init_ok:
  assumes "htab_ok t" and "length scans < MAX_SEQ_SCANS"
  shows "hash_seq_init hashp level t scans =
    (Inr \<lparr>curBucket = 0, curEntry = None, hasHashvalue = False, seq_hashvalue = 0\<rparr>, scans @ [(hashp, level)])"
  using assms by (simp add: hash_seq_init_def htab_ok_def register_seq_scan_def pg_bind_def pg_return_def Let_def)

lemma hash_seq_remove_where_ok:
  assumes "htab_ok t" and "length scans < MAX_SEQ_SCANS"
  shows "\<exists>t'. hash_seq_remove_where hashp level P (t, scans) = (Inr (), (t', scans)) \<and> htab_ok t' \<and>
    htab_map t' = htab_map t |` (- {k. P k}) \<and> (\<forall>n. htab_roomy n t \<longrightarrow> htab_roomy n t') \<and> hash t' = hash t"
proof -
  have inv: "htab_inv t" using assms(1) by (simp add: htab_ok_def)
  note all = buckets_from_all [OF inv]
  have restrict: "htab_map t |` (- {k \<in> dom (htab_map t). P k}) = htab_map t |` (- {k. P k})"
    by (auto simp: restrict_map_def fun_eq_iff)
  have "length (buckets_from t 0) < Suc (nat (hash_get_num_entries t))" using all(2) by linarith
  from hash_scan_remove_ok [OF assms(1) init_scan_ok(1) [OF assms(1)], of "Suc (nat (hash_get_num_entries t))" hashp "scans @ [(hashp, level)]" scans P]
    this all show ?thesis
    unfolding init_scan_ok(2) [OF assms(1)] hash_seq_remove_where_def
    by (auto simp: hash_seq_init_ok [OF assms] restrict)
qed

lemma hash_scan_collect_ok:
  assumes "htab_ok t" and "scan_ok t status" and "length (remaining t status) < fuel"
    and "deregister_seq_scan hashp scans = (Inr (), scans')"
  shows "hash_scan_collect fuel hashp t status scans = (Inr (remaining t status), scans')"
  using assms(2,3)
proof (induction fuel arbitrary: status)
  case (Suc fuel)
  have inv: "htab_inv t" "\<not> frozen t" using assms(1) by (simp_all add: htab_ok_def)
  show ?case
  proof (cases "remaining t status")
    case Nil
    with hash_seq_search_end [OF Suc.prems(1) Nil, of hashp scans] assms(4) inv(2) show ?thesis
      by (auto simp: hash_seq_term_def pg_simps)
  next
    case (Cons e es)
    obtain status' where nx: "hash_seq_search hashp t status scans = (Inr (Some e, status'), scans)"
        "scan_ok t status'" "remaining t status' = es"
      using hash_seq_search_next [OF inv(1) Suc.prems(1) Cons, of hashp scans] by (elim exE conjE)
    with Suc Cons show ?thesis by (simp add: pg_simps)
  qed
qed simp

section \<open>Properties\<close>

text \<open>
  C17: a scan that deletes as it goes. On a well-formed table with a free slot in the registry, the
  loop ends, raises no error, never follows a dangling pointer, deletes exactly the keys that
  satisfy the condition, keeps the table well formed and leaves the registry of active scans as it
  was.
\<close>

theorem hash_seq_remove_where_map:
  assumes "htab_ok t" and "length scans < MAX_SEQ_SCANS"
  shows "\<exists>t'. hash_seq_remove_where hashp level P (t, scans) = (Inr (), (t', scans)) \<and> htab_ok t' \<and>
    htab_map t' = htab_map t |` (- {k. P k})"
  using hash_seq_remove_where_ok [OF assms] by blast

theorem hash_seq_remove_where_map_witness:
  "htab_ok sample_table \<and> length ([] :: nat seq_scans) < MAX_SEQ_SCANS \<and>
   (\<exists>t'. hash_seq_remove_where (5 :: nat) 1 (\<lambda>k. k < 3) (sample_table, []) = (Inr (), (t', [])) \<and> htab_map t' = Map.empty)"
  using hash_seq_remove_where_map [OF sample_ok(1), of "[]" "5 :: nat" 1 "\<lambda>k. k < 3"] sample_ok(3)
  by (simp add: MAX_SEQ_SCANS_def sample_ok(1)) (metis restrict_map_empty)

text \<open>
  C18: a scan sees everything once. A whole scan of a well-formed table ends and returns a list of
  elements with distinct keys that is exactly the content of the table, and unregisters itself.
\<close>

theorem hash_seq_collect_all:
  assumes "htab_ok t" and "length scans < MAX_SEQ_SCANS"
  shows "\<exists>es. hash_seq_collect hashp level t scans = (Inr es, scans) \<and> distinct (map ekey es) \<and>
    htab_map t = map_of (map (\<lambda>e. (ekey e, edata e)) es)"
proof -
  have inv: "htab_inv t" using assms(1) by (simp add: htab_ok_def)
  note all = buckets_from_all [OF inv]
  have "length (buckets_from t 0) < Suc (nat (hash_get_num_entries t))" using all(2) by linarith
  hence "hash_seq_collect hashp level t scans = (Inr (buckets_from t 0), scans)"
    using hash_scan_collect_ok [OF assms(1) init_scan_ok(1) [OF assms(1)], of _ hashp "scans @ [(hashp, level)]" scans]
    unfolding init_scan_ok(2) [OF assms(1)]
    by (simp add: hash_seq_collect_def hash_seq_init_ok [OF assms] pg_bind_def del: hash_scan_collect.simps)
  with all(3) buckets_from_map [OF inv] show ?thesis by blast
qed

theorem hash_seq_collect_all_witness:
  "htab_ok sample_table \<and> length ([] :: nat seq_scans) < MAX_SEQ_SCANS \<and>
   (\<exists>es. hash_seq_collect (5 :: nat) 1 sample_table [] = (Inr es, []) \<and> distinct (map ekey es))"
  using hash_seq_collect_all [OF sample_ok(1), of "[]" "5 :: nat" 1] by (auto simp: MAX_SEQ_SCANS_def sample_ok(1))

text \<open>
  C19: clean-up at the end of a subtransaction. The registry keeps exactly the scans of outer
  levels, although deregistration reorders the array while the loop walks it, and a commit warns
  about exactly the scans it drops.
\<close>

theorem AtEOSubXact_HashTables_keeps:
  "mset (snd (AtEOSubXact_HashTables isCommit nestDepth scans)) = filter_mset (\<lambda>s. snd s < nestDepth) (mset scans) \<and>
   mset (fst (AtEOSubXact_HashTables isCommit nestDepth scans)) =
     (if isCommit then image_mset fst (filter_mset (\<lambda>s. nestDepth \<le> snd s) (mset scans)) else {#})"
  using AtEOSubXact_loop_ok [of "length scans" scans nestDepth isCommit "[]"]
  unfolding AtEOSubXact_HashTables_def by (cases "AtEOSubXact_loop isCommit nestDepth (length scans) [] scans") auto

end
