(* ===== verification/Relpath.thy ===== *)
theory Relpath
  imports Prelude
begin

text \<open>
  Names of relation files: src/src/common/relpath.c builds the path of a fork's file,
  src/src/backend/storage/file/reinit.c parses a file name back into relation, fork and segment, and
  src/src/backend/storage/file/fd.c recognises the files of temporary relations. C strings are
  \<open>string\<close> without NUL; reading at the end of a string gives NUL. The lemmas show that the path
  never exceeds the fixed buffer it is printed into, that two forks never share a path, and that
  parsing inverts printing in both directions.
\<close>

section \<open>Numbers in decimal\<close>

definition isdigit :: "char \<Rightarrow> bool" where
  "isdigit c \<longleftrightarrow> (48 :: nat) \<le> of_char c \<and> of_char c \<le> (57 :: nat)"

definition digit :: "nat \<Rightarrow> char" where
  "digit d = char_of (48 + d)"

definition digit_value :: "char \<Rightarrow> nat" where
  "digit_value c = of_char c - 48"

text \<open>\<^verbatim>\<open>%u\<close> and \<^verbatim>\<open>%d\<close> of \<^verbatim>\<open>sprintf\<close>.\<close>

fun fmt_u :: "nat \<Rightarrow> string" where
  "fmt_u n = (if n < 10 then [digit n] else fmt_u (n div 10) @ [digit (n mod 10)])"

declare fmt_u.simps [simp del]

definition fmt_d :: "int \<Rightarrow> string" where
  "fmt_d i = (if i < 0 then ''-'' @ fmt_u (nat (- i)) else fmt_u (nat i))"

definition digits_value :: "string \<Rightarrow> nat" where
  "digits_value = foldl (\<lambda>n c. 10 * n + digit_value c) 0"

text \<open>
  \<^verbatim>\<open>strtoul(s, &endp, 10)\<close> of a string that starts with a digit, as its callers make sure:
  whether \<^verbatim>\<open>errno\<close> is set, the value, and the rest at \<^verbatim>\<open>endp\<close>.
\<close>

definition strtoul :: "string \<Rightarrow> bool \<times> nat \<times> string" where
  "strtoul s =
     (let n = digits_value (takeWhile isdigit s); rest = dropWhile isdigit s
      in if n < 2 ^ 64 then (False, n, rest) else (True, 2 ^ 64 - 1, rest))"

definition chr_at :: "string \<Rightarrow> char" where
  "chr_at s = (case s of [] \<Rightarrow> CHR 0x00 | c # _ \<Rightarrow> c)"

section \<open>Forks\<close>

datatype ForkNumber = InvalidForkNumber | MAIN_FORKNUM | FSM_FORKNUM | VISIBILITYMAP_FORKNUM | INIT_FORKNUM

definition forks_from_0 :: "ForkNumber list" where
  "forks_from_0 = [MAIN_FORKNUM, FSM_FORKNUM, VISIBILITYMAP_FORKNUM, INIT_FORKNUM]"

definition forks_from_1 :: "ForkNumber list" where
  "forks_from_1 = [FSM_FORKNUM, VISIBILITYMAP_FORKNUM, INIT_FORKNUM]"

text \<open>The array \<^verbatim>\<open>forkNames\<close>; \<open>None\<close> is the read before its start.\<close>

fun forkNames :: "ForkNumber \<Rightarrow> string option" where
  "forkNames InvalidForkNumber = None"
| "forkNames MAIN_FORKNUM = Some ''main''"
| "forkNames FSM_FORKNUM = Some ''fsm''"
| "forkNames VISIBILITYMAP_FORKNUM = Some ''vm''"
| "forkNames INIT_FORKNUM = Some ''init''"

definition forkname_to_number :: "string \<Rightarrow> pg_error + ForkNumber" where
  "forkname_to_number forkName =
     (case find (\<lambda>f. forkNames f = Some forkName) forks_from_0 of
        Some f \<Rightarrow> Inr f
      | None \<Rightarrow> Inl (Ereport ERROR ERRCODE_INVALID_PARAMETER_VALUE ''invalid fork name''))"

definition forkname_chars :: "string \<Rightarrow> nat \<times> ForkNumber" where
  "forkname_chars str =
     (case find (\<lambda>f. case forkNames f of None \<Rightarrow> False | Some name \<Rightarrow> take (length name) str = name) forks_from_1 of
        Some f \<Rightarrow> (case forkNames f of Some name \<Rightarrow> (length name, f) | None \<Rightarrow> (0, f))
      | None \<Rightarrow> (0, InvalidForkNumber))"

section \<open>Paths\<close>

definition GLOBALTABLESPACE_OID :: Oid where "GLOBALTABLESPACE_OID = 1664"
definition DEFAULTTABLESPACE_OID :: Oid where "DEFAULTTABLESPACE_OID = 1663"

definition PG_TBLSPC_DIR :: string where "PG_TBLSPC_DIR = ''pg_tblspc''"

definition TABLESPACE_VERSION_DIRECTORY :: string where
  "TABLESPACE_VERSION_DIRECTORY = ''PG_'' @ ''19'' @ ''_'' @ ''202605131''"

definition OIDCHARS :: nat where "OIDCHARS = 10"
definition FORKNAMECHARS :: nat where "FORKNAMECHARS = 4"
definition PROCNUMBER_CHARS :: nat where "PROCNUMBER_CHARS = 6"
definition MAX_BACKENDS :: int where "MAX_BACKENDS = 2 ^ 18 - 1"
definition INVALID_PROC_NUMBER :: int where "INVALID_PROC_NUMBER = - 1"

definition REL_PATH_STR_MAXLEN :: nat where
  "REL_PATH_STR_MAXLEN = length PG_TBLSPC_DIR + 1 + OIDCHARS + 1 + length TABLESPACE_VERSION_DIRECTORY + 1
     + OIDCHARS + 1 + 1 + PROCNUMBER_CHARS + 1 + OIDCHARS + 1 + FORKNAMECHARS"

definition fmt_oid :: "Oid \<Rightarrow> string" where
  "fmt_oid oid = fmt_u (unat oid)"

definition GetDatabasePath :: "Oid \<Rightarrow> Oid \<Rightarrow> string" where
  "GetDatabasePath dbOid spcOid =
     (if spcOid = GLOBALTABLESPACE_OID then ''global''
      else if spcOid = DEFAULTTABLESPACE_OID then ''base/'' @ fmt_oid dbOid
      else PG_TBLSPC_DIR @ ''/'' @ fmt_oid spcOid @ ''/'' @ TABLESPACE_VERSION_DIRECTORY @ ''/'' @ fmt_oid dbOid)"

text \<open>\<open>None\<close> where the code reads \<^verbatim>\<open>forkNames\<close> before its start.\<close>

definition GetRelationPath :: "Oid \<Rightarrow> Oid \<Rightarrow> Oid \<Rightarrow> int \<Rightarrow> ForkNumber \<Rightarrow> string option" where
  "GetRelationPath dbOid spcOid relNumber procNumber forkNumber =
     (if spcOid = GLOBALTABLESPACE_OID
      then if forkNumber \<noteq> MAIN_FORKNUM
           then map_option (\<lambda>fork. ''global/'' @ fmt_oid relNumber @ ''_'' @ fork) (forkNames forkNumber)
           else Some (''global/'' @ fmt_oid relNumber)
      else if spcOid = DEFAULTTABLESPACE_OID
      then if procNumber = INVALID_PROC_NUMBER
           then if forkNumber \<noteq> MAIN_FORKNUM
                then map_option (\<lambda>fork. ''base/'' @ fmt_oid dbOid @ ''/'' @ fmt_oid relNumber @ ''_'' @ fork) (forkNames forkNumber)
                else Some (''base/'' @ fmt_oid dbOid @ ''/'' @ fmt_oid relNumber)
           else if forkNumber \<noteq> MAIN_FORKNUM
                then map_option (\<lambda>fork. ''base/'' @ fmt_oid dbOid @ ''/t'' @ fmt_d procNumber @ ''_'' @ fmt_oid relNumber @ ''_'' @ fork)
                       (forkNames forkNumber)
                else Some (''base/'' @ fmt_oid dbOid @ ''/t'' @ fmt_d procNumber @ ''_'' @ fmt_oid relNumber)
      else if procNumber = INVALID_PROC_NUMBER
           then if forkNumber \<noteq> MAIN_FORKNUM
                then map_option (\<lambda>fork. PG_TBLSPC_DIR @ ''/'' @ fmt_oid spcOid @ ''/'' @ TABLESPACE_VERSION_DIRECTORY @ ''/''
                       @ fmt_oid dbOid @ ''/'' @ fmt_oid relNumber @ ''_'' @ fork) (forkNames forkNumber)
                else Some (PG_TBLSPC_DIR @ ''/'' @ fmt_oid spcOid @ ''/'' @ TABLESPACE_VERSION_DIRECTORY @ ''/''
                       @ fmt_oid dbOid @ ''/'' @ fmt_oid relNumber)
           else if forkNumber \<noteq> MAIN_FORKNUM
                then map_option (\<lambda>fork. PG_TBLSPC_DIR @ ''/'' @ fmt_oid spcOid @ ''/'' @ TABLESPACE_VERSION_DIRECTORY @ ''/''
                       @ fmt_oid dbOid @ ''/t'' @ fmt_d procNumber @ ''_'' @ fmt_oid relNumber @ ''_'' @ fork) (forkNames forkNumber)
                else Some (PG_TBLSPC_DIR @ ''/'' @ fmt_oid spcOid @ ''/'' @ TABLESPACE_VERSION_DIRECTORY @ ''/''
                       @ fmt_oid dbOid @ ''/t'' @ fmt_d procNumber @ ''_'' @ fmt_oid relNumber))"

section \<open>Parsing file names\<close>

definition nonzero_digit :: "char \<Rightarrow> bool" where
  "nonzero_digit c \<longleftrightarrow> \<not> (of_char c < (49 :: nat) \<or> of_char c > (57 :: nat))"

definition parse_number :: "string \<Rightarrow> (nat \<times> string) option" where
  "parse_number name =
     (if \<not> nonzero_digit (chr_at name) then None
      else case strtoul name of (errno, n, endp) \<Rightarrow>
        if errno \<or> name = endp \<or> n \<le> 0 \<or> n > 2 ^ 32 - 1 then None else Some (n, endp))"

definition parse_fork :: "string \<Rightarrow> (ForkNumber \<times> string) option" where
  "parse_fork name =
     (if chr_at name \<noteq> CHR ''_'' then Some (MAIN_FORKNUM, name)
      else case forkname_chars (tl name) of (forkchar, f) \<Rightarrow>
        if forkchar \<le> 0 then None else Some (f, drop (forkchar + 1) name))"

definition parse_segment :: "string \<Rightarrow> (nat \<times> string) option" where
  "parse_segment name = (if chr_at name \<noteq> CHR ''.'' then Some (0, name) else parse_number (tl name))"

definition parse_filename_for_nontemp_relation :: "string \<Rightarrow> (Oid \<times> ForkNumber \<times> u32) option" where
  "parse_filename_for_nontemp_relation name =
     (case parse_number name of
        None \<Rightarrow> None
      | Some (n, name) \<Rightarrow>
          (case parse_fork name of
             None \<Rightarrow> None
           | Some (f, name) \<Rightarrow>
               (case parse_segment name of
                  None \<Rightarrow> None
                | Some (s, name) \<Rightarrow> if chr_at name \<noteq> CHR 0x00 then None else Some (of_nat n, f, of_nat s))))"

definition skip_fork :: "string \<Rightarrow> string option" where
  "skip_fork name =
     (if chr_at name = CHR ''_''
      then (let forkchar = fst (forkname_chars (tl name))
            in if forkchar \<le> 0 then None else Some (drop (forkchar + 1) name))
      else Some name)"

definition skip_segment :: "string \<Rightarrow> string option" where
  "skip_segment name =
     (if chr_at name = CHR ''.''
      then (let rest = dropWhile isdigit (tl name) in if rest = tl name then None else Some rest)
      else Some name)"

definition looks_like_temp_rel_name :: "string \<Rightarrow> bool" where
  "looks_like_temp_rel_name name =
     (if chr_at name \<noteq> CHR ''t'' then False
      else let rest = dropWhile isdigit (tl name) in
      if rest = tl name \<or> chr_at rest \<noteq> CHR ''_'' then False
      else let after = dropWhile isdigit (tl rest) in
      if after = tl rest then False
      else case skip_fork after of
        None \<Rightarrow> False
      | Some after \<Rightarrow>
          (case skip_segment after of
             None \<Rightarrow> False
           | Some after \<Rightarrow> if chr_at after \<noteq> CHR 0x00 then False else True))"

section \<open>Lemmas on decimal numbers\<close>

lemma digit_simps [simp]:
  assumes "d < 10"
  shows "isdigit (digit d)" "digit_value (digit d) = d"
  using assms by (simp_all add: digit_def isdigit_def digit_value_def)

lemma digit_eval:
  "digit 0 = CHR ''0''" "digit 1 = CHR ''1''" "digit 2 = CHR ''2''" "digit 3 = CHR ''3''" "digit 4 = CHR ''4''"
  "digit 5 = CHR ''5''" "digit 6 = CHR ''6''" "digit 7 = CHR ''7''" "digit 8 = CHR ''8''" "digit 9 = CHR ''9''"
  "digit (Suc 0) = CHR ''1''"
  by code_simp+

lemma digit_digit_value: "isdigit c \<Longrightarrow> digit (digit_value c) = c \<and> digit_value c < 10"
  by (auto simp: isdigit_def digit_def digit_value_def)

lemma fmt_u_digits: "\<forall>c \<in> set (fmt_u n). isdigit c"
  by (induction n rule: fmt_u.induct) (subst fmt_u.simps, auto)

lemma fmt_u_nonempty [simp]: "fmt_u n \<noteq> []"
  by (subst fmt_u.simps) simp

lemma digits_value_append [simp]: "digits_value (ds @ [c]) = 10 * digits_value ds + digit_value c"
  by (simp add: digits_value_def)

lemma digits_value_fmt_u [simp]: "digits_value (fmt_u n) = n"
proof (induction n rule: fmt_u.induct)
  case (1 n)
  show ?case
  proof (cases "n < 10")
    case True
    then show ?thesis by (subst fmt_u.simps) (simp add: digits_value_def)
  next
    case False
    with 1 show ?thesis by (subst fmt_u.simps) simp
  qed
qed

lemma fmt_u_inject [simp]: "fmt_u m = fmt_u n \<longleftrightarrow> m = n"
  using digits_value_fmt_u by metis

lemma fmt_u_hd: "0 < n \<Longrightarrow> nonzero_digit (hd (fmt_u n))"
proof (induction n rule: fmt_u.induct)
  case (1 n)
  then show ?case by (subst fmt_u.simps) (auto simp: nonzero_digit_def digit_def)
qed

lemma digits_value_pos: "ds \<noteq> [] \<Longrightarrow> nonzero_digit (hd ds) \<Longrightarrow> \<forall>c \<in> set ds. isdigit c \<Longrightarrow> 0 < digits_value ds"
proof (induction ds rule: rev_induct)
  case (snoc c ds)
  then show ?case by (cases "ds = []") (auto simp: digits_value_def digit_value_def nonzero_digit_def)
qed simp

lemma fmt_u_digits_value: "ds \<noteq> [] \<Longrightarrow> nonzero_digit (hd ds) \<Longrightarrow> \<forall>c \<in> set ds. isdigit c \<Longrightarrow> fmt_u (digits_value ds) = ds"
proof (induction ds rule: rev_induct)
  case (snoc c ds)
  have c: "digit (digit_value c) = c" "digit_value c < 10" using snoc.prems(3) digit_digit_value [of c] by simp_all
  show ?case
  proof (cases "ds = []")
    case True
    with c show ?thesis by (subst fmt_u.simps) (simp add: digits_value_def)
  next
    case False
    hence "0 < digits_value ds" "fmt_u (digits_value ds) = ds"
      using snoc digits_value_pos [of ds] by auto
    with c show ?thesis by (subst fmt_u.simps) simp
  qed
qed simp

lemma takeWhile_digits:
  assumes "\<forall>c \<in> set ds. isdigit c" and "\<not> isdigit (chr_at rest)"
  shows "takeWhile isdigit (ds @ rest) = ds" "dropWhile isdigit (ds @ rest) = rest"
  using assms by (auto simp: takeWhile_append dropWhile_append chr_at_def split: list.splits)

lemma fmt_u_length: "n < 10 ^ Suc k \<Longrightarrow> length (fmt_u n) \<le> Suc k"
proof (induction n arbitrary: k rule: fmt_u.induct)
  case (1 n)
  show ?case
  proof (cases "n < 10")
    case True
    then show ?thesis by (subst fmt_u.simps) simp
  next
    case False
    with "1.prems" obtain j where j: "k = Suc j" by (cases k) auto
    have "n div 10 < 10 ^ Suc j" using "1.prems" j by (simp add: less_mult_imp_div_less)
    with "1.IH" [OF False] j False show ?thesis by (subst fmt_u.simps) simp
  qed
qed

lemma fmt_oid_length: "length (fmt_oid oid) \<le> OIDCHARS"
  using fmt_u_length [of "unat oid" 9] unsigned_less [of oid, where 'a = nat] by (simp add: fmt_oid_def OIDCHARS_def)

lemma fmt_oid_inject [simp]: "fmt_oid a = fmt_oid b \<longleftrightarrow> a = b"
  by (simp add: fmt_oid_def word_unat_eq_iff)

lemma fmt_d_inject [simp]: "fmt_d i = fmt_d j \<longleftrightarrow> i = j"
proof -
  have minus: "CHR ''-'' \<notin> set (fmt_u n)" for n using fmt_u_digits [of n] by (auto simp: isdigit_def)
  have "CHR ''-'' # x \<noteq> fmt_u n" for x n using minus [of n] by (metis list.set_intros(1))
  then show ?thesis by (auto simp: fmt_d_def dest: sym)
qed

section \<open>Lemmas on names and paths\<close>

text \<open>The name of the file of one segment of a fork: the last component of its path.\<close>

definition fork_suffix :: "ForkNumber \<Rightarrow> string" where
  "fork_suffix f = (if f = MAIN_FORKNUM then [] else ''_'' @ (case forkNames f of Some name \<Rightarrow> name | None \<Rightarrow> []))"

definition segment_suffix :: "u32 \<Rightarrow> string" where
  "segment_suffix seg = (if seg > 0 then ''.'' @ fmt_u (unat seg) else [])"

definition proc_prefix :: "int \<Rightarrow> string" where
  "proc_prefix procNumber = (if procNumber = INVALID_PROC_NUMBER then [] else ''t'' @ fmt_d procNumber @ ''_'')"

text \<open>
  The path is the directory, then the name; a temporary relation of a shared tablespace does not
  exist, and the code asserts so.
\<close>

lemma GetRelationPath_eq:
  assumes "f \<noteq> InvalidForkNumber" and "spc = GLOBALTABLESPACE_OID \<Longrightarrow> proc = INVALID_PROC_NUMBER"
  shows "GetRelationPath db spc rel proc f =
    Some (GetDatabasePath db spc @ ''/'' @ proc_prefix proc @ fmt_oid rel @ fork_suffix f)"
  using assms by (cases f) (auto simp: GetRelationPath_def GetDatabasePath_def proc_prefix_def fork_suffix_def)

lemma sep_inject:
  assumes "a @ c # x = b @ c # y" and "c \<notin> set a" and "c \<notin> set b"
  shows "a = b" "x = y"
proof -
  have "a = b \<and> x = y" using assms
  proof (induction a arbitrary: b)
    case Nil
    then show ?case by (cases b) auto
  next
    case (Cons z a)
    then show ?case by (cases b) auto
  qed
  then show "a = b" "x = y" by simp_all
qed

lemma digit_string_free:
  "\<not> isdigit c \<Longrightarrow> c \<notin> set (fmt_u n)" "\<not> isdigit c \<Longrightarrow> c \<notin> set (fmt_oid oid)"
  using fmt_u_digits by (auto simp: fmt_oid_def)

lemma not_isdigit [simp]:
  "\<not> isdigit CHR ''_''" "\<not> isdigit CHR ''/''" "\<not> isdigit CHR ''.''" "\<not> isdigit CHR ''t''" "\<not> isdigit CHR ''-''" "\<not> isdigit CHR 0x00"
  by (simp_all add: isdigit_def)

lemma digits_split:
  assumes "fmt_u m @ x = fmt_u n @ y" and "\<not> isdigit (chr_at x)" and "\<not> isdigit (chr_at y)"
  shows "m = n" "x = y"
proof -
  have "fmt_u m = fmt_u n" "x = y"
    using takeWhile_digits [OF fmt_u_digits assms(2), of m] takeWhile_digits [OF fmt_u_digits assms(3), of n] assms(1)
    by simp_all
  then show "m = n" "x = y" by simp_all
qed

lemma chr_at_suffix [simp]:
  "chr_at [] = CHR 0x00" "chr_at (c # x) = c"
  "chr_at (segment_suffix seg) = (if seg > 0 then CHR ''.'' else CHR 0x00)"
  "chr_at (fork_suffix f @ x) = (if f = MAIN_FORKNUM then chr_at x else CHR ''_'')"
  "chr_at (fork_suffix f) = (if f = MAIN_FORKNUM then CHR 0x00 else CHR ''_'')"
  by (auto simp: chr_at_def segment_suffix_def fork_suffix_def)

lemma fork_suffix_inject:
  "f \<noteq> InvalidForkNumber \<Longrightarrow> g \<noteq> InvalidForkNumber \<Longrightarrow> fork_suffix f = fork_suffix g \<longleftrightarrow> f = g"
  by (cases f; cases g) (simp_all add: fork_suffix_def)

lemma chr_at_fmt: "isdigit (chr_at (fmt_u n @ x))"
  using fmt_u_digits [of n] by (cases "fmt_u n") auto

lemma name_inject:
  assumes "proc_prefix p @ fmt_oid rel @ fork_suffix f = proc_prefix q @ fmt_oid rel' @ fork_suffix g"
    and "f \<noteq> InvalidForkNumber" and "g \<noteq> InvalidForkNumber"
  shows "p = q" "rel = rel'" "f = g"
proof -
  have first: "chr_at (proc_prefix p @ fmt_oid rel @ x) = CHR ''t'' \<longleftrightarrow> p \<noteq> INVALID_PROC_NUMBER" for p rel x
    using chr_at_fmt [of "unat rel" x] not_isdigit by (auto simp: proc_prefix_def fmt_oid_def)
  have "p = q"
  proof (cases "p = INVALID_PROC_NUMBER \<or> q = INVALID_PROC_NUMBER")
    case True
    with assms(1) first [of p rel "fork_suffix f"] first [of q rel' "fork_suffix g"] show ?thesis by auto
  next
    case False
    have "CHR ''_'' \<notin> set (fmt_d i)" for i using digit_string_free(1) [of "CHR ''_''"] by (auto simp: fmt_d_def)
    with False sep_inject(1) [of "fmt_d p" "CHR ''_''" _ "fmt_d q"] assms(1) show ?thesis by (simp add: proc_prefix_def)
  qed
  moreover from this assms(1) have "fmt_oid rel @ fork_suffix f = fmt_oid rel' @ fork_suffix g" by simp
  hence "unat rel = unat rel' \<and> fork_suffix f = fork_suffix g"
    using digits_split [of "unat rel" "fork_suffix f" "unat rel'" "fork_suffix g"] by (auto simp: fmt_oid_def)
  ultimately show "p = q" "rel = rel'" "f = g" using assms(2,3) by (simp_all add: fork_suffix_inject word_unat_eq_iff)
qed

lemma database_path_inject:
  assumes "GetDatabasePath db spc @ ''/'' @ x = GetDatabasePath db' spc' @ ''/'' @ y"
    and "spc = GLOBALTABLESPACE_OID \<Longrightarrow> db = 0" and "spc' = GLOBALTABLESPACE_OID \<Longrightarrow> db' = 0"
  shows "spc = spc'" "db = db'" "x = y"
proof -
  have sep: "a = b \<and> u = v" if "fmt_oid a @ CHR ''/'' # u = fmt_oid b @ CHR ''/'' # v" for a b u v
    using sep_inject [OF that digit_string_free(2) digit_string_free(2)] by simp

  note defs = GetDatabasePath_def PG_TBLSPC_DIR_def GLOBALTABLESPACE_OID_def DEFAULTTABLESPACE_OID_def
  consider "spc = GLOBALTABLESPACE_OID" | "spc = DEFAULTTABLESPACE_OID" | "spc \<noteq> GLOBALTABLESPACE_OID" "spc \<noteq> DEFAULTTABLESPACE_OID"
    by blast
  hence "spc = spc' \<and> db = db' \<and> x = y"
  proof cases
    case 1
    then show ?thesis using assms by (auto simp: defs split: if_splits)
  next
    case 2
    hence "spc' = DEFAULTTABLESPACE_OID" using assms(1) by (simp add: defs split: if_splits)
    with 2 assms(1) sep [of db x db' y] show ?thesis by (simp add: defs)
  next
    case 3
    hence "spc' \<noteq> GLOBALTABLESPACE_OID \<and> spc' \<noteq> DEFAULTTABLESPACE_OID" using assms(1) by (simp add: defs split: if_splits)
    hence eq: "fmt_oid spc @ CHR ''/'' # TABLESPACE_VERSION_DIRECTORY @ CHR ''/'' # fmt_oid db @ CHR ''/'' # x =
        fmt_oid spc' @ CHR ''/'' # TABLESPACE_VERSION_DIRECTORY @ CHR ''/'' # fmt_oid db' @ CHR ''/'' # y"
      using 3 assms(1) by (simp add: defs)
    hence "fmt_oid db @ CHR ''/'' # x = fmt_oid db' @ CHR ''/'' # y" using sep [OF eq] by simp
    with sep [OF eq] sep [OF this] show ?thesis by simp
  qed
  then show "spc = spc'" "db = db'" "x = y" by simp_all
qed

section \<open>Lemmas on parsing\<close>

lemma strtoul_fmt: "n < 2 ^ 64 \<Longrightarrow> \<not> isdigit (chr_at rest) \<Longrightarrow> strtoul (fmt_u n @ rest) = (False, n, rest)"
  by (simp add: strtoul_def takeWhile_digits [OF fmt_u_digits])

lemma parse_number_fmt:
  assumes "0 < n" and "n < 2 ^ 32" and "\<not> isdigit (chr_at rest)"
  shows "parse_number (fmt_u n @ rest) = Some (n, rest)"
proof -
  have "nonzero_digit (chr_at (fmt_u n @ rest))" using fmt_u_hd [OF assms(1)] by (cases "fmt_u n") auto
  with assms show ?thesis by (simp add: parse_number_def strtoul_fmt)
qed

lemma parse_number_SomeD:
  assumes "parse_number name = Some (n, rest)"
  shows "0 < n" "n < 2 ^ 32" "name = fmt_u n @ rest" "\<not> isdigit (chr_at rest)"
proof -
  let ?ds = "takeWhile isdigit name"
  have nz: "nonzero_digit (chr_at name)" and n: "n = digits_value ?ds" "rest = dropWhile isdigit name" "0 < n" "n < 2 ^ 32"
    using assms by (auto simp: parse_number_def strtoul_def Let_def split: if_splits)
  have "isdigit (chr_at name)" using nz by (simp add: nonzero_digit_def isdigit_def)
  hence "?ds \<noteq> []" "hd ?ds = chr_at name" by (cases name; simp)+
  hence "fmt_u n = ?ds" using fmt_u_digits_value [of ?ds] nz n(1) by (auto dest: set_takeWhileD)
  then show "name = fmt_u n @ rest" using n(2) by simp
  show "\<not> isdigit (chr_at rest)"
    using n(2) dropWhile_eq_Cons_conv [of isdigit name] by (cases rest) (auto simp: eq_commute [of "_ # _"])
qed (use assms in \<open>auto simp: parse_number_def strtoul_def Let_def split: if_splits\<close>)

lemma forkname_chars_suffix:
  "f \<noteq> InvalidForkNumber \<Longrightarrow> f \<noteq> MAIN_FORKNUM \<Longrightarrow> \<exists>name. forkNames f = Some name \<and> name \<noteq> [] \<and> forkname_chars (name @ x) = (length name, f)"
  by (cases f) (simp_all add: forkname_chars_def forks_from_1_def)

lemma forkname_charsD:
  assumes "forkname_chars str = (k, f)" and "0 < k"
  shows "f \<noteq> InvalidForkNumber" "f \<noteq> MAIN_FORKNUM" "\<exists>name. forkNames f = Some name \<and> length name = k \<and> str = name @ drop k str"
proof -
  have "f \<noteq> InvalidForkNumber \<and> f \<noteq> MAIN_FORKNUM \<and> (\<exists>name. forkNames f = Some name \<and> length name = k \<and> take k str = name)"
    using assms by (auto simp: forkname_chars_def forks_from_1_def split: if_splits dest: arg_cong [of _ _ length])
  then show "f \<noteq> InvalidForkNumber" "f \<noteq> MAIN_FORKNUM" "\<exists>name. forkNames f = Some name \<and> length name = k \<and> str = name @ drop k str"
    by (auto simp del: take_eq_Nil)
qed

lemma parse_fork_suffix:
  assumes "f \<noteq> InvalidForkNumber" and "chr_at x \<noteq> CHR ''_''"
  shows "parse_fork (fork_suffix f @ x) = Some (f, x)"
proof (cases "f = MAIN_FORKNUM")
  case True
  with assms show ?thesis by (simp add: parse_fork_def fork_suffix_def)
next
  case False
  obtain name where name: "forkNames f = Some name" "name \<noteq> []" "forkname_chars (name @ x) = (length name, f)"
    using forkname_chars_suffix [OF assms(1) False, of x] by blast
  with False show ?thesis by (simp add: parse_fork_def fork_suffix_def)
qed

lemma parse_fork_SomeD:
  assumes "parse_fork str = Some (f, rest)"
  shows "f \<noteq> InvalidForkNumber" "str = fork_suffix f @ rest"
proof -
  have "f \<noteq> InvalidForkNumber \<and> str = fork_suffix f @ rest"
  proof (cases "chr_at str = CHR ''_''")
    case False
    with assms show ?thesis by (auto simp: parse_fork_def fork_suffix_def)
  next
    case True
    then obtain str' where str: "str = CHR ''_'' # str'" by (cases str) auto
    obtain k g where k: "forkname_chars str' = (k, g)" by fastforce
    with assms str have "0 < k" "f = g" "rest = drop k str'" by (auto simp: parse_fork_def split: if_splits)
    with forkname_charsD [OF k] str show ?thesis by (auto simp: fork_suffix_def)
  qed
  then show "f \<noteq> InvalidForkNumber" "str = fork_suffix f @ rest" by simp_all
qed

lemma parse_segment_suffix: "parse_segment (segment_suffix seg) = Some (unat seg, [])"
  using parse_number_fmt [of "unat seg" "[]"] unsigned_less [of seg, where 'a = nat]
  by (auto simp: parse_segment_def segment_suffix_def word_gt_0 unat_gt_0)

lemma parse_segment_SomeD:
  assumes "parse_segment str = Some (n, rest)" and "chr_at rest = CHR 0x00" and "CHR 0x00 \<notin> set str"
  shows "str = segment_suffix (of_nat n)" "n < 2 ^ 32"
proof -
  have "str = segment_suffix (of_nat n) \<and> n < 2 ^ 32"
  proof (cases "chr_at str = CHR ''.''")
    case False
    with assms show ?thesis by (cases rest) (auto simp: parse_segment_def segment_suffix_def)
  next
    case True
    then obtain str' where str: "str = CHR ''.'' # str'" by (cases str) auto
    hence p: "parse_number str' = Some (n, rest)" using assms(1) by (simp add: parse_segment_def)
    have "rest = []" using assms(2,3) parse_number_SomeD(3) [OF p] str by (cases rest) auto
    moreover have "(0 :: u32) < of_nat n" using parse_number_SomeD(1,2) [OF p] by (simp add: word_less_nat_alt unat_of_nat32)
    ultimately show ?thesis using str parse_number_SomeD [OF p] by (simp add: segment_suffix_def unat_of_nat32)
  qed
  then show "str = segment_suffix (of_nat n)" "n < 2 ^ 32" by simp_all
qed

lemma parse_name:
  assumes "rel \<noteq> 0" and "f \<noteq> InvalidForkNumber"
  shows "parse_filename_for_nontemp_relation (fmt_oid rel @ fork_suffix f @ segment_suffix seg) = Some (rel, f, seg)"
proof -
  have "0 < unat rel" "unat rel < 2 ^ 32"
    using assms(1) unsigned_less [of rel, where 'a = nat] by (simp_all add: unat_gt_0)
  hence "parse_number (fmt_oid rel @ fork_suffix f @ segment_suffix seg) = Some (unat rel, fork_suffix f @ segment_suffix seg)"
    unfolding fmt_oid_def by (intro parse_number_fmt) auto
  moreover have "parse_fork (fork_suffix f @ segment_suffix seg) = Some (f, segment_suffix seg)"
    using assms(2) by (intro parse_fork_suffix) auto
  ultimately show ?thesis
    by (simp add: parse_filename_for_nontemp_relation_def parse_segment_suffix)
qed

lemma temp_fork_suffix: "f \<noteq> InvalidForkNumber \<Longrightarrow> skip_fork (fork_suffix f) = Some []"
  by (cases f) (simp_all add: skip_fork_def fork_suffix_def forkname_chars_def forks_from_1_def)

section \<open>Properties\<close>

text \<open>
  C31: the fixed buffer is long enough. For every relation, every valid fork and every process number
  of a backend, or none, the path is defined and no longer than the buffer
  \<^verbatim>\<open>RelPathStr\<close> has room for, and one path fills it exactly.
\<close>

theorem GetRelationPath_fits:
  assumes "f \<noteq> InvalidForkNumber" and "proc = INVALID_PROC_NUMBER \<or> 0 \<le> proc \<and> proc < MAX_BACKENDS"
  shows "(\<exists>p. GetRelationPath db spc rel proc f = Some p \<and> length p \<le> REL_PATH_STR_MAXLEN) \<and>
    map_option length (GetRelationPath (- 1) (- 1) (- 1) (MAX_BACKENDS - 1) INIT_FORKNUM) = Some REL_PATH_STR_MAXLEN"
proof
  have proc: "length (fmt_d proc) \<le> 6" if "proc \<noteq> INVALID_PROC_NUMBER"
    using assms(2) that fmt_u_length [of "nat proc" 5] by (auto simp: fmt_d_def MAX_BACKENDS_def nat_less_iff)
  have oid: "length (fmt_oid oid) \<le> 10" for oid using fmt_oid_length [of oid] by (simp add: OIDCHARS_def)
  note defs = REL_PATH_STR_MAXLEN_def OIDCHARS_def FORKNAMECHARS_def PROCNUMBER_CHARS_def PG_TBLSPC_DIR_def TABLESPACE_VERSION_DIRECTORY_def
  have fork: "length (fork_suffix f) \<le> 5" using assms(1) by (cases f) (simp_all add: fork_suffix_def)
  have name: "\<exists>name. forkNames f = Some name \<and> length name \<le> 4" using assms(1) by (cases f) simp_all
  show "\<exists>p. GetRelationPath db spc rel proc f = Some p \<and> length p \<le> REL_PATH_STR_MAXLEN"
    using name proc oid [of db] oid [of spc] oid [of rel] by (auto simp: GetRelationPath_def defs)
  show "map_option length (GetRelationPath (- 1) (- 1) (- 1) (MAX_BACKENDS - 1) INIT_FORKNUM) = Some REL_PATH_STR_MAXLEN"
    by (simp add: GetRelationPath_def defs GLOBALTABLESPACE_OID_def DEFAULTTABLESPACE_OID_def MAX_BACKENDS_def
        INVALID_PROC_NUMBER_def fmt_d_def fmt_oid_def fmt_u.simps unsigned_minus_1_eq_mask mask_eq_exp_minus_1)
qed

theorem GetRelationPath_fits_witness:
  "FSM_FORKNUM \<noteq> InvalidForkNumber \<and> (3 :: int) < MAX_BACKENDS \<and>
   (\<exists>p. GetRelationPath 5 1663 16384 3 FSM_FORKNUM = Some p \<and> length p \<le> REL_PATH_STR_MAXLEN)"
  using GetRelationPath_fits [of FSM_FORKNUM 3 5 1663 16384] by (simp add: MAX_BACKENDS_def)

text \<open>
  C32: no two forks share a file. Two locators with the same path agree in tablespace, database,
  relation, backend and fork, as long as the assertions on shared relations hold for both.
\<close>

theorem GetRelationPath_inject:
  assumes "GetRelationPath db spc rel proc f = GetRelationPath db' spc' rel' proc' f'"
    and "f \<noteq> InvalidForkNumber" and "f' \<noteq> InvalidForkNumber"
    and "spc = GLOBALTABLESPACE_OID \<Longrightarrow> db = 0 \<and> proc = INVALID_PROC_NUMBER"
    and "spc' = GLOBALTABLESPACE_OID \<Longrightarrow> db' = 0 \<and> proc' = INVALID_PROC_NUMBER"
  shows "db = db' \<and> spc = spc' \<and> rel = rel' \<and> proc = proc' \<and> f = f'"
proof -
  have eq: "GetDatabasePath db spc @ ''/'' @ proc_prefix proc @ fmt_oid rel @ fork_suffix f =
      GetDatabasePath db' spc' @ ''/'' @ proc_prefix proc' @ fmt_oid rel' @ fork_suffix f'"
    using assms GetRelationPath_eq [of f spc proc db rel] GetRelationPath_eq [of f' spc' proc' db' rel'] by simp
  note d = database_path_inject [OF eq]
  show ?thesis using d(1,2) name_inject [OF d(3) assms(2,3)] assms(4,5) by simp
qed

theorem GetRelationPath_inject_witness:
  "(1663 :: Oid) \<noteq> GLOBALTABLESPACE_OID \<and> GetRelationPath 5 1663 16384 (- 1) MAIN_FORKNUM \<noteq> GetRelationPath 5 1663 16384 3 MAIN_FORKNUM"
  using GetRelationPath_inject [of 5 1663 16384 "- 1" MAIN_FORKNUM 5 1663 16384 3 MAIN_FORKNUM]
  by (auto simp: GLOBALTABLESPACE_OID_def)

text \<open>
  C33: printing and parsing a file name. The path of a permanent relation's fork is the database
  directory followed by a name, and the parser takes that name, with the suffix of any segment, back
  to the relation, the fork and the segment it was made from.
\<close>

theorem parse_relation_path:
  assumes "f \<noteq> InvalidForkNumber" and "rel \<noteq> 0"
  shows "\<exists>name. GetRelationPath db spc rel INVALID_PROC_NUMBER f = Some (GetDatabasePath db spc @ ''/'' @ name) \<and>
    parse_filename_for_nontemp_relation (name @ (if seg > 0 then ''.'' @ fmt_u (unat seg) else [])) = Some (rel, f, seg)"
  using GetRelationPath_eq [OF assms(1), of spc INVALID_PROC_NUMBER db rel] parse_name [OF assms(2,1), of seg]
  by (simp add: proc_prefix_def segment_suffix_def)

theorem parse_relation_path_witness:
  "VISIBILITYMAP_FORKNUM \<noteq> InvalidForkNumber \<and> (16384 :: Oid) \<noteq> 0 \<and>
   parse_filename_for_nontemp_relation ''16384_vm.7'' = Some (16384, VISIBILITYMAP_FORKNUM, 7)"
proof -
  have path: "GetRelationPath 5 1663 16384 INVALID_PROC_NUMBER VISIBILITYMAP_FORKNUM = Some (GetDatabasePath 5 1663 @ ''/'' @ ''16384_vm'')"
    by (simp add: GetRelationPath_def GetDatabasePath_def fmt_oid_def fmt_u.simps digit_eval GLOBALTABLESPACE_OID_def DEFAULTTABLESPACE_OID_def)
  moreover have "fmt_u (unat (7 :: u32)) = ''7''" by (simp add: fmt_u.simps digit_eval)
  ultimately show ?thesis
    using parse_relation_path [of VISIBILITYMAP_FORKNUM 16384 5 1663 7] by auto
qed

text \<open>
  C34: only one name for each file. A name the parser accepts is the one the code prints for its
  result: no leading zeroes, no out-of-range number and nothing after the segment.
\<close>

theorem parse_filename_unique:
  assumes "parse_filename_for_nontemp_relation name = Some (rel, f, seg)" and "CHR 0x00 \<notin> set name"
  shows "rel \<noteq> 0 \<and> f \<noteq> InvalidForkNumber \<and>
    (\<forall>db spc. GetRelationPath db spc rel INVALID_PROC_NUMBER f =
       Some (GetDatabasePath db spc @ ''/'' @ take (length name - length (segment_suffix seg)) name)) \<and>
    name = take (length name - length (segment_suffix seg)) name @ (if seg > 0 then ''.'' @ fmt_u (unat seg) else [])"
proof -
  obtain n x y z s where p: "parse_number name = Some (n, x)" "parse_fork x = Some (f, y)" "parse_segment y = Some (s, z)"
    "chr_at z = CHR 0x00" "rel = of_nat n" "seg = of_nat s"
    using assms(1) by (auto simp: parse_filename_for_nontemp_relation_def split: option.splits if_splits)
  note n = parse_number_SomeD [OF p(1)] and f = parse_fork_SomeD [OF p(2)]
  have "CHR 0x00 \<notin> set y" using assms(2) n(3) f(2) by auto
  note s = parse_segment_SomeD [OF p(3,4) this]
  have name: "name = (fmt_oid rel @ fork_suffix f) @ segment_suffix seg"
    using n f s p(5,6) by (simp add: fmt_oid_def unat_of_nat32)
  have "rel \<noteq> 0" using n(1,2) p(5) unat_of_nat32 [of n] by auto
  moreover have "take (length name - length (segment_suffix seg)) name = fmt_oid rel @ fork_suffix f" unfolding name by simp
  ultimately show ?thesis
    using f(1) name GetRelationPath_eq [of f _ INVALID_PROC_NUMBER _ rel] by (simp add: proc_prefix_def segment_suffix_def)
qed

theorem parse_filename_unique_witness:
  "parse_filename_for_nontemp_relation ''17_fsm'' = Some (17, FSM_FORKNUM, 0) \<and> CHR 0x00 \<notin> set ''17_fsm'' \<and>
   FSM_FORKNUM \<noteq> InvalidForkNumber"
proof -
  have "parse_filename_for_nontemp_relation ''17_fsm'' = Some (17, FSM_FORKNUM, 0)"
    by (simp add: parse_filename_for_nontemp_relation_def parse_number_def strtoul_def digits_value_def digit_value_def isdigit_def
        nonzero_digit_def parse_fork_def parse_segment_def forkname_chars_def forks_from_1_def)
  with parse_filename_unique [of "''17_fsm''" 17 FSM_FORKNUM 0] show ?thesis by simp
qed

text \<open>
  C35: the files of temporary and of permanent relations are told apart. The name of a temporary
  relation's fork is recognised as one and is no permanent relation's, and a name that parses as a
  permanent relation's is not taken for a temporary one.
\<close>

theorem temp_rel_names:
  assumes "f \<noteq> InvalidForkNumber" and "0 \<le> proc" and "spc \<noteq> GLOBALTABLESPACE_OID"
  shows "(\<exists>name. GetRelationPath db spc rel proc f = Some (GetDatabasePath db spc @ ''/'' @ name) \<and>
      looks_like_temp_rel_name name \<and> parse_filename_for_nontemp_relation name = None) \<and>
    (parse_filename_for_nontemp_relation file \<noteq> None \<longrightarrow> \<not> looks_like_temp_rel_name file)"
proof
  let ?name = "proc_prefix proc @ fmt_oid rel @ fork_suffix f"
  have dropd: "dropWhile isdigit (fmt_d proc @ CHR ''_'' # x) = CHR ''_'' # x" "fmt_d proc \<noteq> []" for x
    using assms(2) takeWhile_digits(2) [OF fmt_u_digits, of "CHR ''_'' # x" "nat proc"] by (simp_all add: fmt_d_def)
  have dropo: "dropWhile isdigit (fmt_oid rel @ fork_suffix f) = fork_suffix f" "fmt_oid rel \<noteq> []"
    using takeWhile_digits(2) [OF fmt_u_digits, of "fork_suffix f" "unat rel"] by (simp_all add: fmt_oid_def)
  have name: "?name = CHR ''t'' # fmt_d proc @ CHR ''_'' # fmt_oid rel @ fork_suffix f"
    using assms(2) by (simp add: proc_prefix_def INVALID_PROC_NUMBER_def)
  have "looks_like_temp_rel_name ?name"
    unfolding name looks_like_temp_rel_name_def
    by (simp add: Let_def dropd dropo temp_fork_suffix [OF assms(1)] skip_segment_def)
  moreover have "parse_filename_for_nontemp_relation ?name = None"
    unfolding name by (simp add: parse_filename_for_nontemp_relation_def parse_number_def nonzero_digit_def)
  ultimately show "\<exists>name. GetRelationPath db spc rel proc f = Some (GetDatabasePath db spc @ ''/'' @ name) \<and>
      looks_like_temp_rel_name name \<and> parse_filename_for_nontemp_relation name = None"
    using GetRelationPath_eq [OF assms(1), of spc proc db rel] assms(3) by blast
  show "parse_filename_for_nontemp_relation file \<noteq> None \<longrightarrow> \<not> looks_like_temp_rel_name file"
  proof (cases "chr_at file = CHR ''t''")
    case True
    then show ?thesis by (simp add: parse_filename_for_nontemp_relation_def parse_number_def nonzero_digit_def)
  qed (simp add: looks_like_temp_rel_name_def)
qed

theorem temp_rel_names_witness:
  "MAIN_FORKNUM \<noteq> InvalidForkNumber \<and> (1663 :: Oid) \<noteq> GLOBALTABLESPACE_OID \<and>
   (\<exists>name. GetRelationPath 5 1663 16384 3 MAIN_FORKNUM = Some (GetDatabasePath 5 1663 @ ''/'' @ name) \<and> looks_like_temp_rel_name name)"
  using temp_rel_names [of MAIN_FORKNUM 3 1663 5 16384 "''t3_1''"] by (auto simp: GLOBALTABLESPACE_OID_def)

end
