(* ===== verification/MemSmgr_State.thy ===== *)
theory MemSmgr_State
  imports Hash_Scan Relpath
begin

text \<open>
  Data of the memory storage manager, src/src/backend/storage/smgr/memsmgr.c: locators, keys, entries
  of the fork and page tables, the arena of pages, and the environment the operations run in.
  Opening, reading and sizing seed files, environment variables, the allocator's answers and the disk
  storage manager \<^verbatim>\<open>md.c\<close> are arguments of the model, collected in \<open>mem_env\<close>.
\<close>

section \<open>Types\<close>

type_synonym BlockNumber = u32
type_synonym page = "u8 list"

definition BLCKSZ :: nat where "BLCKSZ = 8192"
definition RELSEG_SIZE :: nat where "RELSEG_SIZE = 131072"

definition zero_page :: page where "zero_page = replicate BLCKSZ 0"

definition MEMSMGR_SHARED_MAX_FORKS :: nat where "MEMSMGR_SHARED_MAX_FORKS = 8192"
definition MEMSMGR_SHARED_MAX_PAGES :: nat where "MEMSMGR_SHARED_MAX_PAGES = 262144"
definition MEMSMGR_SHARED_PARTITIONS :: nat where "MEMSMGR_SHARED_PARTITIONS = 32"
definition MEMSMGR_SHARED_FORKS_PER_PARTITION :: nat where
  "MEMSMGR_SHARED_FORKS_PER_PARTITION = (MEMSMGR_SHARED_MAX_FORKS + MEMSMGR_SHARED_PARTITIONS - 1) div MEMSMGR_SHARED_PARTITIONS"
definition MEMSMGR_SHARED_PAGES_PER_PARTITION :: nat where
  "MEMSMGR_SHARED_PAGES_PER_PARTITION = (MEMSMGR_SHARED_MAX_PAGES + MEMSMGR_SHARED_PARTITIONS - 1) div MEMSMGR_SHARED_PARTITIONS"
definition MEMSMGR_MAX_COMBINE :: nat where "MEMSMGR_MAX_COMBINE = 32"

record RelFileLocator =
  spcOid :: Oid
  dbOid :: Oid
  relNumber :: Oid

record RelFileLocatorBackend = RelFileLocator +
  backend :: int

record MemSmgrForkKey =
  rlocator :: RelFileLocatorBackend
  forknum :: ForkNumber

record MemSmgrPageKey = MemSmgrForkKey +
  blocknum :: BlockNumber

text \<open>The entries, without the keys they start with.\<close>

record MemSmgrForkEntry =
  exists :: bool
  on_disk :: bool
  nblocks :: BlockNumber

record MemSmgrPageEntry =
  page_index :: u32

text \<open>The tables, by the variable that points at them.\<close>

datatype htab_id = SharedFork nat | SharedPage nat | LocalFork | LocalPage

type_synonym fork_table = "(MemSmgrForkKey, MemSmgrForkEntry) HTAB"
type_synonym page_table = "(MemSmgrPageKey, MemSmgrPageEntry) HTAB"
type_synonym fork_ptr = "htab_id \<times> MemSmgrForkKey"
type_synonym page_ptr = "htab_id \<times> MemSmgrPageKey"

text \<open>The calls that a read through the asynchronous I/O interface makes, in order.\<close>

datatype aio_event =
    Aio_set_target RelFileLocatorBackend ForkNumber BlockNumber BlockNumber
  | Aio_register_callbacks | Hold_interrupts | Aio_defined | Aio_call_stage | Aio_staged
  | Aio_prepare_submit | Aio_process_completion int | Resume_interrupts

text \<open>
  The state: the variables of memsmgr.c, the locks this backend holds, its registered scans, and
  the state \<open>'m\<close> of the disk storage manager. \<open>page_data\<close> is the arena; it is a null
  pointer until \<open>arena_mapped\<close>.
\<close>

record 'm mem_state =
  MemSmgrState :: bool
  initialized :: bool
  arena_mapped :: bool
  next_page :: u32
  page_data :: "u32 \<Rightarrow> page"
  MemSmgrForkHashes :: "fork_table list"
  MemSmgrPageHashes :: "page_table list"
  MemSmgrLocalCxt :: bool
  LocalForkHash :: "fork_table option"
  LocalPageHash :: "page_table option"
  held_locks :: "nat list"
  scans :: "htab_id seq_scans"
  aio_trace :: "aio_event list"
  md :: 'm

datatype stat_result = Stat_size nat | Stat_ENOENT | Stat_error
datatype read_result = Open_failed | Read_failed | Read_bytes "u8 list"

record 'm md_ops =
  mdinit :: "('m, unit) pg"
  mdopen :: "RelFileLocatorBackend \<Rightarrow> ('m, unit) pg"
  mdclose :: "RelFileLocatorBackend \<Rightarrow> ForkNumber \<Rightarrow> ('m, unit) pg"
  mdcreate :: "RelFileLocatorBackend \<Rightarrow> ForkNumber \<Rightarrow> bool \<Rightarrow> ('m, unit) pg"
  mdexists :: "RelFileLocatorBackend \<Rightarrow> ForkNumber \<Rightarrow> ('m, bool) pg"
  mdunlink :: "RelFileLocatorBackend \<Rightarrow> ForkNumber \<Rightarrow> bool \<Rightarrow> ('m, unit) pg"
  mdextend :: "RelFileLocatorBackend \<Rightarrow> ForkNumber \<Rightarrow> BlockNumber \<Rightarrow> page \<Rightarrow> bool \<Rightarrow> ('m, unit) pg"
  mdzeroextend :: "RelFileLocatorBackend \<Rightarrow> ForkNumber \<Rightarrow> BlockNumber \<Rightarrow> int \<Rightarrow> bool \<Rightarrow> ('m, unit) pg"
  mdprefetch :: "RelFileLocatorBackend \<Rightarrow> ForkNumber \<Rightarrow> BlockNumber \<Rightarrow> int \<Rightarrow> ('m, bool) pg"
  mdmaxcombine :: "RelFileLocatorBackend \<Rightarrow> ForkNumber \<Rightarrow> BlockNumber \<Rightarrow> ('m, u32) pg"
  mdreadv :: "RelFileLocatorBackend \<Rightarrow> ForkNumber \<Rightarrow> BlockNumber \<Rightarrow> BlockNumber \<Rightarrow> ('m, page list) pg"
  mdstartreadv :: "RelFileLocatorBackend \<Rightarrow> ForkNumber \<Rightarrow> BlockNumber \<Rightarrow> BlockNumber \<Rightarrow> ('m, page list) pg"
  mdwritev :: "RelFileLocatorBackend \<Rightarrow> ForkNumber \<Rightarrow> BlockNumber \<Rightarrow> page list \<Rightarrow> bool \<Rightarrow> ('m, unit) pg"
  mdwriteback :: "RelFileLocatorBackend \<Rightarrow> ForkNumber \<Rightarrow> BlockNumber \<Rightarrow> BlockNumber \<Rightarrow> ('m, unit) pg"
  mdnblocks :: "RelFileLocatorBackend \<Rightarrow> ForkNumber \<Rightarrow> ('m, BlockNumber) pg"
  mdtruncate :: "RelFileLocatorBackend \<Rightarrow> ForkNumber \<Rightarrow> BlockNumber \<Rightarrow> BlockNumber \<Rightarrow> ('m, unit) pg"
  mdimmedsync :: "RelFileLocatorBackend \<Rightarrow> ForkNumber \<Rightarrow> ('m, unit) pg"
  mdregistersync :: "RelFileLocatorBackend \<Rightarrow> ForkNumber \<Rightarrow> ('m, unit) pg"
  mdfd :: "RelFileLocatorBackend \<Rightarrow> ForkNumber \<Rightarrow> BlockNumber \<Rightarrow> ('m, int \<times> u32) pg"

text \<open>
  The environment: the two environment variables, the postmaster flag, byte order and key
  alignment for the hash function, the file system, the nesting level of the transaction, the
  allocator's answers and the garbage in fresh entries of local tables, and \<^verbatim>\<open>md.c\<close>.
\<close>

record 'm mem_env =
  FASTPG_PGDATA_SEED :: "string option"
  PG_FASTFORK_SEED_DIR :: "string option"
  IsUnderPostmaster :: bool
  big_endian :: bool
  key_aligned :: bool
  stat_file :: "string \<Rightarrow> stat_result"
  read_file :: "string \<Rightarrow> nat \<Rightarrow> read_result"
  nest_level :: int
  mmap_fails :: bool
  local_fork_alloc :: "bool list"
  local_page_alloc :: "bool list"
  stale_fork :: MemSmgrForkEntry
  stale_page :: MemSmgrPageEntry
  md_ops :: "'m md_ops"

text \<open>A call into \<^verbatim>\<open>md.c\<close>.\<close>

definition md_call :: "('m, 'a) pg \<Rightarrow> ('m mem_state, 'a) pg" where
  "md_call m s = (case m (md s) of (r, d) \<Rightarrow> (r, s\<lparr>md := d\<rparr>))"

end
