(* ===== verification/MemSmgr.thy ===== *)
theory MemSmgr
  imports MemSmgr_State
begin

text \<open>
  The operations of the memory storage manager, src/src/backend/storage/smgr/memsmgr.c, helper
  functions before the functions that call them. Relation forks are found in a hash table, their
  blocks in another one that names a page of the arena. Tables of permanent relations are shared and
  split into 32 partitions, each with its lock; temporary relations use two tables of the backend.
  Blocks that were never written come from a seed directory, read on demand.

  A pointer to a table entry is the table and the key; following it looks the key up, and a key
  that is gone is \<open>Undefined\<close>. An operation holds the lock of its partition from its first to
  its last access to the tables, so each is one step.
\<close>

section \<open>Environment, keys and partitions\<close>

definition mem_seed_root :: "'m mem_env \<Rightarrow> string option" where
  "mem_seed_root env =
     (let seed_root = FASTPG_PGDATA_SEED env;
          seed_root = (if seed_root = None \<or> seed_root = Some [] then PG_FASTFORK_SEED_DIR env else seed_root)
      in if seed_root = None \<or> seed_root = Some [] then None else seed_root)"

definition mem_use_md :: "'m mem_env \<Rightarrow> bool" where
  "mem_use_md env \<longleftrightarrow> mem_seed_root env = None"

definition mem_key_is_temp :: "RelFileLocatorBackend \<Rightarrow> bool" where
  "mem_key_is_temp rl \<longleftrightarrow> backend rl \<noteq> INVALID_PROC_NUMBER"

definition mem_shared_partition_for :: "RelFileLocatorBackend \<Rightarrow> nat" where
  "mem_shared_partition_for rl =
     (let hash = hash_bytes_uint32 (relNumber rl);
          hash = hash_combine hash (hash_bytes_uint32 (dbOid rl));
          hash = hash_combine hash (hash_bytes_uint32 (spcOid rl));
          hash = hash_combine hash (hash_bytes_uint32 (of_int (backend rl)))
      in unat hash mod MEMSMGR_SHARED_PARTITIONS)"

definition mem_build_fork_key :: "RelFileLocatorBackend \<Rightarrow> ForkNumber \<Rightarrow> MemSmgrForkKey" where
  "mem_build_fork_key rl fork = \<lparr>rlocator = rl, forknum = fork\<rparr>"

definition mem_build_page_key :: "RelFileLocatorBackend \<Rightarrow> ForkNumber \<Rightarrow> BlockNumber \<Rightarrow> MemSmgrPageKey" where
  "mem_build_page_key rl fork blk = \<lparr>rlocator = rl, forknum = fork, blocknum = blk\<rparr>"

text \<open>The bytes of the keys, as the hash function reads them; enums are 32-bit integers.\<close>

fun fork_code :: "ForkNumber \<Rightarrow> u32" where
  "fork_code InvalidForkNumber = - 1"
| "fork_code MAIN_FORKNUM = 0"
| "fork_code FSM_FORKNUM = 1"
| "fork_code VISIBILITYMAP_FORKNUM = 2"
| "fork_code INIT_FORKNUM = 3"

definition fork_key_bytes :: "bool \<Rightarrow> 'x MemSmgrForkKey_scheme \<Rightarrow> u8 list" where
  "fork_key_bytes be k =
     concat (map (store32 be) [spcOid (rlocator k), dbOid (rlocator k), relNumber (rlocator k), of_int (backend (rlocator k)),
       fork_code (forknum k)])"

definition page_key_bytes :: "bool \<Rightarrow> MemSmgrPageKey \<Rightarrow> u8 list" where
  "page_key_bytes be k = fork_key_bytes be k @ store32 be (blocknum k)"

definition fork_key_hash :: "'m mem_env \<Rightarrow> MemSmgrForkKey \<Rightarrow> u32" where
  "fork_key_hash env = blob_hash (big_endian env) (key_aligned env) 20 (fork_key_bytes (big_endian env))"

definition page_key_hash :: "'m mem_env \<Rightarrow> MemSmgrPageKey \<Rightarrow> u32" where
  "page_key_hash env = blob_hash (big_endian env) (key_aligned env) 24 (page_key_bytes (big_endian env))"

section \<open>Shared memory\<close>

text \<open>
  The shared tables: a fork table and a page table for each partition, made one after the other, the
  allocator answering for each of them. The rest is set up once.
\<close>

definition shared_flags :: hash_flags where
  "shared_flags = \<lparr>HASH_SHARED_MEM = True, HASH_PARTITION = None, HASH_FIXED_SIZE = True\<rparr>"

definition local_flags :: hash_flags where
  "local_flags = \<lparr>HASH_SHARED_MEM = False, HASH_PARTITION = None, HASH_FIXED_SIZE = False\<rparr>"

fun MemSmgrShmemRequest :: "'m mem_env \<Rightarrow> (bool list \<times> bool list) list \<Rightarrow> ('m mem_state, unit) pg" where
  "MemSmgrShmemRequest env [] s = (Inr (), s)"
| "MemSmgrShmemRequest env ((fork_alloc, page_alloc) # rest) s =
     (case hash_create shared_flags (fork_key_hash env) 28 MEMSMGR_SHARED_FORKS_PER_PARTITION (stale_fork env) fork_alloc of
        Inl err \<Rightarrow> (Inl err, s)
      | Inr forks \<Rightarrow>
          (case hash_create shared_flags (page_key_hash env) 28 MEMSMGR_SHARED_PAGES_PER_PARTITION (stale_page env) page_alloc of
             Inl err \<Rightarrow> (Inl err, s)
           | Inr pages \<Rightarrow>
               MemSmgrShmemRequest env rest
                 (s\<lparr>MemSmgrForkHashes := MemSmgrForkHashes s @ [forks], MemSmgrPageHashes := MemSmgrPageHashes s @ [pages]\<rparr>)))"

definition MemSmgrShmemInit :: "'m mem_env \<Rightarrow> ('m mem_state, unit) pg" where
  "MemSmgrShmemInit env s =
     (let s = s\<lparr>MemSmgrState := True\<rparr> in
      if \<not> initialized s
      then (let s = s\<lparr>next_page := 0\<rparr> in
            if mmap_fails env
            then (Inl (Ereport FATAL ERRCODE_OUT_OF_MEMORY ''could not allocate memory storage manager page arena''), s)
            else (Inr (), s\<lparr>page_data := (\<lambda>_. zero_page), arena_mapped := True, initialized := True\<rparr>))
      else (Inr (), s))"

definition meminit :: "'m mem_env \<Rightarrow> ('m mem_state, unit) pg" where
  "meminit env = pg_bind (md_call (mdinit (md_ops env))) (\<lambda>_. pg_modify (\<lambda>s. s\<lparr>MemSmgrLocalCxt := True\<rparr>))"

definition memshutdown :: "('m mem_state, unit) pg" where
  "memshutdown s =
     (if MemSmgrLocalCxt s
      then (Inr (), s\<lparr>MemSmgrLocalCxt := False, LocalForkHash := None, LocalPageHash := None\<rparr>)
      else (Inr (), s))"

definition mem_ensure_local_hashes :: "'m mem_env \<Rightarrow> ('m mem_state, unit) pg" where
  "mem_ensure_local_hashes env s =
     (if LocalForkHash s \<noteq> None then (Inr (), s)
      else
        let s = (if \<not> MemSmgrLocalCxt s then s\<lparr>MemSmgrLocalCxt := True\<rparr> else s) in
        case hash_create local_flags (fork_key_hash env) 28 128 (stale_fork env) (local_fork_alloc env) of
          Inl err \<Rightarrow> (Inl err, s)
        | Inr forks \<Rightarrow>
            (let s = s\<lparr>LocalForkHash := Some forks\<rparr> in
             case hash_create local_flags (page_key_hash env) 28 1024 (stale_page env) (local_page_alloc env) of
               Inl err \<Rightarrow> (Inl err, s)
             | Inr pages \<Rightarrow> (Inr (), s\<lparr>LocalPageHash := Some pages\<rparr>)))"

section \<open>Tables, locks and entries\<close>

definition mem_fork_hash_for :: "'m mem_env \<Rightarrow> RelFileLocatorBackend \<Rightarrow> ('m mem_state, htab_id) pg" where
  "mem_fork_hash_for env rl =
     (if mem_key_is_temp rl then pg_bind (mem_ensure_local_hashes env) (\<lambda>_. pg_return LocalFork)
      else pg_return (SharedFork (mem_shared_partition_for rl)))"

definition mem_page_hash_for :: "'m mem_env \<Rightarrow> RelFileLocatorBackend \<Rightarrow> ('m mem_state, htab_id) pg" where
  "mem_page_hash_for env rl =
     (if mem_key_is_temp rl then pg_bind (mem_ensure_local_hashes env) (\<lambda>_. pg_return LocalPage)
      else pg_return (SharedPage (mem_shared_partition_for rl)))"

text \<open>The table a variable points at, and a store into it; no table is a null pointer.\<close>

fun fork_table :: "htab_id \<Rightarrow> 'm mem_state \<Rightarrow> fork_table option" where
  "fork_table (SharedFork p) s = (if p < length (MemSmgrForkHashes s) then Some (MemSmgrForkHashes s ! p) else None)"
| "fork_table LocalFork s = LocalForkHash s"
| "fork_table _ s = None"

fun put_fork_table :: "htab_id \<Rightarrow> fork_table \<Rightarrow> 'm mem_state \<Rightarrow> 'm mem_state" where
  "put_fork_table (SharedFork p) t s = s\<lparr>MemSmgrForkHashes := (MemSmgrForkHashes s)[p := t]\<rparr>"
| "put_fork_table LocalFork t s = s\<lparr>LocalForkHash := Some t\<rparr>"
| "put_fork_table _ t s = s"

fun page_table :: "htab_id \<Rightarrow> 'm mem_state \<Rightarrow> page_table option" where
  "page_table (SharedPage p) s = (if p < length (MemSmgrPageHashes s) then Some (MemSmgrPageHashes s ! p) else None)"
| "page_table LocalPage s = LocalPageHash s"
| "page_table _ s = None"

fun put_page_table :: "htab_id \<Rightarrow> page_table \<Rightarrow> 'm mem_state \<Rightarrow> 'm mem_state" where
  "put_page_table (SharedPage p) t s = s\<lparr>MemSmgrPageHashes := (MemSmgrPageHashes s)[p := t]\<rparr>"
| "put_page_table LocalPage t s = s\<lparr>LocalPageHash := Some t\<rparr>"
| "put_page_table _ t s = s"

text \<open>
  \<^verbatim>\<open>hash_search\<close> on one of the tables, which looks at this backend's registered scans, and
  reading and writing the entry behind a pointer. The fork tables and the page tables share the code.
\<close>

definition table_search ::
  "(htab_id \<Rightarrow> 'm mem_state \<Rightarrow> ('k, 'v) HTAB option) \<Rightarrow> (htab_id \<Rightarrow> ('k, 'v) HTAB \<Rightarrow> 'm mem_state \<Rightarrow> 'm mem_state) \<Rightarrow>
   htab_id \<Rightarrow> 'k \<Rightarrow> HASHACTION \<Rightarrow> ('m mem_state, 'v option \<times> bool) pg" where
  "table_search get put h k action s =
     (case get h s of
        None \<Rightarrow> pg_undefined ''null hash table'' s
      | Some t \<Rightarrow> (case hash_search (has_seq_scans h (scans s)) k action t of (r, t) \<Rightarrow> (r, put h t s)))"

definition entry_deref :: "(htab_id \<Rightarrow> 'm mem_state \<Rightarrow> ('k, 'v) HTAB option) \<Rightarrow> htab_id \<times> 'k \<Rightarrow> ('m mem_state, 'v) pg" where
  "entry_deref get ptr s =
     (case Option.bind (get (fst ptr) s) (\<lambda>t. htab_map t (snd ptr)) of
        None \<Rightarrow> pg_undefined ''dangling entry'' s
      | Some e \<Rightarrow> (Inr e, s))"

definition entry_update ::
  "(htab_id \<Rightarrow> 'm mem_state \<Rightarrow> ('k, 'v) HTAB option) \<Rightarrow> (htab_id \<Rightarrow> ('k, 'v) HTAB \<Rightarrow> 'm mem_state \<Rightarrow> 'm mem_state) \<Rightarrow>
   htab_id \<times> 'k \<Rightarrow> ('v \<Rightarrow> 'v) \<Rightarrow> ('m mem_state, unit) pg" where
  "entry_update get put ptr f s =
     (case get (fst ptr) s of
        None \<Rightarrow> pg_undefined ''dangling entry'' s
      | Some t \<Rightarrow>
          (case htab_map t (snd ptr) of
             None \<Rightarrow> pg_undefined ''dangling entry'' s
           | Some e \<Rightarrow> (Inr (), put (fst ptr) (hash_store (snd ptr) (f e) t) s)))"

abbreviation fork_search :: "htab_id \<Rightarrow> MemSmgrForkKey \<Rightarrow> HASHACTION \<Rightarrow> ('m mem_state, MemSmgrForkEntry option \<times> bool) pg" where
  "fork_search \<equiv> table_search fork_table put_fork_table"

abbreviation fork_deref :: "fork_ptr \<Rightarrow> ('m mem_state, MemSmgrForkEntry) pg" where
  "fork_deref \<equiv> entry_deref fork_table"

abbreviation fork_update :: "fork_ptr \<Rightarrow> (MemSmgrForkEntry \<Rightarrow> MemSmgrForkEntry) \<Rightarrow> ('m mem_state, unit) pg" where
  "fork_update \<equiv> entry_update fork_table put_fork_table"

abbreviation page_search :: "htab_id \<Rightarrow> MemSmgrPageKey \<Rightarrow> HASHACTION \<Rightarrow> ('m mem_state, MemSmgrPageEntry option \<times> bool) pg" where
  "page_search \<equiv> table_search page_table put_page_table"

abbreviation page_deref :: "page_ptr \<Rightarrow> ('m mem_state, MemSmgrPageEntry) pg" where
  "page_deref \<equiv> entry_deref page_table"

abbreviation page_update :: "page_ptr \<Rightarrow> (MemSmgrPageEntry \<Rightarrow> MemSmgrPageEntry) \<Rightarrow> ('m mem_state, unit) pg" where
  "page_update \<equiv> entry_update page_table put_page_table"

text \<open>The lock of a partition; a temporary relation needs none.\<close>

definition mem_lock_for :: "RelFileLocatorBackend \<Rightarrow> ('m mem_state, nat option) pg" where
  "mem_lock_for rl s =
     (if mem_key_is_temp rl then (Inr None, s)
      else if \<not> MemSmgrState s
      then ereport ERRCODE_INTERNAL_ERROR ''memory storage manager shared state is not initialized'' s
      else (Inr (Some (mem_shared_partition_for rl)), s))"

definition lock_acquire :: "nat option \<Rightarrow> ('m mem_state, unit) pg" where
  "lock_acquire lock s =
     (case lock of
        None \<Rightarrow> (Inr (), s)
      | Some p \<Rightarrow>
          if p \<in> set (held_locks s) then pg_undefined ''lock acquired twice'' s
          else (Inr (), s\<lparr>held_locks := p # held_locks s\<rparr>))"

definition lock_release :: "nat option \<Rightarrow> ('m mem_state, unit) pg" where
  "lock_release lock s =
     (case lock of
        None \<Rightarrow> (Inr (), s)
      | Some p \<Rightarrow>
          if p \<in> set (held_locks s) then (Inr (), s\<lparr>held_locks := remove1 p (held_locks s)\<rparr>)
          else ereport ERRCODE_INTERNAL_ERROR ''lock is not held'' s)"

text \<open>What the entry points share: take the lock, run, release; an error leaves the lock to the transaction's abort.\<close>

definition with_lock :: "RelFileLocatorBackend \<Rightarrow> ('m mem_state, 'a) pg \<Rightarrow> ('m mem_state, 'a) pg" where
  "with_lock rl body =
     pg_bind (mem_lock_for rl) (\<lambda>lock.
     pg_bind (lock_acquire lock) (\<lambda>_.
     pg_bind body (\<lambda>a.
     pg_bind (lock_release lock) (\<lambda>_. pg_return a))))"

section \<open>Seed files\<close>

definition mem_seed_active_for :: "'m mem_env \<Rightarrow> RelFileLocatorBackend \<Rightarrow> bool" where
  "mem_seed_active_for env rl \<longleftrightarrow> \<not> mem_key_is_temp rl \<and> mem_seed_root env \<noteq> None"

definition relpath :: "RelFileLocatorBackend \<Rightarrow> ForkNumber \<Rightarrow> string option" where
  "relpath rl fork = GetRelationPath (dbOid rl) (spcOid rl) (relNumber rl) (backend rl) fork"

text \<open>\<open>None\<close> where the path needs a seed directory or a fork name there is not.\<close>

definition mem_seed_segment_path :: "'m mem_env \<Rightarrow> RelFileLocatorBackend \<Rightarrow> ForkNumber \<Rightarrow> u32 \<Rightarrow> string option" where
  "mem_seed_segment_path env rl fork segno =
     (case (mem_seed_root env, relpath rl fork) of
        (Some seed_root, Some path) \<Rightarrow>
          (if segno > 0 then Some (seed_root @ ''/'' @ path @ ''.'' @ fmt_u (unat segno))
           else Some (seed_root @ ''/'' @ path))
      | _ \<Rightarrow> None)"

text \<open>\<open>Inr None\<close>: there is no such file. Otherwise its size.\<close>

definition mem_seed_segment_stat :: "'m mem_env \<Rightarrow> RelFileLocatorBackend \<Rightarrow> ForkNumber \<Rightarrow> u32 \<Rightarrow> pg_error + nat option" where
  "mem_seed_segment_stat env rl fork segno =
     (case mem_seed_segment_path env rl fork segno of
        None \<Rightarrow> Inl (Undefined ''no seed path'')
      | Some path \<Rightarrow>
          (case stat_file env path of
             Stat_size n \<Rightarrow> Inr (Some n)
           | Stat_ENOENT \<Rightarrow> Inr None
           | Stat_error \<Rightarrow> Inl (Ereport ERROR ERRCODE_FILE_ACCESS ''could not stat fast-fork seed relation segment'')))"

definition mem_seed_exists :: "'m mem_env \<Rightarrow> RelFileLocatorBackend \<Rightarrow> ForkNumber \<Rightarrow> pg_error + bool" where
  "mem_seed_exists env rl fork =
     (if \<not> mem_seed_active_for env rl then Inr False
      else case mem_seed_segment_stat env rl fork 0 of Inl err \<Rightarrow> Inl err | Inr st \<Rightarrow> Inr (st \<noteq> None))"

text \<open>The loop over the segments; it has no bound of its own.\<close>

partial_function (option) mem_seed_nblocks_loop ::
  "'m mem_env \<Rightarrow> RelFileLocatorBackend \<Rightarrow> ForkNumber \<Rightarrow> u32 \<Rightarrow> BlockNumber \<Rightarrow> (pg_error + BlockNumber) option" where
  "mem_seed_nblocks_loop env rl fork segno total_blocks =
     (case mem_seed_segment_stat env rl fork segno of
        Inl err \<Rightarrow> Some (Inl err)
      | Inr None \<Rightarrow> Some (Inr (if segno = 0 then 0 else total_blocks))
      | Inr (Some st_size) \<Rightarrow>
          if st_size mod BLCKSZ \<noteq> 0
          then Some (Inl (Ereport ERROR ERRCODE_DATA_CORRUPTED ''fast-fork seed relation segment has partial block''))
          else
            let segment_blocks = (of_nat (st_size div BLCKSZ) :: u32) in
            if of_nat RELSEG_SIZE < segment_blocks
            then Some (Inl (Ereport ERROR ERRCODE_DATA_CORRUPTED ''fast-fork seed relation segment is too large''))
            else if segment_blocks < of_nat RELSEG_SIZE then Some (Inr (total_blocks + segment_blocks))
            else mem_seed_nblocks_loop env rl fork (segno + 1) (total_blocks + segment_blocks))"

definition mem_seed_nblocks :: "'m mem_env \<Rightarrow> RelFileLocatorBackend \<Rightarrow> ForkNumber \<Rightarrow> pg_error + BlockNumber" where
  "mem_seed_nblocks env rl fork =
     (case mem_seed_nblocks_loop env rl fork 0 0 of
        None \<Rightarrow> Inl (Undefined ''segment loop never ends'')
      | Some r \<Rightarrow> r)"

text \<open>The buffer is read into even when the read comes short: the new buffer goes with the result.\<close>

definition mem_seed_read_block ::
  "'m mem_env \<Rightarrow> RelFileLocatorBackend \<Rightarrow> ForkNumber \<Rightarrow> BlockNumber \<Rightarrow> page \<Rightarrow> (pg_error + unit) \<times> page" where
  "mem_seed_read_block env rl fork blk buffer =
     (let segno = blk div of_nat RELSEG_SIZE;
          segoff = blk mod of_nat RELSEG_SIZE;
          offset = BLCKSZ * unat segoff
      in case mem_seed_segment_path env rl fork segno of
           None \<Rightarrow> (Inl (Undefined ''no seed path''), buffer)
         | Some path \<Rightarrow>
             (case read_file env path offset of
                Open_failed \<Rightarrow>
                  (Inl (Ereport ERROR ERRCODE_FILE_ACCESS ''could not open fast-fork seed relation segment''), buffer)
              | Read_failed \<Rightarrow>
                  (Inl (Ereport ERROR ERRCODE_FILE_ACCESS ''could not read fast-fork seed relation segment''), buffer)
              | Read_bytes bytes \<Rightarrow>
                  (let bytes = take BLCKSZ bytes; buffer = bytes @ drop (length bytes) buffer in
                   if length bytes \<noteq> BLCKSZ
                   then (Inl (Ereport ERROR ERRCODE_DATA_CORRUPTED ''could not read block from fast-fork seed relation segment''), buffer)
                   else (Inr (), buffer))))"

text \<open>A function of the environment only, as a step.\<close>

definition pg_lift :: "pg_error + 'a \<Rightarrow> ('s, 'a) pg" where
  "pg_lift r s = (r, s)"

section \<open>Entries of forks and pages\<close>

definition mem_lookup_fork_entry :: "'m mem_env \<Rightarrow> RelFileLocatorBackend \<Rightarrow> ForkNumber \<Rightarrow> ('m mem_state, fork_ptr option) pg" where
  "mem_lookup_fork_entry env rl fork =
     (let key = mem_build_fork_key rl fork in
      pg_bind (mem_fork_hash_for env rl) (\<lambda>h.
      pg_bind (fork_search h key HASH_FIND) (\<lambda>(entry, _). pg_return (if entry = None then None else Some (h, key)))))"

definition mem_create_fork_entry :: "'m mem_env \<Rightarrow> RelFileLocatorBackend \<Rightarrow> ForkNumber \<Rightarrow> ('m mem_state, fork_ptr) pg" where
  "mem_create_fork_entry env rl fork =
     (let key = mem_build_fork_key rl fork in
      pg_bind (mem_fork_hash_for env rl) (\<lambda>h.
      pg_bind (fork_search h key HASH_ENTER_NULL) (\<lambda>(entry, found).
      if entry = None then ereport ERRCODE_OUT_OF_MEMORY ''memory storage manager fork table is full''
      else if \<not> found
      then pg_bind (fork_update (h, key) (\<lambda>_. \<lparr>exists = False, on_disk = False, nblocks = 0\<rparr>)) (\<lambda>_. pg_return (h, key))
      else pg_return (h, key))))"

text \<open>
  The second branch asks the disk storage manager; it is for permanent relations without a seed
  directory.
\<close>

definition mem_get_fork_entry :: "'m mem_env \<Rightarrow> RelFileLocatorBackend \<Rightarrow> ForkNumber \<Rightarrow> bool \<Rightarrow> ('m mem_state, fork_ptr option) pg" where
  "mem_get_fork_entry env rl fork create =
     pg_bind (mem_lookup_fork_entry env rl fork) (\<lambda>entry.
     if entry \<noteq> None then pg_return entry
     else if \<not> create then pg_return None
     else
       pg_bind (mem_create_fork_entry env rl fork) (\<lambda>ptr.
       pg_bind (if mem_seed_active_for env rl then pg_lift (mem_seed_exists env rl fork) else pg_return False) (\<lambda>seeded.
       if seeded
       then pg_bind (fork_update ptr (\<lambda>e. e\<lparr>exists := True, on_disk := True\<rparr>)) (\<lambda>_.
            pg_bind (pg_lift (mem_seed_nblocks env rl fork)) (\<lambda>n.
            pg_bind (fork_update ptr (\<lambda>e. e\<lparr>nblocks := n\<rparr>)) (\<lambda>_. pg_return (Some ptr))))
       else
         pg_bind (if \<not> mem_seed_active_for env rl \<and> \<not> mem_key_is_temp rl
                  then md_call (mdexists (md_ops env) rl fork) else pg_return False) (\<lambda>on_md.
         if on_md
         then pg_bind (fork_update ptr (\<lambda>e. e\<lparr>exists := True, on_disk := True\<rparr>)) (\<lambda>_.
              pg_bind (md_call (mdnblocks (md_ops env) rl fork)) (\<lambda>n.
              pg_bind (fork_update ptr (\<lambda>e. e\<lparr>nblocks := n\<rparr>)) (\<lambda>_. pg_return (Some ptr))))
         else pg_return (Some ptr)))))"

definition mem_alloc_page_index :: "('m mem_state, u32) pg" where
  "mem_alloc_page_index s =
     (if \<not> MemSmgrState s \<or> \<not> arena_mapped s
      then ereport ERRCODE_INTERNAL_ERROR ''memory storage manager page arena is not initialized'' s
      else
        let page_index = next_page s; s = s\<lparr>next_page := next_page s + 1\<rparr> in
        if of_nat MEMSMGR_SHARED_MAX_PAGES \<le> page_index
        then ereport ERRCODE_OUT_OF_MEMORY ''memory storage manager page arena is full'' s
        else (Inr page_index, s))"

text \<open>The page of an entry in the arena, to read and to write; an index past the arena is out of bounds.\<close>

definition mem_page_data :: "page_ptr \<Rightarrow> ('m mem_state, u32) pg" where
  "mem_page_data ptr =
     pg_bind (page_deref ptr) (\<lambda>e s.
       if \<not> MemSmgrState s \<or> \<not> arena_mapped s \<or> of_nat MEMSMGR_SHARED_MAX_PAGES \<le> page_index e
       then pg_undefined ''page outside the arena'' s
       else (Inr (page_index e), s))"

definition page_read :: "page_ptr \<Rightarrow> ('m mem_state, page) pg" where
  "page_read ptr = pg_bind (mem_page_data ptr) (\<lambda>i. pg_get (\<lambda>s. page_data s i))"

definition page_write :: "page_ptr \<Rightarrow> page \<Rightarrow> ('m mem_state, unit) pg" where
  "page_write ptr p = pg_bind (mem_page_data ptr) (\<lambda>i. pg_modify (\<lambda>s. s\<lparr>page_data := (page_data s)(i := p)\<rparr>))"

definition mem_get_page_entry ::
  "'m mem_env \<Rightarrow> RelFileLocatorBackend \<Rightarrow> ForkNumber \<Rightarrow> BlockNumber \<Rightarrow> bool \<Rightarrow> ('m mem_state, page_ptr option) pg" where
  "mem_get_page_entry env rl fork blk create =
     (let key = mem_build_page_key rl fork blk in
      pg_bind (mem_page_hash_for env rl) (\<lambda>h.
      pg_bind (page_search h key (if create then HASH_ENTER_NULL else HASH_FIND)) (\<lambda>(entry, found).
      if entry = None \<and> create then ereport ERRCODE_OUT_OF_MEMORY ''memory storage manager page table is full''
      else if entry \<noteq> None \<and> create \<and> \<not> found
      then pg_bind mem_alloc_page_index (\<lambda>i.
           pg_bind (page_update (h, key) (\<lambda>e. e\<lparr>page_index := i\<rparr>)) (\<lambda>_.
           pg_bind (page_write (h, key) zero_page) (\<lambda>_. pg_return (Some (h, key)))))
      else pg_return (if entry = None then None else Some (h, key)))))"

definition mem_remove_pages :: "'m mem_env \<Rightarrow> RelFileLocatorBackend \<Rightarrow> ForkNumber \<Rightarrow> BlockNumber \<Rightarrow> ('m mem_state, unit) pg" where
  "mem_remove_pages env rl fork first_block =
     pg_bind (mem_page_hash_for env rl) (\<lambda>h s.
       case page_table h s of
         None \<Rightarrow> pg_undefined ''null hash table'' s
       | Some t \<Rightarrow>
           (case hash_seq_remove_where h (nest_level env)
                   (\<lambda>k. rlocator k = rl \<and> forknum k = fork \<and> first_block \<le> blocknum k) (t, scans s) of
              (r, (t, sc)) \<Rightarrow> (r, (put_page_table h t s)\<lparr>scans := sc\<rparr>)))"

definition mem_relation_is_memory_only :: "'m mem_env \<Rightarrow> RelFileLocatorBackend \<Rightarrow> ('m mem_state, bool) pg" where
  "mem_relation_is_memory_only env rl =
     (let look = (\<lambda>fork. pg_bind (mem_lookup_fork_entry env rl fork) (\<lambda>entry.
            case entry of None \<Rightarrow> pg_return None | Some ptr \<Rightarrow> pg_bind (fork_deref ptr) (\<lambda>e. pg_return (Some (on_disk e)))))
      in foldr (\<lambda>fork rest saw_entry. pg_bind (look fork) (\<lambda>r.
                  case r of None \<Rightarrow> rest saw_entry
                  | Some disk \<Rightarrow> if disk then pg_return False else rest True))
           forks_from_0 pg_return False)"

definition mem_backing_exists :: "'m mem_env \<Rightarrow> RelFileLocatorBackend \<Rightarrow> ForkNumber \<Rightarrow> pg_error + bool" where
  "mem_backing_exists env rl fork =
     (if mem_seed_active_for env rl then mem_seed_exists env rl fork
      else if mem_key_is_temp rl then Inr False
      else if mem_seed_root env = None
      then (case relpath rl fork of
              None \<Rightarrow> Inl (Undefined ''no fork name'')
            | Some path \<Rightarrow>
                (case stat_file env path of
                   Stat_size _ \<Rightarrow> Inr True
                 | Stat_ENOENT \<Rightarrow> Inr False
                 | Stat_error \<Rightarrow> Inl (Ereport ERROR ERRCODE_FILE_ACCESS ''could not stat memory storage manager backing relation'')))
      else Inr False)"

definition mem_remove_memory_only_fork :: "'m mem_env \<Rightarrow> RelFileLocatorBackend \<Rightarrow> ForkNumber \<Rightarrow> ('m mem_state, unit) pg" where
  "mem_remove_memory_only_fork env rl fork =
     (let key = mem_build_fork_key rl fork in
      pg_bind (mem_fork_hash_for env rl) (\<lambda>fork_hash.
      pg_bind (fork_search fork_hash key HASH_FIND) (\<lambda>(entry, _).
      case entry of
        None \<Rightarrow> pg_return ()
      | Some e \<Rightarrow>
          pg_bind (if \<not> on_disk e then pg_bind (fork_search fork_hash key HASH_REMOVE) (\<lambda>_. pg_return ()) else pg_return ()) (\<lambda>_.
          if nblocks e > 0 then mem_remove_pages env rl fork 0 else pg_return ()))))"

definition mem_remove_fork :: "'m mem_env \<Rightarrow> RelFileLocatorBackend \<Rightarrow> ForkNumber \<Rightarrow> ('m mem_state, unit) pg" where
  "mem_remove_fork env rl fork =
     (let key = mem_build_fork_key rl fork in
      pg_bind (mem_fork_hash_for env rl) (\<lambda>fork_hash.
      pg_bind (fork_search fork_hash key HASH_FIND) (\<lambda>(entry, _).
      let tombstone = pg_bind (fork_update (fork_hash, key) (\<lambda>_. \<lparr>exists = False, on_disk = True, nblocks = 0\<rparr>))
                        (\<lambda>_. mem_remove_pages env rl fork 0)
      in
      case entry of
        Some e \<Rightarrow>
          if \<not> on_disk e
          then pg_bind (fork_search fork_hash key HASH_REMOVE) (\<lambda>_.
               if nblocks e > 0 then mem_remove_pages env rl fork 0 else pg_return ())
          else tombstone
      | None \<Rightarrow>
          pg_bind (pg_lift (mem_backing_exists env rl fork)) (\<lambda>backed.
          if \<not> backed then pg_return ()
          else
            pg_bind (fork_search fork_hash key HASH_ENTER_NULL) (\<lambda>(entry, _).
            if entry = None then ereport ERRCODE_OUT_OF_MEMORY ''memory storage manager fork table is full''
            else tombstone)))))"

section \<open>Blocks\<close>

text \<open>\<^verbatim>\<open>for (i = 0; i < n; i++)\<close> over block numbers.\<close>

definition block_range :: "BlockNumber \<Rightarrow> nat \<Rightarrow> BlockNumber list" where
  "block_range blk n = map (\<lambda>i. blk + of_nat i) [0..<n]"

text \<open>A null pointer where an entry must be.\<close>

definition require :: "'p option \<Rightarrow> ('p \<Rightarrow> ('s, 'a) pg) \<Rightarrow> ('s, 'a) pg" where
  "require p f = (case p of None \<Rightarrow> pg_undefined ''null entry'' | Some ptr \<Rightarrow> f ptr)"

definition mem_read_one :: "'m mem_env \<Rightarrow> fork_ptr \<Rightarrow> RelFileLocatorBackend \<Rightarrow> ForkNumber \<Rightarrow> BlockNumber \<Rightarrow> ('m mem_state, page) pg" where
  "mem_read_one env fptr rl fork curblock =
     pg_bind (mem_get_page_entry env rl fork curblock False) (\<lambda>page.
     case page of
       Some ptr \<Rightarrow> page_read ptr
     | None \<Rightarrow>
         pg_bind (fork_deref fptr) (\<lambda>e.
         if on_disk e \<and> mem_seed_active_for env rl
         then pg_bind (mem_get_page_entry env rl fork curblock True) (\<lambda>page. require page (\<lambda>ptr.
              pg_bind (page_read ptr) (\<lambda>buffer.
              case mem_seed_read_block env rl fork curblock buffer of (r, buffer) \<Rightarrow>
                pg_bind (page_write ptr buffer) (\<lambda>_.
                pg_bind (pg_lift r) (\<lambda>_. page_read ptr)))))
         else if on_disk e
         then pg_bind (md_call (mdreadv (md_ops env) rl fork curblock 1)) (\<lambda>ps.
              case ps of p # _ \<Rightarrow> pg_return p | [] \<Rightarrow> pg_undefined ''short mdreadv'')
         else pg_return zero_page))"

definition mem_readv_locked ::
  "'m mem_env \<Rightarrow> RelFileLocatorBackend \<Rightarrow> ForkNumber \<Rightarrow> BlockNumber \<Rightarrow> BlockNumber \<Rightarrow> ('m mem_state, page list) pg" where
  "mem_readv_locked env rl fork blk n =
     pg_bind (mem_get_fork_entry env rl fork True) (\<lambda>ptr. require ptr (\<lambda>ptr.
     pg_bind (fork_deref ptr) (\<lambda>e.
     if \<not> exists e \<or> blk + n > nblocks e
     then ereport ERRCODE_DATA_CORRUPTED ''could not read blocks in memory relation fork''
     else pg_mapM (mem_read_one env ptr rl fork) (block_range blk (unat n)))))"

definition mem_zero_one :: "'m mem_env \<Rightarrow> RelFileLocatorBackend \<Rightarrow> ForkNumber \<Rightarrow> BlockNumber \<Rightarrow> ('m mem_state, unit) pg" where
  "mem_zero_one env rl fork blk =
     pg_bind (mem_get_page_entry env rl fork blk True) (\<lambda>page. require page (\<lambda>ptr. page_write ptr zero_page))"

text \<open>The last statement of both writing functions.\<close>

definition mem_grow :: "fork_ptr \<Rightarrow> BlockNumber \<Rightarrow> ('m mem_state, unit) pg" where
  "mem_grow ptr blocks =
     pg_bind (fork_deref ptr) (\<lambda>e. if blocks > nblocks e then fork_update ptr (\<lambda>e. e\<lparr>nblocks := blocks\<rparr>) else pg_return ())"

definition mem_zeroextend_locked ::
  "'m mem_env \<Rightarrow> RelFileLocatorBackend \<Rightarrow> ForkNumber \<Rightarrow> BlockNumber \<Rightarrow> int \<Rightarrow> ('m mem_state, unit) pg" where
  "mem_zeroextend_locked env rl fork blk n =
     pg_bind (mem_get_fork_entry env rl fork True) (\<lambda>ptr. require ptr (\<lambda>ptr.
     pg_bind (fork_update ptr (\<lambda>e. e\<lparr>exists := True\<rparr>)) (\<lambda>_.
     pg_bind (pg_for (block_range blk (nat n)) (mem_zero_one env rl fork)) (\<lambda>_.
     mem_grow ptr (blk + of_int n)))))"

definition mem_write_one :: "'m mem_env \<Rightarrow> RelFileLocatorBackend \<Rightarrow> ForkNumber \<Rightarrow> BlockNumber \<times> page \<Rightarrow> ('m mem_state, unit) pg" where
  "mem_write_one env rl fork = (\<lambda>(blk, p).
     pg_bind (mem_get_page_entry env rl fork blk True) (\<lambda>page. require page (\<lambda>ptr. page_write ptr p)))"

text \<open>The buffers are a list of pages; their number is \<^verbatim>\<open>nblocks\<close>.\<close>

definition mem_writev_locked ::
  "'m mem_env \<Rightarrow> RelFileLocatorBackend \<Rightarrow> ForkNumber \<Rightarrow> BlockNumber \<Rightarrow> page list \<Rightarrow> ('m mem_state, unit) pg" where
  "mem_writev_locked env rl fork blk buffers =
     pg_bind (mem_get_fork_entry env rl fork True) (\<lambda>ptr. require ptr (\<lambda>ptr.
     pg_bind (fork_update ptr (\<lambda>e. e\<lparr>exists := True\<rparr>)) (\<lambda>_.
     pg_bind (fork_deref ptr) (\<lambda>e.
     pg_bind (if blk > nblocks e then mem_zeroextend_locked env rl fork (nblocks e) (sint (blk - nblocks e)) else pg_return ()) (\<lambda>_.
     pg_bind (pg_for (zip (block_range blk (length buffers)) buffers) (mem_write_one env rl fork)) (\<lambda>_.
     mem_grow ptr (blk + of_nat (length buffers))))))))"

definition mem_nblocks_locked :: "'m mem_env \<Rightarrow> RelFileLocatorBackend \<Rightarrow> ForkNumber \<Rightarrow> ('m mem_state, BlockNumber) pg" where
  "mem_nblocks_locked env rl fork =
     pg_bind (mem_get_fork_entry env rl fork True) (\<lambda>ptr. require ptr (\<lambda>ptr.
     pg_bind (fork_deref ptr) (\<lambda>e. if \<not> exists e then pg_return 0 else pg_return (nblocks e))))"

section \<open>Entry points\<close>

definition memopen :: "'m mem_env \<Rightarrow> RelFileLocatorBackend \<Rightarrow> ('m mem_state, unit) pg" where
  "memopen env rl = md_call (mdopen (md_ops env) rl)"

definition memclose :: "'m mem_env \<Rightarrow> RelFileLocatorBackend \<Rightarrow> ForkNumber \<Rightarrow> ('m mem_state, unit) pg" where
  "memclose env rl fork = md_call (mdclose (md_ops env) rl fork)"

text \<open>The duplicate error is raised after the lock was given back.\<close>

definition memcreate :: "'m mem_env \<Rightarrow> RelFileLocatorBackend \<Rightarrow> ForkNumber \<Rightarrow> bool \<Rightarrow> ('m mem_state, unit) pg" where
  "memcreate env rl fork isRedo =
     (if mem_use_md env then md_call (mdcreate (md_ops env) rl fork isRedo)
      else
        pg_bind (with_lock rl
          (pg_bind (mem_get_fork_entry env rl fork True) (\<lambda>ptr. require ptr (\<lambda>ptr.
           pg_bind (fork_deref ptr) (\<lambda>e.
           if exists e \<and> \<not> isRedo then pg_return True
           else
             pg_bind (fork_update ptr (\<lambda>_. \<lparr>exists = True, on_disk = False, nblocks = 0\<rparr>)) (\<lambda>_.
             pg_bind (mem_remove_pages env rl fork 0) (\<lambda>_. pg_return False)))))))
        (\<lambda>duplicate.
         if duplicate then ereport ERRCODE_DUPLICATE_FILE ''memory relation fork already exists'' else pg_return ()))"

definition mem_create_backed ::
  "'m mem_env \<Rightarrow> RelFileLocatorBackend \<Rightarrow> ForkNumber \<Rightarrow> ('m mem_state, BlockNumber) pg \<Rightarrow> ('m mem_state, bool) pg" where
  "mem_create_backed env rl fork blocks_of =
     pg_bind (mem_create_fork_entry env rl fork) (\<lambda>ptr.
     pg_bind (fork_update ptr (\<lambda>e. e\<lparr>exists := True, on_disk := True\<rparr>)) (\<lambda>_.
     pg_bind blocks_of (\<lambda>n.
     pg_bind (fork_update ptr (\<lambda>e. e\<lparr>nblocks := n\<rparr>)) (\<lambda>_. pg_return True))))"

definition memexists :: "'m mem_env \<Rightarrow> RelFileLocatorBackend \<Rightarrow> ForkNumber \<Rightarrow> ('m mem_state, bool) pg" where
  "memexists env rl fork =
     (if mem_use_md env then md_call (mdexists (md_ops env) rl fork)
      else
        with_lock rl
          (pg_bind (mem_lookup_fork_entry env rl fork) (\<lambda>entry.
           case entry of
             Some ptr \<Rightarrow> pg_bind (fork_deref ptr) (\<lambda>e. pg_return (exists e))
           | None \<Rightarrow>
               pg_bind (if mem_seed_active_for env rl then pg_lift (mem_seed_exists env rl fork) else pg_return False) (\<lambda>seeded.
               if seeded then mem_create_backed env rl fork (pg_lift (mem_seed_nblocks env rl fork))
               else
                 pg_bind (if \<not> mem_seed_active_for env rl \<and> \<not> mem_key_is_temp rl
                          then md_call (mdexists (md_ops env) rl fork) else pg_return False) (\<lambda>on_md.
                 if on_md then mem_create_backed env rl fork (md_call (mdnblocks (md_ops env) rl fork))
                 else pg_return False)))))"

definition memunlink :: "'m mem_env \<Rightarrow> RelFileLocatorBackend \<Rightarrow> ForkNumber \<Rightarrow> bool \<Rightarrow> ('m mem_state, unit) pg" where
  "memunlink env rl fork isRedo =
     (if \<not> IsUnderPostmaster env \<and> mem_seed_root env = None then md_call (mdunlink (md_ops env) rl fork isRedo)
      else
        with_lock rl
          (if fork = InvalidForkNumber
           then pg_bind (mem_relation_is_memory_only env rl) (\<lambda>memory_only.
                if memory_only then pg_for forks_from_0 (mem_remove_memory_only_fork env rl)
                else pg_for forks_from_0 (mem_remove_fork env rl))
           else mem_remove_fork env rl fork))"

definition memextend :: "'m mem_env \<Rightarrow> RelFileLocatorBackend \<Rightarrow> ForkNumber \<Rightarrow> BlockNumber \<Rightarrow> page \<Rightarrow> bool \<Rightarrow> ('m mem_state, unit) pg" where
  "memextend env rl fork blk buffer skipFsync =
     (if mem_use_md env then md_call (mdextend (md_ops env) rl fork blk buffer skipFsync)
      else with_lock rl (mem_writev_locked env rl fork blk [buffer]))"

definition memzeroextend ::
  "'m mem_env \<Rightarrow> RelFileLocatorBackend \<Rightarrow> ForkNumber \<Rightarrow> BlockNumber \<Rightarrow> int \<Rightarrow> bool \<Rightarrow> ('m mem_state, unit) pg" where
  "memzeroextend env rl fork blk n skipFsync =
     (if mem_use_md env then md_call (mdzeroextend (md_ops env) rl fork blk n skipFsync)
      else with_lock rl (mem_zeroextend_locked env rl fork blk n))"

definition memprefetch :: "'m mem_env \<Rightarrow> RelFileLocatorBackend \<Rightarrow> ForkNumber \<Rightarrow> BlockNumber \<Rightarrow> int \<Rightarrow> ('m mem_state, bool) pg" where
  "memprefetch env rl fork blk n =
     (if mem_use_md env then md_call (mdprefetch (md_ops env) rl fork blk n)
      else pg_bind (with_lock rl (mem_nblocks_locked env rl fork)) (\<lambda>blocks. pg_return (blk + of_int n \<le> blocks)))"

definition memmaxcombine :: "'m mem_env \<Rightarrow> RelFileLocatorBackend \<Rightarrow> ForkNumber \<Rightarrow> BlockNumber \<Rightarrow> ('m mem_state, u32) pg" where
  "memmaxcombine env rl fork blk =
     (if mem_use_md env then md_call (mdmaxcombine (md_ops env) rl fork blk)
      else with_lock rl (pg_bind (mem_nblocks_locked env rl fork) (\<lambda>blocks.
        if blk \<ge> blocks then pg_return 1 else pg_return (min (of_nat MEMSMGR_MAX_COMBINE) (blocks - blk)))))"

definition memreadv :: "'m mem_env \<Rightarrow> RelFileLocatorBackend \<Rightarrow> ForkNumber \<Rightarrow> BlockNumber \<Rightarrow> BlockNumber \<Rightarrow> ('m mem_state, page list) pg" where
  "memreadv env rl fork blk n =
     (if mem_use_md env then md_call (mdreadv (md_ops env) rl fork blk n)
      else with_lock rl (mem_readv_locked env rl fork blk n))"

definition aio_log :: "aio_event list \<Rightarrow> ('m mem_state, unit) pg" where
  "aio_log es = pg_modify (\<lambda>s. s\<lparr>aio_trace := aio_trace s @ es\<rparr>)"

definition mem_complete_aio_read ::
  "'m mem_env \<Rightarrow> RelFileLocatorBackend \<Rightarrow> ForkNumber \<Rightarrow> BlockNumber \<Rightarrow> BlockNumber \<Rightarrow> ('m mem_state, page list) pg" where
  "mem_complete_aio_read env rl fork blk n =
     pg_bind (aio_log [Aio_set_target rl fork blk n, Aio_register_callbacks, Hold_interrupts, Aio_defined, Aio_call_stage, Aio_staged]) (\<lambda>_.
     pg_bind (with_lock rl (mem_readv_locked env rl fork blk n)) (\<lambda>pages.
     pg_bind (aio_log [Aio_prepare_submit, Aio_process_completion (sint (n * of_nat BLCKSZ)), Resume_interrupts]) (\<lambda>_.
     pg_return pages)))"

definition memstartreadv ::
  "'m mem_env \<Rightarrow> RelFileLocatorBackend \<Rightarrow> ForkNumber \<Rightarrow> BlockNumber \<Rightarrow> BlockNumber \<Rightarrow> ('m mem_state, page list) pg" where
  "memstartreadv env rl fork blk n =
     (if mem_use_md env then md_call (mdstartreadv (md_ops env) rl fork blk n)
      else mem_complete_aio_read env rl fork blk n)"

definition memwritev ::
  "'m mem_env \<Rightarrow> RelFileLocatorBackend \<Rightarrow> ForkNumber \<Rightarrow> BlockNumber \<Rightarrow> page list \<Rightarrow> bool \<Rightarrow> ('m mem_state, unit) pg" where
  "memwritev env rl fork blk buffers skipFsync =
     (if mem_use_md env then md_call (mdwritev (md_ops env) rl fork blk buffers skipFsync)
      else with_lock rl (mem_writev_locked env rl fork blk buffers))"

definition memwriteback :: "'m mem_env \<Rightarrow> RelFileLocatorBackend \<Rightarrow> ForkNumber \<Rightarrow> BlockNumber \<Rightarrow> BlockNumber \<Rightarrow> ('m mem_state, unit) pg" where
  "memwriteback env rl fork blk n = (if mem_use_md env then md_call (mdwriteback (md_ops env) rl fork blk n) else pg_return ())"

definition memnblocks :: "'m mem_env \<Rightarrow> RelFileLocatorBackend \<Rightarrow> ForkNumber \<Rightarrow> ('m mem_state, BlockNumber) pg" where
  "memnblocks env rl fork =
     (if mem_use_md env then md_call (mdnblocks (md_ops env) rl fork)
      else with_lock rl (mem_nblocks_locked env rl fork))"

definition memtruncate :: "'m mem_env \<Rightarrow> RelFileLocatorBackend \<Rightarrow> ForkNumber \<Rightarrow> BlockNumber \<Rightarrow> BlockNumber \<Rightarrow> ('m mem_state, unit) pg" where
  "memtruncate env rl fork curnblk n =
     (if mem_use_md env then md_call (mdtruncate (md_ops env) rl fork curnblk n)
      else
        with_lock rl
          (pg_bind (mem_get_fork_entry env rl fork True) (\<lambda>ptr. require ptr (\<lambda>ptr.
           pg_bind (fork_update ptr (\<lambda>e. e\<lparr>exists := True, nblocks := n\<rparr>)) (\<lambda>_.
           mem_remove_pages env rl fork n)))))"

definition memimmedsync :: "'m mem_env \<Rightarrow> RelFileLocatorBackend \<Rightarrow> ForkNumber \<Rightarrow> ('m mem_state, unit) pg" where
  "memimmedsync env rl fork = (if mem_use_md env then md_call (mdimmedsync (md_ops env) rl fork) else pg_return ())"

definition memregistersync :: "'m mem_env \<Rightarrow> RelFileLocatorBackend \<Rightarrow> ForkNumber \<Rightarrow> ('m mem_state, unit) pg" where
  "memregistersync env rl fork = (if mem_use_md env then md_call (mdregistersync (md_ops env) rl fork) else pg_return ())"

definition memfd :: "'m mem_env \<Rightarrow> RelFileLocatorBackend \<Rightarrow> ForkNumber \<Rightarrow> BlockNumber \<Rightarrow> ('m mem_state, int \<times> u32) pg" where
  "memfd env rl fork blk =
     (if mem_use_md env then md_call (mdfd (md_ops env) rl fork blk)
      else ereport ERRCODE_FEATURE_NOT_SUPPORTED ''memory storage manager does not expose file descriptors'')"

text \<open>Direct access to the pages of temporary relations; a relation is given or null.\<close>

definition mem_buffer_direct_enabled :: "'m mem_env \<Rightarrow> RelFileLocatorBackend option \<Rightarrow> bool" where
  "mem_buffer_direct_enabled env reln \<longleftrightarrow>
     (case reln of None \<Rightarrow> False | Some rl \<Rightarrow> \<not> mem_use_md env \<and> mem_key_is_temp rl)"

definition mem_buffer_direct_page ::
  "'m mem_env \<Rightarrow> RelFileLocatorBackend option \<Rightarrow> ForkNumber \<Rightarrow> BlockNumber \<Rightarrow> bool \<Rightarrow> ('m mem_state, u32 option) pg" where
  "mem_buffer_direct_page env reln fork blk create =
     (case reln of
        None \<Rightarrow> pg_return None
      | Some rl \<Rightarrow>
          if \<not> mem_buffer_direct_enabled env reln then pg_return None
          else
            pg_bind (mem_get_fork_entry env rl fork False) (\<lambda>ptr.
            case ptr of
              None \<Rightarrow> pg_return None
            | Some ptr \<Rightarrow>
                pg_bind (fork_deref ptr) (\<lambda>e.
                if \<not> exists e \<or> blk \<ge> nblocks e then pg_return None
                else
                  pg_bind (mem_get_page_entry env rl fork blk create) (\<lambda>page.
                  case page of
                    None \<Rightarrow> pg_return None
                  | Some page \<Rightarrow> pg_bind (mem_page_data page) (\<lambda>i. pg_return (Some i))))))"

end
