(* ===== verification/Pg_Wp.thy ===== *)
theory Pg_Wp
  imports Prelude
begin

text \<open>
  Weakest preconditions of the state-and-error computations, for the components whose functions are
  long sequences of calls: \<open>wp m Q E s\<close> says that \<open>m\<close> from \<open>s\<close> either returns a
  result and a state with \<open>Q\<close>, or raises an error with \<open>E\<close> of the error and the state it
  leaves. The equations of \<open>wp_simps\<close> take a function apart; the rules for loops take an
  invariant over what is left to do.
\<close>

definition wp :: "('s, 'a) pg \<Rightarrow> ('a \<Rightarrow> 's \<Rightarrow> bool) \<Rightarrow> (pg_error \<Rightarrow> 's \<Rightarrow> bool) \<Rightarrow> 's \<Rightarrow> bool" where
  "wp m Q E s \<longleftrightarrow> (case m s of (Inl e, s') \<Rightarrow> E e s' | (Inr a, s') \<Rightarrow> Q a s')"

named_theorems wp_simps \<open>equations of weakest preconditions\<close>

lemma wp_bind [wp_simps]: "wp (pg_bind m f) Q E = wp m (\<lambda>a. wp (f a) Q E) E"
  by (auto simp: wp_def pg_bind_def fun_eq_iff split: prod.splits sum.splits)

lemma wp_return [wp_simps]: "wp (pg_return a) Q E = Q a"
  by (simp add: wp_def pg_return_def fun_eq_iff)

lemma wp_get [wp_simps]: "wp (pg_get f) Q E s = Q (f s) s"
  by (simp add: wp_def pg_get_def)

lemma wp_modify [wp_simps]: "wp (pg_modify f) Q E s = Q () (f s)"
  by (simp add: wp_def pg_modify_def)

lemma wp_ereport [wp_simps]: "wp (ereport code msg) Q E = E (Ereport ERROR code msg)"
  by (simp add: wp_def ereport_def fun_eq_iff)

lemma wp_undefined [wp_simps]: "wp (pg_undefined msg) Q E = E (Undefined msg)"
  by (simp add: wp_def pg_undefined_def fun_eq_iff)

lemma wp_if [wp_simps]: "wp (if c then m else n) Q E s = (if c then wp m Q E s else wp n Q E s)"
  by simp

lemma wp_eqI: "m s = (Inr a, s') \<Longrightarrow> Q a s' \<Longrightarrow> wp m Q E s"
  by (simp add: wp_def)

lemma wp_mono:
  assumes "wp m Q E s" and "\<And>a t. Q a t \<Longrightarrow> Q' a t" and "\<And>e t. E e t \<Longrightarrow> E' e t"
  shows "wp m Q' E' s"
  using assms by (auto simp: wp_def split: prod.splits sum.splits)

lemma wp_conj: "wp m Q E s \<Longrightarrow> wp m Q' E' s \<Longrightarrow> wp m (\<lambda>a t. Q a t \<and> Q' a t) (\<lambda>e t. E e t \<and> E' e t) s"
  by (auto simp: wp_def split: prod.splits sum.splits)

lemma wpD: "wp m Q E s \<Longrightarrow> m s = (Inr a, s') \<Longrightarrow> Q a s'"
  by (simp add: wp_def)

lemma wp_errorD: "wp m Q E s \<Longrightarrow> m s = (Inl e, s') \<Longrightarrow> E e s'"
  by (simp add: wp_def)

lemma wp_cases: "wp m Q E s \<longleftrightarrow> (\<exists>a s'. m s = (Inr a, s') \<and> Q a s') \<or> (\<exists>e s'. m s = (Inl e, s') \<and> E e s')"
  by (auto simp: wp_def split: prod.splits sum.splits)

lemma wp_no_error: "wp m Q (\<lambda>_ _. False) s \<longleftrightarrow> (\<exists>a s'. m s = (Inr a, s') \<and> Q a s')"
  by (simp add: wp_cases)

text \<open>Loops: \<open>I xs s\<close> holds when \<open>xs\<close> is left to do.\<close>

lemma wp_for:
  assumes "I xs s" and "\<And>x xs s. I (x # xs) s \<Longrightarrow> wp (body x) (\<lambda>_. I xs) E s"
  shows "wp (pg_for xs body) (\<lambda>_. I []) E s"
  using assms(1)
proof (induction xs arbitrary: s)
  case (Cons x xs)
  have "wp (body x) (\<lambda>_. I xs) E s" by (rule assms(2) [OF Cons.prems])
  then show ?case unfolding pg_for.simps wp_simps by (rule wp_mono) (use Cons.IH in auto)
qed (simp add: wp_simps)

lemma wp_mapM:
  assumes "I xs ys s" and "\<And>x xs ys s. I (x # xs) ys s \<Longrightarrow> wp (f x) (\<lambda>y. I xs (ys @ [y])) E s"
  shows "wp (pg_mapM f xs) (\<lambda>zs. I [] (ys @ zs)) E s"
  using assms(1)
proof (induction xs arbitrary: ys s)
  case (Cons x xs)
  have "wp (f x) (\<lambda>y. I xs (ys @ [y])) E s" by (rule assms(2) [OF Cons.prems])
  then show ?case unfolding pg_mapM.simps wp_simps by (rule wp_mono) (use Cons.IH in fastforce)+
qed (simp add: wp_simps)

end
