(* ===== verification/MemSmgr_Tables.thy ===== *)
theory MemSmgr_Tables
  imports MemSmgr Pg_Wp
begin

text \<open>
  The fork tables and the page tables as maps. A family of hash tables, one of which is the home of
  a key, behaves as one map: this is shown once, in a locale over the access to the tables, and used
  for the fork tables and for the page tables.
\<close>

section \<open>Families of tables\<close>

definition family_map :: "(htab_id \<Rightarrow> 's \<Rightarrow> ('k, 'v) HTAB option) \<Rightarrow> ('k \<Rightarrow> htab_id) \<Rightarrow> 's \<Rightarrow> 'k \<Rightarrow> 'v option" where
  "family_map get home s k = Option.bind (get (home k) s) (\<lambda>t. htab_map t k)"

text \<open>
  Every table is well formed and holds keys it is the home of; shared tables have their fixed size.
\<close>

definition shared_id :: "htab_id \<Rightarrow> bool" where
  "shared_id h \<longleftrightarrow> (case h of SharedFork _ \<Rightarrow> True | SharedPage _ \<Rightarrow> True | _ \<Rightarrow> False)"

definition table_ok :: "('k \<Rightarrow> htab_id) \<Rightarrow> nat \<Rightarrow> htab_id \<Rightarrow> ('k, 'v) HTAB \<Rightarrow> bool" where
  "table_ok home nelem h t \<longleftrightarrow>
     htab_ok t \<and> dom (htab_map t) \<subseteq> {k. home k = h} \<and> (shared_id h \<longrightarrow> fixed_ok nelem t)"

definition family_ok :: "(htab_id \<Rightarrow> 's \<Rightarrow> ('k, 'v) HTAB option) \<Rightarrow> ('k \<Rightarrow> htab_id) \<Rightarrow> nat \<Rightarrow> 's \<Rightarrow> bool" where
  "family_ok get home nelem s \<longleftrightarrow> (\<forall>h t. get h s = Some t \<longrightarrow> table_ok home nelem h t)"

lemma finite_dom_htab: "htab_ok t \<Longrightarrow> finite (dom (htab_map t))"
  by (simp add: dom_buckets htab_ok_def)

lemma htab_room_card:
  assumes "htab_ok t" and "card (dom (htab_map t)) + n < 2 ^ 32"
  shows "htab_roomy n t"
proof -
  have inv: "htab_inv t" using assms(1) by (simp add: htab_ok_def)
  have "bucket_count (\<lambda>e. FREELIST_IDX t (hashvalue e) = 0) t \<le> bucket_count (\<lambda>_. True) t"
    unfolding bucket_count_def by (intro sum_mono) (simp add: length_filter_le)
  hence "nentries (freeLists t ! 0) \<le> int (card (dom (htab_map t)))"
    using inv card_dom_htab_map [OF inv] by (simp add: htab_inv_def htab_counts_def hash_consts)
  with assms(2) show ?thesis by (simp add: htab_roomy_def htab_room_def)
qed

lemma fixed_roomy: "fixed_ok nelem t \<Longrightarrow> htab_roomy n t"
  by (simp add: fixed_ok_def htab_roomy_def)

lemma fixed_ok_store: "fixed_ok nelem t \<Longrightarrow> htab_map t k \<noteq> None \<Longrightarrow> fixed_ok nelem (hash_store k v t)"
proof -
  have "isfixed (hash_store k v t) = isfixed t" "htab_capacity (hash_store k v t) = htab_capacity t"
    by (simp_all add: hash_store_def Let_def htab_capacity_def IS_PARTITIONED_def)
  then show "fixed_ok nelem t \<Longrightarrow> htab_map t k \<noteq> None \<Longrightarrow> fixed_ok nelem (hash_store k v t)"
    using dt.store [of t k v] by (simp add: fixed_ok_def)
qed

text \<open>A scan that deletes keeps the capacity: every deletion is a \<^verbatim>\<open>hash_search\<close>.\<close>

lemma fixed_ok_scan_remove:
  "fixed_ok nelem (fst ts) \<Longrightarrow> fixed_ok nelem (fst (snd (hash_scan_remove fuel hashp P status ts)))"
proof (induction fuel hashp P status ts rule: hash_scan_remove.induct)
  case (2 fuel hashp P status t scs)
  obtain r scs' where search: "hash_seq_search hashp t status scs = (r, scs')" by fastforce
  show ?case
  proof (cases "\<exists>e status'. r = Inr (Some e, status') \<and> P (ekey e)")
    case False
    with 2 search show ?thesis by (auto split: sum.splits option.splits)
  next
    case True
    then obtain e status' where r: "r = Inr (Some e, status')" "P (ekey e)" by blast
    obtain q t' where q: "hash_search (has_seq_scans hashp scs') (ekey e) HASH_REMOVE t = (q, t')" by fastforce
    have "fixed_ok nelem t'" using fixed_ok_search [of nelem t] 2(3) q by (metis fst_conv snd_conv)
    with 2 search r q show ?thesis by (auto split: sum.splits)
  qed
qed simp

lemma fixed_ok_remove_where:
  "fixed_ok nelem t \<Longrightarrow> hash_seq_remove_where hashp level P (t, scs) = (r, (t', scs')) \<Longrightarrow> fixed_ok nelem t'"
proof (cases "hash_seq_init hashp level t scs")
  case (Pair q sc)
  assume t: "fixed_ok nelem t" and run: "hash_seq_remove_where hashp level P (t, scs) = (r, (t', scs'))"
  show ?thesis
  proof (cases q)
    case (Inl err)
    with run t Pair show ?thesis by (simp add: hash_seq_remove_where_def)
  next
    case (Inr status)
    with run Pair have "hash_scan_remove (Suc (nat (hash_get_num_entries t))) hashp P status (t, sc) = (r, (t', scs'))"
      by (simp add: hash_seq_remove_where_def del: hash_scan_remove.simps)
    with fixed_ok_scan_remove [of nelem "(t, sc)" "Suc (nat (hash_get_num_entries t))" hashp P status] t show ?thesis by simp
  qed
qed

locale table_family =
  fixes get :: "htab_id \<Rightarrow> 'm mem_state \<Rightarrow> ('k, 'v) HTAB option"
    and put :: "htab_id \<Rightarrow> ('k, 'v) HTAB \<Rightarrow> 'm mem_state \<Rightarrow> 'm mem_state"
    and home :: "'k \<Rightarrow> htab_id"
    and nelem :: nat
  assumes get_put: "get h s = Some t \<Longrightarrow> get h' (put h t' s) = (if h' = h then Some t' else get h' s)"
    and put_same: "get h s = Some t \<Longrightarrow> put h t s = s"
begin

lemma family_map_put:
  assumes "get (home k) s = Some t" and "htab_map t' = (htab_map t)(k := x)"
  shows "family_map get home (put (home k) t' s) = (family_map get home s)(k := x)"
  using assms by (auto simp: family_map_def get_put fun_eq_iff)

lemma family_ok_put:
  "get h s = Some t \<Longrightarrow> family_ok get home nelem s \<Longrightarrow> table_ok home nelem h t' \<Longrightarrow> family_ok get home nelem (put h t' s)"
  by (auto simp: family_ok_def get_put split: if_splits)

lemma table_ok_upd:
  assumes "table_ok home nelem (home k) t" and "htab_ok t'" and "htab_map t' = (htab_map t)(k := x)"
    and "fixed_ok nelem t \<Longrightarrow> fixed_ok nelem t'"
  shows "table_ok home nelem (home k) t'"
  using assms by (auto simp: table_ok_def)

lemma find:
  assumes "family_ok get home nelem s" and "get (home k) s = Some t"
  shows "table_search get put (home k) k HASH_FIND s = (Inr (family_map get home s k, family_map get home s k \<noteq> None), s)"
  using assms dt.find [of t "has_seq_scans (home k) (scans s)" k] put_same [OF assms(2)]
  by (auto simp: table_search_def family_ok_def table_ok_def family_map_def)

lemma remove:
  assumes "family_ok get home nelem s" and "get (home k) s = Some t"
  obtains t' where "table_search get put (home k) k HASH_REMOVE s = (Inr (family_map get home s k, family_map get home s k \<noteq> None), put (home k) t' s)"
    and "table_ok home nelem (home k) t'" and "htab_map t' = (htab_map t)(k := None)"
proof -
  obtain r t' where run: "hash_search (has_seq_scans (home k) (scans s)) k HASH_REMOVE t = (r, t')" by fastforce
  have ok: "table_ok home nelem (home k) t" using assms by (auto simp: family_ok_def)
  hence "htab_ok t" by (simp add: table_ok_def)
  note rm = dt.remove [OF this run]
  have "table_ok home nelem (home k) t'"
    by (rule table_ok_upd [OF ok]) (use rm fixed_ok_search [of nelem t] run in \<open>auto, metis snd_conv\<close>)
  moreover have "table_search get put (home k) k HASH_REMOVE s
      = (Inr (family_map get home s k, family_map get home s k \<noteq> None), put (home k) t' s)"
    using rm run assms(2) by (simp add: table_search_def family_map_def)
  ultimately show ?thesis using that rm by blast
qed

lemma enter:
  assumes "family_ok get home nelem s" and "get (home k) s = Some t" and "htab_roomy 1 t"
  obtains (found) v t' where "family_map get home s k = Some v" "htab_map t' = htab_map t" "table_ok home nelem (home k) t'"
      "table_search get put (home k) k HASH_ENTER_NULL s = (Inr (Some v, True), put (home k) t' s)"
    | (new) v t' where "family_map get home s k = None" "htab_map t' = (htab_map t)(k \<mapsto> v)" "table_ok home nelem (home k) t'"
      "table_search get put (home k) k HASH_ENTER_NULL s = (Inr (Some v, False), put (home k) t' s)"
    | (full) t' where "family_map get home s k = None" "htab_map t' = htab_map t" "table_ok home nelem (home k) t'"
      "table_search get put (home k) k HASH_ENTER_NULL s = (Inr (None, False), put (home k) t' s)"
      "shared_id (home k) \<Longrightarrow> nelem \<le> card (dom (htab_map t))"
proof -
  obtain r t' where run: "hash_search (has_seq_scans (home k) (scans s)) k HASH_ENTER_NULL t = (r, t')" by fastforce
  have ok: "table_ok home nelem (home k) t" using assms by (auto simp: family_ok_def)
  hence htab: "htab_ok t" by (simp add: table_ok_def)
  note en = dt.enter_null [OF htab _ run, of 0]
  have fx: "fixed_ok nelem t \<Longrightarrow> fixed_ok nelem t'" using fixed_ok_search [of nelem t] run by (metis snd_conv)
  have s: "table_search get put (home k) k HASH_ENTER_NULL s = (r, put (home k) t' s)" "family_map get home s k = htab_map t k"
    using run assms(2) by (simp_all add: table_search_def family_map_def)
  have same: "table_ok home nelem (home k) t'" if "htab_map t' = htab_map t"
    by (rule table_ok_upd [OF ok, where x = "htab_map t k"]) (use en assms(3) fx that in auto)
  show ?thesis
  proof (cases "htab_map t k")
    case (Some v)
    with en assms(3) same s show ?thesis by (intro found [of v t']) auto
  next
    case None
    then consider v where "r = Inr (Some v, False)" "htab_map t' = (htab_map t)(k \<mapsto> v)" | "r = Inr (None, False)" "htab_map t' = htab_map t"
      using en assms(3) by auto
    then show ?thesis
    proof cases
      case 1
      with None en assms(3) s fx show ?thesis by (intro new [of t' v] table_ok_upd [OF ok]) auto
    next
      case 2
      have "nelem \<le> card (dom (htab_map t))" if "shared_id (home k)"
        using fixed_enter [of nelem t "has_seq_scans (home k) (scans s)" k] ok that run 2(1) by (force simp: table_ok_def)
      with None 2 same s show ?thesis by (intro full [of t']) auto
    qed
  qed
qed

lemma dom_table:
  assumes "family_ok get home nelem s" and "get (home k) s = Some t"
  shows "dom (htab_map t) = {k' \<in> dom (family_map get home s). home k' = home k}"
proof -
  have "home k' = home k" if "htab_map t k' = Some v" for k' v using assms that by (auto simp: family_ok_def table_ok_def)
  then show ?thesis using assms(2) by (auto simp: family_map_def split: bind_splits)
qed

lemma roomy:
  assumes "family_ok get home nelem s" and "get (home k) s = Some t"
    and "\<not> shared_id (home k) \<Longrightarrow> card {k' \<in> dom (family_map get home s). home k' = home k} + n < 2 ^ 32"
  shows "htab_roomy n t"
proof (cases "shared_id (home k)")
  case True
  hence "fixed_ok nelem t" using assms(1,2) by (auto simp: family_ok_def table_ok_def)
  then show ?thesis by (rule fixed_roomy)
next
  case False
  moreover have "htab_ok t" using assms(1,2) by (auto simp: family_ok_def table_ok_def)
  ultimately show ?thesis using assms(3) by (intro htab_room_card) (simp_all add: dom_table [OF assms(1,2)])
qed

lemma deref:
  "family_map get home s k = Some e \<Longrightarrow> entry_deref get (home k, k) s = (Inr e, s)"
  by (simp add: entry_deref_def family_map_def)

lemma update:
  assumes "family_ok get home nelem s" and "family_map get home s k = Some e"
  obtains t t' where "entry_update get put (home k, k) f s = (Inr (), put (home k) t' s)" "get (home k) s = Some t"
    "table_ok home nelem (home k) t'" "htab_map t' = (htab_map t)(k \<mapsto> f e)"
proof -
  obtain t where t: "get (home k) s = Some t" "htab_map t k = Some e" using assms(2) by (auto simp: family_map_def split: bind_splits)
  have ok: "table_ok home nelem (home k) t" using assms(1) t by (auto simp: family_ok_def)
  have st: "htab_ok (hash_store k (f e) t)" "htab_map (hash_store k (f e) t) = (htab_map t)(k \<mapsto> f e)"
    using dt.store [of t k "f e"] ok t(2) by (auto simp: table_ok_def)
  show ?thesis
  proof (rule that [OF _ t(1) _ st(2)])
    show "entry_update get put (home k, k) f s = (Inr (), put (home k) (hash_store k (f e) t) s)"
      using t by (simp add: entry_update_def)
    show "table_ok home nelem (home k) (hash_store k (f e) t)"
      using table_ok_upd [OF ok st] fixed_ok_store [of nelem t k "f e"] t(2) by auto
  qed
qed

end

section \<open>The two families\<close>

definition fork_home :: "MemSmgrForkKey \<Rightarrow> htab_id" where
  "fork_home k = (if mem_key_is_temp (rlocator k) then LocalFork else SharedFork (mem_shared_partition_for (rlocator k)))"

definition page_home :: "MemSmgrPageKey \<Rightarrow> htab_id" where
  "page_home k = (if mem_key_is_temp (rlocator k) then LocalPage else SharedPage (mem_shared_partition_for (rlocator k)))"

interpretation ft: table_family fork_table put_fork_table fork_home MEMSMGR_SHARED_FORKS_PER_PARTITION
proof (unfold_locales, goal_cases)
  case (1 h s t h' t')
  then show ?case by (cases h; cases h') (auto split: if_splits)
next
  case (2 h s t)
  then show ?case by (cases h) (auto split: if_splits)
qed

interpretation pt: table_family page_table put_page_table page_home MEMSMGR_SHARED_PAGES_PER_PARTITION
proof (unfold_locales, goal_cases)
  case (1 h s t h' t')
  then show ?case by (cases h; cases h') (auto split: if_splits)
next
  case (2 h s t)
  then show ?case by (cases h) (auto split: if_splits)
qed

definition forks :: "'m mem_state \<Rightarrow> MemSmgrForkKey \<Rightarrow> MemSmgrForkEntry option" where
  "forks = family_map fork_table fork_home"

definition pages :: "'m mem_state \<Rightarrow> MemSmgrPageKey \<Rightarrow> MemSmgrPageEntry option" where
  "pages = family_map page_table page_home"

lemma put_fork_table_sel [simp]:
  "page_table h' (put_fork_table h t s) = page_table h' s" "next_page (put_fork_table h t s) = next_page s"
  "page_data (put_fork_table h t s) = page_data s" "held_locks (put_fork_table h t s) = held_locks s"
  "scans (put_fork_table h t s) = scans s" "aio_trace (put_fork_table h t s) = aio_trace s" "md (put_fork_table h t s) = md s"
  "MemSmgrState (put_fork_table h t s) = MemSmgrState s" "arena_mapped (put_fork_table h t s) = arena_mapped s"
  "length (MemSmgrForkHashes (put_fork_table h t s)) = length (MemSmgrForkHashes s)"
  "MemSmgrPageHashes (put_fork_table h t s) = MemSmgrPageHashes s" "LocalPageHash (put_fork_table h t s) = LocalPageHash s"
  by (cases h; cases h'; simp)+

lemma put_page_table_sel [simp]:
  "fork_table h' (put_page_table h u s) = fork_table h' s" "next_page (put_page_table h u s) = next_page s"
  "page_data (put_page_table h u s) = page_data s" "held_locks (put_page_table h u s) = held_locks s"
  "scans (put_page_table h u s) = scans s" "aio_trace (put_page_table h u s) = aio_trace s" "md (put_page_table h u s) = md s"
  "MemSmgrState (put_page_table h u s) = MemSmgrState s" "arena_mapped (put_page_table h u s) = arena_mapped s"
  "length (MemSmgrPageHashes (put_page_table h u s)) = length (MemSmgrPageHashes s)"
  "MemSmgrForkHashes (put_page_table h u s) = MemSmgrForkHashes s" "LocalForkHash (put_page_table h u s) = LocalForkHash s"
  by (cases h; cases h'; simp)+

lemma put_table_local [simp]:
  "fork_table h s = Some t \<Longrightarrow> (LocalForkHash (put_fork_table h t' s) = None) = (LocalForkHash s = None)"
  "page_table h s = Some u \<Longrightarrow> (LocalPageHash (put_page_table h u' s) = None) = (LocalPageHash s = None)"
  by (cases h; auto)+

lemma table_other_fields [simp]:
  "fork_table h (s\<lparr>next_page := n\<rparr>) = fork_table h s" "page_table h (s\<lparr>next_page := n\<rparr>) = page_table h s"
  "fork_table h (s\<lparr>page_data := d\<rparr>) = fork_table h s" "page_table h (s\<lparr>page_data := d\<rparr>) = page_table h s"
  "fork_table h (s\<lparr>held_locks := l\<rparr>) = fork_table h s" "page_table h (s\<lparr>held_locks := l\<rparr>) = page_table h s"
  "fork_table h (s\<lparr>aio_trace := a\<rparr>) = fork_table h s" "page_table h (s\<lparr>aio_trace := a\<rparr>) = page_table h s"
  "fork_table h (s\<lparr>scans := c\<rparr>) = fork_table h s" "page_table h (s\<lparr>scans := c\<rparr>) = page_table h s"
  "fork_table h (s\<lparr>md := m\<rparr>) = fork_table h s" "page_table h (s\<lparr>md := m\<rparr>) = page_table h s"
  "fork_table h (s\<lparr>MemSmgrLocalCxt := c'\<rparr>) = fork_table h s" "page_table h (s\<lparr>MemSmgrLocalCxt := c'\<rparr>) = page_table h s"
  by (cases h; simp)+

lemma partition_less [simp]: "mem_shared_partition_for rl < MEMSMGR_SHARED_PARTITIONS"
  by (simp add: mem_shared_partition_for_def MEMSMGR_SHARED_PARTITIONS_def Let_def)

end
