(* ===== verification/MemSmgr_Abs.thy ===== *)
theory MemSmgr_Abs
  imports MemSmgr_Tables
begin

text \<open>
  The storage manager over maps: \<open>mem_abs\<close> forgets hash tables and page numbers and keeps the
  fork entries, the page contents by key, the number of pages handed out, locks and traces.
  \<open>mem_inv\<close> is the invariant under which that view is right: well-formed tables, no page of
  the arena used twice. Each primitive is shown to be an operation on the view.
\<close>

section \<open>The view and the invariant\<close>

definition blocks :: "'m mem_state \<Rightarrow> MemSmgrPageKey \<Rightarrow> page option" where
  "blocks s k = map_option (\<lambda>e. page_data s (page_index e)) (pages s k)"

record 'm mem_view =
  a_forks :: "MemSmgrForkKey \<Rightarrow> MemSmgrForkEntry option"
  a_blocks :: "MemSmgrPageKey \<Rightarrow> page option"
  a_next :: nat
  a_locks :: "nat list"
  a_aio :: "aio_event list"
  a_scans :: "htab_id seq_scans"
  a_md :: 'm

definition mem_abs :: "'m mem_state \<Rightarrow> 'm mem_view" where
  "mem_abs s = \<lparr>a_forks = forks s, a_blocks = blocks s, a_next = unat (next_page s), a_locks = held_locks s,
     a_aio = aio_trace s, a_scans = scans s, a_md = md s\<rparr>"

definition local_ok :: "'m mem_env \<Rightarrow> 'm mem_state \<Rightarrow> bool" where
  "local_ok env s \<longleftrightarrow>
     (if LocalForkHash s = None
      then LocalPageHash s = None \<and>
        (\<exists>t. hash_create local_flags (fork_key_hash env) 28 128 (stale_fork env) (local_fork_alloc env) = Inr t) \<and>
        (\<exists>t. hash_create local_flags (page_key_hash env) 28 1024 (stale_page env) (local_page_alloc env) = Inr t)
      else LocalPageHash s \<noteq> None)"

definition arena_ok :: "'m mem_state \<Rightarrow> bool" where
  "arena_ok s \<longleftrightarrow> unat (next_page s) \<le> MEMSMGR_SHARED_MAX_PAGES \<and>
     (\<forall>k e. pages s k = Some e \<longrightarrow> page_index e < next_page s) \<and>
     (\<forall>k k' e e'. pages s k = Some e \<longrightarrow> pages s k' = Some e' \<longrightarrow> page_index e = page_index e' \<longrightarrow> k = k') \<and>
     (\<forall>i. length (page_data s i) = BLCKSZ)"

definition mem_inv :: "'m mem_env \<Rightarrow> 'm mem_state \<Rightarrow> bool" where
  "mem_inv env s \<longleftrightarrow> MemSmgrState s \<and> arena_mapped s \<and>
     length (MemSmgrForkHashes s) = MEMSMGR_SHARED_PARTITIONS \<and> length (MemSmgrPageHashes s) = MEMSMGR_SHARED_PARTITIONS \<and>
     family_ok fork_table fork_home MEMSMGR_SHARED_FORKS_PER_PARTITION s \<and>
     family_ok page_table page_home MEMSMGR_SHARED_PAGES_PER_PARTITION s \<and>
     local_ok env s \<and> length (scans s) < MAX_SEQ_SCANS \<and> arena_ok s"

definition at_view :: "'m mem_env \<Rightarrow> 'm mem_view \<Rightarrow> 'm mem_state \<Rightarrow> bool" where
  "at_view env A s \<longleftrightarrow> mem_inv env s \<and> mem_abs s = A"

lemma at_viewD:
  assumes "at_view env A s"
  shows "mem_inv env s" "a_forks A = forks s" "a_blocks A = blocks s" "a_next A = unat (next_page s)"
    "a_locks A = held_locks s" "a_scans A = scans s" "a_aio A = aio_trace s" "a_md A = md s"
  using assms by (auto simp: at_view_def mem_abs_def)

section \<open>Changing one table\<close>

lemma forks_put_page [simp]: "forks (put_page_table h u s) = forks s"
  by (simp add: forks_def family_map_def fun_eq_iff)

lemma pages_put_fork [simp]: "pages (put_fork_table h t s) = pages s" "blocks (put_fork_table h t s) = blocks s"
  by (simp_all add: pages_def blocks_def family_map_def fun_eq_iff)

lemma family_ok_put_other [simp]:
  "family_ok page_table page_home n (put_fork_table h t s) = family_ok page_table page_home n s"
  "family_ok fork_table fork_home n (put_page_table h u s) = family_ok fork_table fork_home n s"
  by (simp_all add: family_ok_def)

lemma mem_inv_put_fork:
  assumes "mem_inv env s" and "fork_table h s = Some t" and "table_ok fork_home MEMSMGR_SHARED_FORKS_PER_PARTITION h t'"
  shows "mem_inv env (put_fork_table h t' s)"
  using assms ft.family_ok_put [OF assms(2) _ assms(3)]
  by (simp add: mem_inv_def local_ok_def arena_ok_def)

lemma at_view_put_fork:
  assumes "at_view env A s" and "fork_table (fork_home k) s = Some t"
    and "table_ok fork_home MEMSMGR_SHARED_FORKS_PER_PARTITION (fork_home k) t'" and "htab_map t' = (htab_map t)(k := x)"
  shows "at_view env (A\<lparr>a_forks := (a_forks A)(k := x)\<rparr>) (put_fork_table (fork_home k) t' s)"
  using assms mem_inv_put_fork [OF _ assms(2,3)] ft.family_map_put [OF assms(2,4)]
  by (auto simp: at_view_def mem_abs_def simp flip: forks_def)

lemma at_view_put_fork_same:
  assumes "at_view env A s" and "fork_table (fork_home k) s = Some t"
    and "table_ok fork_home MEMSMGR_SHARED_FORKS_PER_PARTITION (fork_home k) t'" and "htab_map t' = htab_map t"
  shows "at_view env A (put_fork_table (fork_home k) t' s)"
proof -
  have "htab_map t' = (htab_map t)(k := htab_map t k)" using assms(4) by simp
  moreover have "(a_forks A)(k := htab_map t k) = a_forks A"
    using assms(1,2) by (simp add: at_viewD forks_def family_map_def fun_upd_idem)
  ultimately show ?thesis using at_view_put_fork [OF assms(1-3), of "htab_map t k"] by simp
qed

section \<open>Homes of keys\<close>

text \<open>The tables of a relation are there: always for permanent relations, once made for temporary ones.\<close>

definition ready :: "RelFileLocatorBackend \<Rightarrow> 'm mem_state \<Rightarrow> bool" where
  "ready rl s \<longleftrightarrow> mem_key_is_temp rl \<longrightarrow> LocalForkHash s \<noteq> None"

lemma ready_tables:
  assumes "mem_inv env s" and "ready rl s"
  shows "rlocator k = rl \<Longrightarrow> \<exists>t. fork_table (fork_home k) s = Some t" "rlocator k' = rl \<Longrightarrow> \<exists>u. page_table (page_home k') s = Some u"
  using assms by (auto simp: mem_inv_def ready_def fork_home_def page_home_def local_ok_def)

lemma hash_create_table_ok:
  assumes "hash_create local_flags h entrysize n stale fails = Inr t" and "\<not> shared_id i"
  shows "table_ok home m i t" "htab_map t = Map.empty"
  using hash_create_ok [OF assms(1)] assms(2) by (simp_all add: table_ok_def local_flags_def valid_partitions_def)

lemma wp_ensure:
  assumes "at_view env A s"
  shows "wp (mem_ensure_local_hashes env) (\<lambda>_ s'. at_view env A s' \<and> LocalForkHash s' \<noteq> None) E s"
proof (cases "LocalForkHash s = None")
  case False
  then show ?thesis using assms by (intro wp_eqI [of _ s "()" s]) (auto simp: mem_ensure_local_hashes_def)
next
  case True
  note inv = at_viewD(1) [OF assms]
  obtain t u where t: "hash_create local_flags (fork_key_hash env) 28 128 (stale_fork env) (local_fork_alloc env) = Inr t"
    and u: "hash_create local_flags (page_key_hash env) 28 1024 (stale_page env) (local_page_alloc env) = Inr u"
    and none: "LocalPageHash s = None"
    using inv True by (auto simp: mem_inv_def local_ok_def)
  let ?s = "s\<lparr>MemSmgrLocalCxt := True, LocalForkHash := Some t, LocalPageHash := Some u\<rparr>"
  have run: "mem_ensure_local_hashes env s = (Inr (), ?s)" using t u True by (simp add: mem_ensure_local_hashes_def)
  have get: "fork_table h ?s = (if h = LocalFork then Some t else fork_table h s)"
    "page_table h ?s = (if h = LocalPage then Some u else page_table h s)" for h
    using True none by (cases h; simp)+
  have tok: "table_ok fork_home MEMSMGR_SHARED_FORKS_PER_PARTITION LocalFork t" "htab_map t = Map.empty"
    using hash_create_table_ok [OF t, of LocalFork] by (simp_all add: shared_id_def)
  have uok: "table_ok page_home MEMSMGR_SHARED_PAGES_PER_PARTITION LocalPage u" "htab_map u = Map.empty"
    using hash_create_table_ok [OF u, of LocalPage] by (simp_all add: shared_id_def)
  have fam: "family_ok fork_table fork_home MEMSMGR_SHARED_FORKS_PER_PARTITION ?s"
    "family_ok page_table page_home MEMSMGR_SHARED_PAGES_PER_PARTITION ?s"
    using inv tok(1) uok(1) unfolding mem_inv_def family_ok_def get by auto
  have maps: "forks ?s = forks s" "pages ?s = pages s"
    using True none tok(2) uok(2) unfolding forks_def pages_def family_map_def get fun_eq_iff by auto
  hence "blocks ?s = blocks s" by (simp add: blocks_def fun_eq_iff)
  moreover have "mem_inv env ?s" using inv fam maps by (simp add: mem_inv_def local_ok_def arena_ok_def)
  ultimately show ?thesis using assms maps by (simp add: wp_def run at_view_def mem_abs_def)
qed

lemma wp_fork_hash:
  assumes "at_view env A s"
  shows "wp (mem_fork_hash_for env rl) (\<lambda>h s'. h = fork_home (mem_build_fork_key rl f) \<and> at_view env A s' \<and> ready rl s') E s"
  using assms unfolding mem_fork_hash_for_def
  by (auto simp: wp_simps ready_def fork_home_def mem_build_fork_key_def intro!: wp_mono [OF wp_ensure [OF assms]])

lemma wp_page_hash:
  assumes "at_view env A s"
  shows "wp (mem_page_hash_for env rl) (\<lambda>h s'. h = page_home (mem_build_page_key rl f b) \<and> at_view env A s' \<and> ready rl s') E s"
  using assms unfolding mem_page_hash_for_def
  by (auto simp: wp_simps ready_def page_home_def mem_build_page_key_def intro!: wp_mono [OF wp_ensure [OF assms]])

section \<open>Fork entries\<close>

abbreviation fkey :: "RelFileLocatorBackend \<Rightarrow> ForkNumber \<Rightarrow> MemSmgrForkKey" where
  "fkey \<equiv> mem_build_fork_key"

abbreviation pkey :: "RelFileLocatorBackend \<Rightarrow> ForkNumber \<Rightarrow> BlockNumber \<Rightarrow> MemSmgrPageKey" where
  "pkey \<equiv> mem_build_page_key"

definition blank_entry :: MemSmgrForkEntry where
  "blank_entry = \<lparr>exists = False, on_disk = False, nblocks = 0\<rparr>"

text \<open>
  \<open>fork_room\<close>: the counters of the local fork table do not overflow. \<open>fork_slot\<close>: the
  fork table of a permanent relation has a free entry.
\<close>

definition fork_room :: "'m mem_view \<Rightarrow> bool" where
  "fork_room A \<longleftrightarrow> card {k \<in> dom (a_forks A). mem_key_is_temp (rlocator k)} < 2 ^ 32 - 1"

definition fork_slot :: "'m mem_view \<Rightarrow> RelFileLocatorBackend \<Rightarrow> bool" where
  "fork_slot A rl \<longleftrightarrow> \<not> mem_key_is_temp rl \<and>
     card {k \<in> dom (a_forks A). \<not> mem_key_is_temp (rlocator k) \<and> mem_shared_partition_for (rlocator k) = mem_shared_partition_for rl}
       < MEMSMGR_SHARED_FORKS_PER_PARTITION"

lemma fork_dom:
  assumes "at_view env A s" and "fork_table (fork_home k) s = Some t"
  shows "dom (htab_map t) = {k' \<in> dom (a_forks A). fork_home k' = fork_home k}"
  using ft.dom_table [of s k t] assms(2) at_viewD(1,2) [OF assms(1)] by (simp add: mem_inv_def forks_def)

lemma fork_roomy:
  assumes "at_view env A s" and "fork_table (fork_home k) s = Some t" and "fork_room A"
  shows "htab_roomy 1 t"
proof (rule ft.roomy [OF _ assms(2)])
  assume "\<not> shared_id (fork_home k)"
  hence "{k' \<in> dom (a_forks A). fork_home k' = fork_home k} = {k' \<in> dom (a_forks A). mem_key_is_temp (rlocator k')}"
    by (auto simp: fork_home_def shared_id_def split: if_splits)
  then show "card {k' \<in> dom (family_map fork_table fork_home s). fork_home k' = fork_home k} + 1 < 2 ^ 32"
    using assms(3) at_viewD(2) [OF assms(1)] by (simp add: fork_room_def forks_def)
qed (use at_viewD(1) [OF assms(1)] in \<open>simp add: mem_inv_def\<close>)

lemma wp_fork_find:
  assumes "at_view env A s" and "ready (rlocator k) s" and "Q (a_forks A k, a_forks A k \<noteq> None) s"
  shows "wp (fork_search (fork_home k) k HASH_FIND) Q E s"
proof -
  obtain t where t: "fork_table (fork_home k) s = Some t" using ready_tables(1) [OF at_viewD(1) [OF assms(1)] assms(2)] by blast
  have "family_ok fork_table fork_home MEMSMGR_SHARED_FORKS_PER_PARTITION s" using at_viewD(1) [OF assms(1)] by (simp add: mem_inv_def)
  with ft.find [OF this t] assms(3) at_viewD(2) [OF assms(1)] show ?thesis by (simp add: wp_def forks_def)
qed

lemma wp_fork_remove:
  assumes "at_view env A s" and "ready (rlocator k) s"
    and "\<And>r s'. at_view env (A\<lparr>a_forks := (a_forks A)(k := None)\<rparr>) s' \<Longrightarrow> Q r s'"
  shows "wp (fork_search (fork_home k) k HASH_REMOVE) Q E s"
proof -
  obtain t where t: "fork_table (fork_home k) s = Some t" using ready_tables(1) [OF at_viewD(1) [OF assms(1)] assms(2)] by blast
  have fam: "family_ok fork_table fork_home MEMSMGR_SHARED_FORKS_PER_PARTITION s" using at_viewD(1) [OF assms(1)] by (simp add: mem_inv_def)
  show ?thesis
    by (rule ft.remove [OF fam t]) (use at_view_put_fork [OF assms(1) t] assms(3) in \<open>simp add: wp_def\<close>)
qed

lemma wp_fork_enter:
  assumes "at_view env A s" and "ready (rlocator k) s" and "fork_room A"
    and some: "\<And>v s'. at_view env (A\<lparr>a_forks := (a_forks A)(k \<mapsto> v)\<rparr>) s' \<Longrightarrow> a_forks A k \<in> {None, Some v} \<Longrightarrow> Q (Some v, a_forks A k \<noteq> None) s'"
    and none: "\<And>s'. at_view env A s' \<Longrightarrow> a_forks A k = None \<Longrightarrow> \<not> fork_slot A (rlocator k) \<Longrightarrow> Q (None, False) s'"
  shows "wp (fork_search (fork_home k) k HASH_ENTER_NULL) Q E s"
proof -
  obtain t where t: "fork_table (fork_home k) s = Some t" using ready_tables(1) [OF at_viewD(1) [OF assms(1)] assms(2)] by blast
  have fam: "family_ok fork_table fork_home MEMSMGR_SHARED_FORKS_PER_PARTITION s" using at_viewD(1) [OF assms(1)] by (simp add: mem_inv_def)
  note fk = at_viewD(2) [OF assms(1), symmetric]
  show ?thesis
  proof (cases rule: ft.enter [OF fam t fork_roomy [OF assms(1) t assms(3)], unfolded forks_def [symmetric] fk, case_names found new full])
    case (found v t')
    have "at_view env (A\<lparr>a_forks := (a_forks A)(k \<mapsto> v)\<rparr>) (put_fork_table (fork_home k) t' s)"
      using at_view_put_fork_same [OF assms(1) t found(3,2)] found(1) by (simp add: fun_upd_idem)
    from some [OF this] found show ?thesis by (simp add: wp_def)
  next
    case (new v t')
    from some [OF at_view_put_fork [OF assms(1) t new(3,2)]] new show ?thesis by (simp add: wp_def)
  next
    case (full t')
    have "\<not> fork_slot A (rlocator k)"
    proof
      assume slot: "fork_slot A (rlocator k)"
      hence sh: "shared_id (fork_home k)" by (simp add: fork_slot_def fork_home_def shared_id_def)
      have "{k' \<in> dom (a_forks A). fork_home k' = fork_home k} = {k' \<in> dom (a_forks A). \<not> mem_key_is_temp (rlocator k') \<and>
          mem_shared_partition_for (rlocator k') = mem_shared_partition_for (rlocator k)}"
        using slot by (auto simp: fork_home_def fork_slot_def)
      with full(5) [OF sh] slot show False by (simp add: fork_dom [OF assms(1) t] fork_slot_def)
    qed
    with none [OF at_view_put_fork_same [OF assms(1) t full(3,2)]] full show ?thesis by (simp add: wp_def)
  qed
qed

lemma wp_fork_deref:
  assumes "at_view env A s" and "a_forks A k = Some e" and "Q e s"
  shows "wp (fork_deref (fork_home k, k)) Q E s"
  using ft.deref [of s k e] assms at_viewD(2) [OF assms(1)] by (simp add: wp_def forks_def)

lemma wp_fork_update:
  assumes "at_view env A s" and "a_forks A k = Some e"
    and "\<And>s'. at_view env (A\<lparr>a_forks := (a_forks A)(k \<mapsto> f e)\<rparr>) s' \<Longrightarrow> Q () s'"
  shows "wp (fork_update (fork_home k, k) f) Q E s"
proof -
  have fam: "family_ok fork_table fork_home MEMSMGR_SHARED_FORKS_PER_PARTITION s" using at_viewD(1) [OF assms(1)] by (simp add: mem_inv_def)
  have e: "family_map fork_table fork_home s k = Some e" using assms(2) at_viewD(2) [OF assms(1)] by (simp add: forks_def)
  show ?thesis
    by (rule ft.update [OF fam e, of f]) (use at_view_put_fork [OF assms(1)] assms(3) in \<open>simp add: wp_def\<close>)
qed

lemma wp_lift [wp_simps]: "wp (pg_lift r) Q E s = (case r of Inl e \<Rightarrow> E e s | Inr a \<Rightarrow> Q a s)"
  by (simp add: wp_def pg_lift_def split: sum.splits)

lemma wp_require [wp_simps]: "wp (require (Some p) f) Q E s = wp (f p) Q E s" "wp (require None f) Q E s = E (Undefined ''null entry'') s"
  by (simp_all add: require_def wp_simps)

lemma rlocator_key [simp]:
  "rlocator (fkey rl f) = rl" "rlocator (pkey rl f b) = rl" "forknum (fkey rl f) = f" "forknum (pkey rl f b) = f" "blocknum (pkey rl f b) = b"
  by (simp_all add: mem_build_fork_key_def mem_build_page_key_def)

lemma key_inject [simp]:
  "fkey rl f = fkey rl' f' \<longleftrightarrow> rl = rl' \<and> f = f'" "pkey rl f b = pkey rl' f' b' \<longleftrightarrow> rl = rl' \<and> f = f' \<and> b = b'"
  by (auto simp: mem_build_fork_key_def mem_build_page_key_def)

lemma wp_lookup_fork:
  assumes "at_view env A s"
    and "\<And>s'. at_view env A s' \<Longrightarrow> ready rl s' \<Longrightarrow> Q (if a_forks A (fkey rl f) = None then None else Some (fork_home (fkey rl f), fkey rl f)) s'"
  shows "wp (mem_lookup_fork_entry env rl f) Q E s"
  unfolding mem_lookup_fork_entry_def Let_def wp_simps
proof (rule wp_mono [OF wp_fork_hash [OF assms(1), of rl f]], goal_cases)
  case (1 h t)
  then show ?case using assms(2) [of t] by (auto intro!: wp_fork_find simp: wp_simps)
qed

definition fork_table_full :: pg_error where
  "fork_table_full = Ereport ERROR ERRCODE_OUT_OF_MEMORY ''memory storage manager fork table is full''"

lemma wp_create_fork:
  assumes "at_view env A s" and "fork_room A"
    and "\<And>s'. at_view env (A\<lparr>a_forks := (a_forks A)(fkey rl f \<mapsto> case a_forks A (fkey rl f) of None \<Rightarrow> blank_entry | Some e \<Rightarrow> e)\<rparr>) s'
      \<Longrightarrow> Q (fork_home (fkey rl f), fkey rl f) s'"
    and "\<And>s'. at_view env A s' \<Longrightarrow> a_forks A (fkey rl f) = None \<Longrightarrow> \<not> fork_slot A rl \<Longrightarrow> E fork_table_full s'"
  shows "wp (mem_create_fork_entry env rl f) Q E s"
  unfolding mem_create_fork_entry_def Let_def wp_simps
proof (rule wp_mono [OF wp_fork_hash [OF assms(1), of rl f]], goal_cases)
  case (1 h t)
  hence t: "h = fork_home (fkey rl f)" "at_view env A t" "ready (rlocator (fkey rl f)) t" by simp_all
  show ?case unfolding t(1)
  proof (rule wp_fork_enter [OF t(2,3) assms(2)], goal_cases)
    case (1 v s')
    then show ?case using assms(3)
      by (auto simp: wp_simps blank_entry_def intro!: wp_fork_update [OF 1(1), of "fkey rl f" v])
  next
    case (2 s')
    then show ?case using assms(4) by (simp add: wp_simps fork_table_full_def)
  qed
qed simp

text \<open>What a fork without an entry is: the seed's fork when there is one, no fork otherwise.\<close>

definition default_entry :: "'m mem_env \<Rightarrow> RelFileLocatorBackend \<Rightarrow> ForkNumber \<Rightarrow> MemSmgrForkEntry" where
  "default_entry env rl f =
     (if mem_seed_exists env rl f = Inr True
      then \<lparr>exists = True, on_disk = True, nblocks = (case mem_seed_nblocks env rl f of Inr n \<Rightarrow> n | Inl _ \<Rightarrow> 0)\<rparr>
      else blank_entry)"

definition fork_entry :: "'m mem_env \<Rightarrow> 'm mem_view \<Rightarrow> RelFileLocatorBackend \<Rightarrow> ForkNumber \<Rightarrow> MemSmgrForkEntry" where
  "fork_entry env A rl f = (case a_forks A (fkey rl f) of Some e \<Rightarrow> e | None \<Rightarrow> default_entry env rl f)"

definition set_fork :: "RelFileLocatorBackend \<Rightarrow> ForkNumber \<Rightarrow> MemSmgrForkEntry \<Rightarrow> 'm mem_view \<Rightarrow> 'm mem_view" where
  "set_fork rl f e A = A\<lparr>a_forks := (a_forks A)(fkey rl f \<mapsto> e)\<rparr>"

text \<open>The ways in which finding the entry of a fork raises an error, and what it leaves.\<close>

definition fork_error :: "'m mem_env \<Rightarrow> 'm mem_view \<Rightarrow> RelFileLocatorBackend \<Rightarrow> ForkNumber \<Rightarrow> pg_error \<Rightarrow> 'm mem_view \<Rightarrow> bool" where
  "fork_error env A rl f e A' \<longleftrightarrow> a_forks A (fkey rl f) = None \<and>
     (e = fork_table_full \<and> A' = A \<and> \<not> fork_slot A rl
      \<or> mem_seed_exists env rl f = Inl e \<and> A' = set_fork rl f blank_entry A
      \<or> mem_seed_exists env rl f = Inr True \<and> mem_seed_nblocks env rl f = Inl e \<and>
        A' = set_fork rl f \<lparr>exists = True, on_disk = True, nblocks = 0\<rparr> A)"

text \<open>Filling in the entry of a fork that the seed has.\<close>

lemma wp_backed:
  assumes "at_view env (set_fork rl f e A) s"
    and "\<And>n s'. r = Inr n \<Longrightarrow> at_view env (set_fork rl f \<lparr>exists = True, on_disk = True, nblocks = n\<rparr> A) s' \<Longrightarrow> Q () s'"
    and "\<And>err s'. r = Inl err \<Longrightarrow> at_view env (set_fork rl f \<lparr>exists = True, on_disk = True, nblocks = nblocks e\<rparr> A) s' \<Longrightarrow> E err s'"
  shows "wp (fork_update (fork_home (fkey rl f), fkey rl f) (\<lambda>e. e\<lparr>exists := True, on_disk := True\<rparr>))
    (\<lambda>_ s. case r of Inl e \<Rightarrow> E e s
       | Inr n \<Rightarrow> wp (fork_update (fork_home (fkey rl f), fkey rl f) (\<lambda>e. e\<lparr>nblocks := n\<rparr>)) Q E s) E s"
proof -
  let ?k = "fkey rl f" and ?e = "\<lparr>exists = True, on_disk = True, nblocks = nblocks e\<rparr>"
  have upd: "(set_fork rl f e A)\<lparr>a_forks := (a_forks (set_fork rl f e A))(?k \<mapsto> e')\<rparr> = set_fork rl f e' A" for e e'
    by (simp add: set_fork_def)
  have k: "a_forks (set_fork rl f e A) ?k = Some e" for e by (simp add: set_fork_def)
  show ?thesis
  proof (rule wp_fork_update [OF assms(1) k], unfold upd, goal_cases)
    case (1 s')
    hence s': "at_view env (set_fork rl f ?e A) s'" by (cases e) simp
    show ?case
    proof (cases r)
      case (Inl err)
      then show ?thesis using assms(3) [OF _ s'] by simp
    next
      case (Inr n)
      then show ?thesis using assms(2) unfolding Inr sum.case by (intro wp_fork_update [OF s' k]) (simp_all add: upd)
    qed
  qed
qed

lemma wp_get_fork:
  assumes "\<not> mem_use_md env" and "at_view env A s" and "a_forks A (fkey rl f) = None \<Longrightarrow> fork_room A"
    and ok: "\<And>s'. at_view env (set_fork rl f (fork_entry env A rl f) A) s' \<Longrightarrow> Q (Some (fork_home (fkey rl f), fkey rl f)) s'"
    and err: "\<And>e A' s'. at_view env A' s' \<Longrightarrow> fork_error env A rl f e A' \<Longrightarrow> E e s'"
  shows "wp (mem_get_fork_entry env rl f True) Q E s"
  unfolding mem_get_fork_entry_def wp_simps
proof (rule wp_lookup_fork [OF assms(2)], goal_cases)
  case (1 s1)
  let ?k = "fkey rl f"
  show ?case
  proof (cases "a_forks A ?k")
    case (Some e)
    hence "set_fork rl f (fork_entry env A rl f) A = A" by (simp add: set_fork_def fork_entry_def fun_upd_idem)
    with ok [of s1] 1 Some show ?thesis by (simp add: wp_simps)
  next
    case None
    have active: "mem_seed_active_for env rl \<longleftrightarrow> \<not> mem_key_is_temp rl" using assms(1) by (simp add: mem_use_md_def mem_seed_active_for_def)
    have temp: "mem_seed_exists env rl f = Inr False" if "mem_key_is_temp rl" using that by (simp add: mem_seed_exists_def active)
    have "wp (mem_create_fork_entry env rl f) (\<lambda>p s'. p = (fork_home ?k, ?k) \<and> at_view env (set_fork rl f blank_entry A) s') E s1"
      by (rule wp_create_fork [OF 1(1) assms(3) [OF None]]) (use None err in \<open>auto simp: set_fork_def fork_error_def\<close>)
    then show ?thesis unfolding None simp_thms if_False if_True not_True_eq_False
    proof (simp add: wp_simps, rule wp_mono, goal_cases)
      case (1 p s2)
      hence s2: "at_view env (set_fork rl f blank_entry A) s2" "p = (fork_home ?k, ?k)" by simp_all
      consider (error) e where "mem_seed_exists env rl f = Inl e" | (no) "mem_seed_exists env rl f = Inr False" | (yes) "mem_seed_exists env rl f = Inr True"
        by (cases "mem_seed_exists env rl f") auto
      then show ?case
      proof cases
        case error
        with temp active None show ?thesis using err [OF s2(1), of e] by (auto simp: fork_error_def)
      next
        case no
        hence "fork_entry env A rl f = blank_entry" using None by (simp add: fork_entry_def default_entry_def)
        with ok [of s2] s2 no temp active show ?thesis by (simp add: wp_simps)
      next
        case yes
        with temp have "\<not> mem_key_is_temp rl" by auto
        moreover have "fork_entry env A rl f = \<lparr>exists = True, on_disk = True, nblocks = n\<rparr>" if "mem_seed_nblocks env rl f = Inr n" for n
          using None yes that by (simp add: fork_entry_def default_entry_def)
        ultimately show ?thesis unfolding s2(2)
          using yes active None ok err by (auto simp: wp_simps fork_error_def blank_entry_def intro!: wp_backed [OF s2(1)])
      qed
    qed simp
  qed
qed

end
