(* ===== verification/MemSmgr_Pages.thy ===== *)
theory MemSmgr_Pages
  imports MemSmgr_Abs
begin

text \<open>
  Pages of the memory storage manager over the view of \<open>MemSmgr_Abs\<close>: finding, creating, reading
  and writing the page of a block, and removing the pages of a fork.
\<close>

section \<open>Facts of the arena\<close>

lemma blocks_None [simp]: "blocks s k = None \<longleftrightarrow> pages s k = None"
  by (simp add: blocks_def)

lemma dom_blocks [simp]: "dom (blocks s) = dom (pages s)"
  by (auto simp: blocks_def)

lemma arena_pages_bound:
  assumes "arena_ok s"
  shows "card (dom (pages s)) \<le> MEMSMGR_SHARED_MAX_PAGES" "finite (dom (pages s))"
proof -
  let ?f = "\<lambda>k. unat (page_index (the (pages s k)))"
  have inj: "inj_on ?f (dom (pages s))" using assms by (fastforce simp: inj_on_def arena_ok_def word_unat_eq_iff)
  have sub: "?f ` dom (pages s) \<subseteq> {..<unat (next_page s)}" using assms by (auto simp: arena_ok_def word_less_nat_alt)
  show "finite (dom (pages s))" using finite_subset [OF sub] finite_imageD [OF _ inj] by simp
  have "card (dom (pages s)) = card (?f ` dom (pages s))" by (rule card_image [OF inj, symmetric])
  also have "\<dots> \<le> unat (next_page s)" using card_mono [OF _ sub] by simp
  also have "\<dots> \<le> MEMSMGR_SHARED_MAX_PAGES" using assms by (simp add: arena_ok_def)
  finally show "card (dom (pages s)) \<le> MEMSMGR_SHARED_MAX_PAGES" .
qed

lemma max_pages_u32: "unat (of_nat MEMSMGR_SHARED_MAX_PAGES :: u32) = MEMSMGR_SHARED_MAX_PAGES" "MEMSMGR_SHARED_MAX_PAGES < 2 ^ 32"
  by (simp_all add: MEMSMGR_SHARED_MAX_PAGES_def)

lemma unat_next: "unat n \<le> MEMSMGR_SHARED_MAX_PAGES \<Longrightarrow> unat (n + 1) = Suc (unat n)" for n :: u32
proof (rule unat_plus_one)
  assume n: "unat n \<le> MEMSMGR_SHARED_MAX_PAGES"
  show "n \<noteq> - 1"
  proof
    assume "n = - 1"
    hence "unat n = 2 ^ 32 - 1" by (simp add: unsigned_minus_1_eq_mask mask_eq_exp_minus_1)
    with n show False by (simp add: MEMSMGR_SHARED_MAX_PAGES_def)
  qed
qed

lemma max_pages_le: "of_nat MEMSMGR_SHARED_MAX_PAGES \<le> (i :: u32) \<longleftrightarrow> MEMSMGR_SHARED_MAX_PAGES \<le> unat i"
  by (simp add: word_le_nat_alt max_pages_u32)

lemma page_roomy:
  assumes "mem_inv env s" and "page_table (page_home k) s = Some t"
  shows "htab_roomy 1 t"
proof (rule pt.roomy [OF _ assms(2)])
  have ar: "arena_ok s" using assms(1) by (simp add: mem_inv_def)
  have "card {k' \<in> dom (pages s). page_home k' = page_home k} \<le> MEMSMGR_SHARED_MAX_PAGES"
    using card_mono [OF arena_pages_bound(2) [OF ar], of "{k' \<in> dom (pages s). page_home k' = page_home k}"] arena_pages_bound(1) [OF ar] by auto
  then show "card {k' \<in> dom (family_map page_table page_home s). page_home k' = page_home k} + 1 < 2 ^ 32"
    by (simp add: MEMSMGR_SHARED_MAX_PAGES_def flip: pages_def)
qed (use assms(1) in \<open>simp add: mem_inv_def\<close>)

text \<open>\<open>page_slot\<close>: partition and arena have room for \<open>n\<close> more pages of a permanent relation.\<close>

definition page_slot :: "'m mem_view \<Rightarrow> RelFileLocatorBackend \<Rightarrow> nat \<Rightarrow> bool" where
  "page_slot A rl n \<longleftrightarrow> \<not> mem_key_is_temp rl \<and>
     card {k \<in> dom (a_blocks A). \<not> mem_key_is_temp (rlocator k) \<and> mem_shared_partition_for (rlocator k) = mem_shared_partition_for rl} + n
       \<le> MEMSMGR_SHARED_PAGES_PER_PARTITION \<and>
     a_next A + n \<le> MEMSMGR_SHARED_MAX_PAGES"

section \<open>Replacing a page table\<close>

lemma pages_put:
  assumes "page_table (page_home k) s = Some t" and "htab_map t' = (htab_map t)(k := x)"
  shows "pages (put_page_table (page_home k) t' s) = (pages s)(k := x)"
  using pt.family_map_put [OF assms] by (simp add: pages_def)

lemma mem_inv_put_page:
  assumes "mem_inv env s" and "page_table h s = Some t" and "table_ok page_home MEMSMGR_SHARED_PAGES_PER_PARTITION h t'"
    and "arena_ok (put_page_table h t' s)"
  shows "mem_inv env (put_page_table h t' s)"
  using assms pt.family_ok_put [OF assms(2) _ assms(3)] by (simp add: mem_inv_def local_ok_def)

lemma at_view_put_page_same:
  assumes "at_view env A s" and "page_table (page_home k) s = Some t"
    and "table_ok page_home MEMSMGR_SHARED_PAGES_PER_PARTITION (page_home k) t'" and "htab_map t' = htab_map t"
  shows "at_view env A (put_page_table (page_home k) t' s)"
proof -
  have "htab_map t' = (htab_map t)(k := htab_map t k)" using assms(4) by simp
  from pages_put [OF assms(2) this] have p: "pages (put_page_table (page_home k) t' s) = pages s"
    using assms(2) by (simp add: pages_def family_map_def fun_upd_idem)
  hence "arena_ok (put_page_table (page_home k) t' s)" using at_viewD(1) [OF assms(1)] by (simp add: mem_inv_def arena_ok_def)
  with assms p mem_inv_put_page [OF _ assms(2,3)] show ?thesis
    by (auto simp: at_view_def mem_abs_def blocks_def fun_eq_iff)
qed

section \<open>Finding, reading and writing\<close>

lemma inv_page_family: "mem_inv env s \<Longrightarrow> family_ok page_table page_home MEMSMGR_SHARED_PAGES_PER_PARTITION s"
  by (simp add: mem_inv_def)

lemma wp_get_page_find:
  assumes "at_view env A s"
    and "\<And>s'. at_view env A s' \<Longrightarrow> ready rl s' \<Longrightarrow>
      Q (if a_blocks A (pkey rl f b) = None then None else Some (page_home (pkey rl f b), pkey rl f b)) s'"
  shows "wp (mem_get_page_entry env rl f b False) Q E s"
  unfolding mem_get_page_entry_def Let_def wp_simps
proof (rule wp_mono [OF wp_page_hash [OF assms(1), of rl f b]], goal_cases)
  case (1 h t)
  hence t: "h = page_home (pkey rl f b)" "at_view env A t" "ready rl t" by simp_all
  obtain u where u: "page_table (page_home (pkey rl f b)) t = Some u"
    using ready_tables(2) [OF at_viewD(1) [OF t(2)] t(3), where k' = "pkey rl f b"] by auto
  from pt.find [OF inv_page_family [OF at_viewD(1) [OF t(2)]] u] assms(2) [OF t(2,3)] at_viewD(3) [OF t(2)] show ?case
    unfolding t(1) by (simp add: wp_def pg_simps flip: pages_def)
qed simp

lemma page_index_ok:
  assumes "at_view env A s" and "a_blocks A k = Some p"
  obtains i where "mem_page_data (page_home k, k) s = (Inr i, s)" "page_data s i = p" "pages s k = Some \<lparr>page_index = i\<rparr>"
proof -
  obtain e where e: "pages s k = Some e" "page_data s (page_index e) = p" using assms at_viewD(3) [OF assms(1)] by (auto simp: blocks_def)
  have "unat (page_index e) < MEMSMGR_SHARED_MAX_PAGES"
    using at_viewD(1) [OF assms(1)] e(1) by (fastforce simp: mem_inv_def arena_ok_def word_less_nat_alt)
  hence "mem_page_data (page_home k, k) s = (Inr (page_index e), s)"
    using pt.deref [of s k e] e(1) at_viewD(1) [OF assms(1)]
    by (simp add: mem_page_data_def pages_def pg_simps max_pages_le mem_inv_def)
  with that [of "page_index e"] e show ?thesis by simp
qed

lemma wp_page_read:
  assumes "at_view env A s" and "a_blocks A k = Some p" and "Q p s"
  shows "wp (page_read (page_home k, k)) Q E s"
  by (rule page_index_ok [OF assms(1,2)]) (use assms(3) in \<open>simp add: page_read_def wp_def pg_simps\<close>)

lemma wp_page_write:
  assumes "at_view env A s" and "a_blocks A k = Some p0" and "length p = BLCKSZ"
    and "\<And>s'. at_view env (A\<lparr>a_blocks := (a_blocks A)(k \<mapsto> p)\<rparr>) s' \<Longrightarrow> Q () s'"
  shows "wp (page_write (page_home k, k) p) Q E s"
proof (rule page_index_ok [OF assms(1,2)])
  fix i assume i: "mem_page_data (page_home k, k) s = (Inr i, s)" "pages s k = Some \<lparr>page_index = i\<rparr>"
  let ?s = "s\<lparr>page_data := (page_data s)(i := p)\<rparr>"
  note inv = at_viewD(1) [OF assms(1)]
  have maps: "pages ?s = pages s" "forks ?s = forks s" by (simp_all add: pages_def forks_def family_map_def fun_eq_iff)
  have other: "page_index e \<noteq> i" if "pages s k' = Some e" "k' \<noteq> k" for k' e
    using that i(2) inv by (force simp: mem_inv_def arena_ok_def)
  have "blocks ?s k' = ((blocks s)(k \<mapsto> p)) k'" for k'
    using other [of k'] i(2) by (cases "pages s k'") (auto simp: blocks_def maps)
  hence b: "blocks ?s = (blocks s)(k \<mapsto> p)" by auto
  have "mem_inv env ?s" using inv assms(3) maps by (simp add: mem_inv_def family_ok_def local_ok_def arena_ok_def)
  hence "at_view env (A\<lparr>a_blocks := (a_blocks A)(k \<mapsto> p)\<rparr>) ?s" using assms(1) b maps by (auto simp: at_view_def mem_abs_def)
  from assms(4) [OF this] i(1) show ?thesis by (simp add: page_write_def wp_def pg_simps)
qed

section \<open>New pages\<close>

definition page_table_full :: pg_error where
  "page_table_full = Ereport ERROR ERRCODE_OUT_OF_MEMORY ''memory storage manager page table is full''"

definition arena_full :: pg_error where
  "arena_full = Ereport ERROR ERRCODE_OUT_OF_MEMORY ''memory storage manager page arena is full''"

definition add_page :: "MemSmgrPageKey \<Rightarrow> 'm mem_view \<Rightarrow> 'm mem_view" where
  "add_page k A = (if a_blocks A k = None then A\<lparr>a_blocks := (a_blocks A)(k \<mapsto> zero_page), a_next := Suc (a_next A)\<rparr> else A)"

text \<open>
  The errors of a new page. When the page table has no entry nothing changes; when the arena is full
  an entry for the block stays behind, with whatever page number was in it.
\<close>

definition page_error :: "'m mem_env \<Rightarrow> 'm mem_view \<Rightarrow> MemSmgrPageKey \<Rightarrow> pg_error \<Rightarrow> 'm mem_state \<Rightarrow> bool" where
  "page_error env A k e s' \<longleftrightarrow> a_blocks A k = None \<and> \<not> page_slot A (rlocator k) 1 \<and>
     (e = page_table_full \<and> at_view env A s'
      \<or> e = arena_full \<and> a_next A = MEMSMGR_SHARED_MAX_PAGES \<and>
        (\<exists>p. mem_abs s' = A\<lparr>a_blocks := (a_blocks A)(k \<mapsto> p), a_next := Suc MEMSMGR_SHARED_MAX_PAGES\<rparr>))"

lemma zero_page_length [simp]: "length zero_page = BLCKSZ"
  by (simp add: zero_page_def)

lemma arena_ok_new:
  assumes "arena_ok s" and "pages s k = None" and "unat (next_page s) < MEMSMGR_SHARED_MAX_PAGES"
    and "pages s' = (pages s)(k \<mapsto> \<lparr>page_index = next_page s\<rparr>)" and "next_page s' = next_page s + 1"
    and "page_data s' = (page_data s)(next_page s := zero_page)"
  shows "arena_ok s'" "blocks s' = (blocks s)(k \<mapsto> zero_page)"
proof -
  let ?n = "next_page s"
  have n: "unat (?n + 1) = Suc (unat ?n)" using assms(3) by (intro unat_next) simp
  have old: "page_index e < ?n" if "pages s k' = Some e" for k' e using assms(1) that by (auto simp: arena_ok_def)
  have "page_index e < ?n + 1" if "pages s' k' = Some e" for k' e
    using that assms(4) old [of k' e] n by (auto simp: word_less_nat_alt split: if_splits)
  moreover have "k' = k''" if "pages s' k' = Some e" "pages s' k'' = Some e'" "page_index e = page_index e'" for k' k'' e e'
  proof (cases "k' = k \<or> k'' = k")
    case True
    then show ?thesis using that assms(4) old [of k' e] old [of k'' e'] by (auto split: if_splits)
  qed (use that assms(1,4) in \<open>auto simp: arena_ok_def\<close>)
  ultimately show "arena_ok s'" using assms(1,3,5,6) n by (auto simp: arena_ok_def)
  have "blocks s' k' = ((blocks s)(k \<mapsto> zero_page)) k'" for k'
    using old [of k'] assms(4,6) by (cases "pages s k'") (auto simp: blocks_def)
  then show "blocks s' = (blocks s)(k \<mapsto> zero_page)" by auto
qed

lemma page_slot_full:
  assumes "mem_inv env s" and "page_table (page_home k) s = Some t" and "page_slot (mem_abs s) (rlocator k) 1"
  shows "shared_id (page_home k)" "card (dom (htab_map t)) < MEMSMGR_SHARED_PAGES_PER_PARTITION"
proof -
  show "shared_id (page_home k)" using assms(3) by (simp add: page_slot_def page_home_def shared_id_def)
  have "dom (htab_map t) = {k' \<in> dom (pages s). \<not> mem_key_is_temp (rlocator k') \<and>
      mem_shared_partition_for (rlocator k') = mem_shared_partition_for (rlocator k)}"
    using assms(3) pt.dom_table [OF inv_page_family [OF assms(1)] assms(2)]
    by (auto simp: page_slot_def page_home_def simp flip: pages_def)
  then show "card (dom (htab_map t)) < MEMSMGR_SHARED_PAGES_PER_PARTITION"
    using assms(3) by (simp add: page_slot_def mem_abs_def)
qed

text \<open>The steps after the page table made an entry: a page number, the entry, zeroes.\<close>

lemma wp_new_page:
  assumes "at_view env A s" and "page_table (page_home k) s = Some t" and "a_blocks A k = None"
    and "table_ok page_home MEMSMGR_SHARED_PAGES_PER_PARTITION (page_home k) t'" and "htab_map t' = (htab_map t)(k \<mapsto> v)"
    and "\<And>s'. at_view env (add_page k A) s' \<Longrightarrow> Q () s'" and "\<And>e s'. page_error env A k e s' \<Longrightarrow> E e s'"
  shows "wp (pg_bind mem_alloc_page_index (\<lambda>i. pg_bind (page_update (page_home k, k) (\<lambda>e. e\<lparr>page_index := i\<rparr>)) (\<lambda>_.
      page_write (page_home k, k) zero_page))) Q E (put_page_table (page_home k) t' s)"
proof -
  note inv = at_viewD(1) [OF assms(1)]
  let ?s1 = "put_page_table (page_home k) t' s" and ?n = "next_page s"
  let ?s2 = "?s1\<lparr>next_page := ?n + 1\<rparr>"
  have alloc: "mem_alloc_page_index ?s1 = (if MEMSMGR_SHARED_MAX_PAGES \<le> unat ?n then (Inl arena_full, ?s2) else (Inr ?n, ?s2))"
    using inv by (simp add: mem_alloc_page_index_def mem_inv_def Let_def max_pages_le pg_simps arena_full_def)
  have p1: "pages ?s1 = (pages s)(k \<mapsto> v)" by (rule pages_put [OF assms(2,5)])
  have none: "pages s k = None" using assms(3) at_viewD(3) [OF assms(1)] by simp
  have p2: "pages ?s2 = (pages s)(k \<mapsto> v)" "forks ?s2 = forks s" unfolding p1 [symmetric]
    by (simp_all add: pages_def forks_def family_map_def fun_eq_iff)
  show ?thesis
  proof (cases "MEMSMGR_SHARED_MAX_PAGES \<le> unat ?n")
    case True
    have n: "unat ?n = MEMSMGR_SHARED_MAX_PAGES" using True inv by (simp add: mem_inv_def arena_ok_def)
    hence n1: "unat (?n + 1) = Suc MEMSMGR_SHARED_MAX_PAGES" using unat_next [of ?n] by simp
    have "page_error env A k arena_full ?s2"
      using assms(1,3) n n1 p2 by (auto simp: page_error_def at_view_def mem_abs_def blocks_def page_slot_def fun_eq_iff)
    with assms(7) alloc True show ?thesis by (simp add: wp_def pg_simps)
  next
    case False
    have fam: "family_ok page_table page_home MEMSMGR_SHARED_PAGES_PER_PARTITION ?s2"
      using pt.family_ok_put [OF assms(2) inv_page_family [OF inv] assms(4)] by (simp add: family_ok_def)
    have v: "family_map page_table page_home ?s2 k = Some v" using p2(1) by (simp flip: pages_def)
    show ?thesis
    proof (rule pt.update [OF fam v, of "\<lambda>e. e\<lparr>page_index := ?n\<rparr>"])
      fix u u'
      assume u: "page_update (page_home k, k) (\<lambda>e. e\<lparr>page_index := ?n\<rparr>) ?s2 = (Inr (), put_page_table (page_home k) u' ?s2)"
        "page_table (page_home k) ?s2 = Some u" "table_ok page_home MEMSMGR_SHARED_PAGES_PER_PARTITION (page_home k) u'"
        "htab_map u' = (htab_map u)(k \<mapsto> v\<lparr>page_index := ?n\<rparr>)"
      let ?s3 = "put_page_table (page_home k) u' ?s2"
      let ?s4 = "?s3\<lparr>page_data := (page_data s)(?n := zero_page)\<rparr>"
      have "v\<lparr>page_index := ?n\<rparr> = \<lparr>page_index = ?n\<rparr>" by (cases v) simp
      from pages_put [OF u(2,4), unfolded this p2(1)] have p3: "pages ?s3 = (pages s)(k \<mapsto> \<lparr>page_index = ?n\<rparr>)" by simp
      have p4: "pages ?s4 = pages ?s3" "forks ?s4 = forks s" unfolding p2(2) [symmetric]
        by (simp_all add: pages_def forks_def family_map_def fun_eq_iff)
      have ar: "arena_ok ?s4" "blocks ?s4 = (blocks s)(k \<mapsto> zero_page)"
        using arena_ok_new [of s k ?s4] inv none False p3 p4 by (simp_all add: mem_inv_def)
      have "family_ok page_table page_home MEMSMGR_SHARED_PAGES_PER_PARTITION ?s3" by (rule pt.family_ok_put [OF u(2) fam u(3)])
      hence "mem_inv env ?s4" using inv ar(1) u(2) by (simp add: mem_inv_def family_ok_def local_ok_def assms(2))
      moreover have "unat (?n + 1) = Suc (unat ?n)" using False by (intro unat_next) simp
      ultimately have "at_view env (add_page k A) ?s4"
        using assms(1,3) ar(2) p4 by (auto simp: at_view_def mem_abs_def add_page_def)
      moreover have "page_write (page_home k, k) zero_page ?s3 = (Inr (), ?s4)"
        using pt.deref [of ?s3 k "\<lparr>page_index = ?n\<rparr>"] p3 inv False
        by (simp add: page_write_def mem_page_data_def pg_simps max_pages_le mem_inv_def flip: pages_def)
      ultimately show ?thesis using alloc False u(1) assms(6) by (simp add: wp_def pg_simps)
    qed
  qed
qed

lemma wp_get_page_create:
  assumes "at_view env A s"
    and ok: "\<And>s'. at_view env (add_page (pkey rl f b) A) s' \<Longrightarrow> Q (Some (page_home (pkey rl f b), pkey rl f b)) s'"
    and err: "\<And>e s'. page_error env A (pkey rl f b) e s' \<Longrightarrow> E e s'"
  shows "wp (mem_get_page_entry env rl f b True) Q E s"
  unfolding mem_get_page_entry_def Let_def wp_simps
proof (rule wp_mono [OF wp_page_hash [OF assms(1), of rl f b]], goal_cases)
  case (1 h t)
  let ?k = "pkey rl f b"
  from 1 have t: "h = page_home ?k" "at_view env A t" "ready rl t" by simp_all
  note inv = at_viewD(1) [OF t(2)]
  obtain u where u: "page_table (page_home ?k) t = Some u"
    using ready_tables(2) [OF inv t(3), where k' = ?k] by auto
  have bk: "a_blocks A ?k = None \<longleftrightarrow> pages t ?k = None" using at_viewD(3) [OF t(2)] by simp
  show ?case
  proof (cases rule: pt.enter [OF inv_page_family [OF inv] u page_roomy [OF inv u], unfolded pages_def [symmetric], case_names found new full])
    case (found v u')
    hence "add_page ?k A = A" using bk by (auto simp: add_page_def)
    with at_view_put_page_same [OF t(2) u found(3,2)] ok found show ?thesis unfolding t(1) by (simp add: wp_def pg_simps)
  next
    case (new v u')
    have n: "a_blocks A ?k = None" using new(1) bk by simp
    have "wp (pg_bind mem_alloc_page_index (\<lambda>i. pg_bind (page_update (page_home ?k, ?k) (\<lambda>e. e\<lparr>page_index := i\<rparr>)) (\<lambda>_.
        page_write (page_home ?k, ?k) zero_page))) (\<lambda>_. Q (Some (page_home ?k, ?k))) E (put_page_table (page_home ?k) u' t)"
      by (rule wp_new_page [OF t(2) u n new(3,2)]) (use ok err in auto)
    with new(4) show ?thesis unfolding t(1) by (simp add: wp_def [of "page_search _ _ _"] wp_simps)
  next
    case (full u')
    have "\<not> page_slot A rl 1"
      using page_slot_full [OF inv u] full(5) t(2) by (fastforce simp: at_view_def)
    hence "page_error env A ?k page_table_full (put_page_table (page_home ?k) u' t)"
      using at_view_put_page_same [OF t(2) u full(3,2)] full(1) bk by (simp add: page_error_def)
    from err [OF this] full(4) show ?thesis unfolding t(1) by (simp add: wp_def pg_simps page_table_full_def)
  qed
qed simp

section \<open>Removing pages\<close>

definition drop_pages :: "RelFileLocatorBackend \<Rightarrow> ForkNumber \<Rightarrow> BlockNumber \<Rightarrow> 'm mem_view \<Rightarrow> 'm mem_view" where
  "drop_pages rl f first A =
     A\<lparr>a_blocks := (\<lambda>k. if rlocator k = rl \<and> forknum k = f \<and> first \<le> blocknum k then None else a_blocks A k)\<rparr>"

lemma scans_put: "(put_page_table h u s)\<lparr>scans := scans s\<rparr> = put_page_table h u s"
  by (cases h) simp_all

lemma wp_remove_pages:
  assumes "at_view env A s" and "\<And>s'. at_view env (drop_pages rl f first A) s' \<Longrightarrow> Q () s'"
  shows "wp (mem_remove_pages env rl f first) Q E s"
  unfolding mem_remove_pages_def wp_simps
proof (rule wp_mono [OF wp_page_hash [OF assms(1), of rl f 0]], goal_cases)
  case (1 h t)
  let ?h = "page_home (pkey rl f 0)" and ?P = "\<lambda>k. rlocator k = rl \<and> forknum k = f \<and> first \<le> blocknum k"
  from 1 have t: "h = ?h" "at_view env A t" "ready rl t" by simp_all
  note inv = at_viewD(1) [OF t(2)]
  obtain u where u: "page_table ?h t = Some u" using ready_tables(2) [OF inv t(3), where k' = "pkey rl f 0"] by auto
  have uok: "table_ok page_home MEMSMGR_SHARED_PAGES_PER_PARTITION ?h u" using inv_page_family [OF inv] u by (auto simp: family_ok_def)
  obtain u' where u': "hash_seq_remove_where ?h (nest_level env) ?P (u, scans t) = (Inr (), (u', scans t))" "htab_ok u'"
    "htab_map u' = htab_map u |` (- {k. ?P k})"
    using hash_seq_remove_where_ok [of u "scans t" ?h "nest_level env" ?P] uok inv by (auto simp: table_ok_def mem_inv_def)
  have get: "page_table h (put_page_table ?h u' t) = (if h = ?h then Some u' else page_table h t)" for h by (rule pt.get_put [OF u])
  have home: "page_home k = ?h" if "?P k" for k using that by (simp add: page_home_def)
  have p: "pages (put_page_table ?h u' t) = pages t |` (- {k. ?P k})"
    using u u'(3) home unfolding pages_def family_map_def get by (auto simp: restrict_map_def fun_eq_iff)
  have "table_ok page_home MEMSMGR_SHARED_PAGES_PER_PARTITION ?h u'"
    using uok u'(2,3) fixed_ok_remove_where [OF _ u'(1)] by (auto simp: table_ok_def)
  moreover have "arena_ok (put_page_table ?h u' t)"
    using inv unfolding mem_inv_def arena_ok_def p by (auto simp: restrict_map_def split: if_splits)
  ultimately have "mem_inv env (put_page_table ?h u' t)" by (intro mem_inv_put_page [OF inv u])
  moreover have "blocks (put_page_table ?h u' t) = (\<lambda>k. if ?P k then None else blocks t k)"
    by (auto simp: blocks_def p restrict_map_def)
  ultimately have "at_view env (drop_pages rl f first A) (put_page_table ?h u' t)"
    using t(2) by (auto simp: at_view_def mem_abs_def drop_pages_def fun_eq_iff)
  from assms(2) [OF this] show ?case unfolding t(1)
    by (simp add: wp_def u u'(1) scans_put)
qed simp

end
