(* ===== verification/MemSmgr_Ops.thy ===== *)
theory MemSmgr_Ops
  imports MemSmgr_Pages
begin

text \<open>
  The locked operations of the memory storage manager over the view: reading and writing blocks,
  zero extension, the number of blocks. A fork reads as a list of pages; blocks that have no page
  read as the seed's block or as zeroes.
\<close>

section \<open>A fork as a list of pages\<close>

definition seed_page :: "'m mem_env \<Rightarrow> RelFileLocatorBackend \<Rightarrow> ForkNumber \<Rightarrow> BlockNumber \<Rightarrow> page" where
  "seed_page env rl f b = snd (mem_seed_read_block env rl f b zero_page)"

definition block_view :: "'m mem_env \<Rightarrow> 'm mem_view \<Rightarrow> RelFileLocatorBackend \<Rightarrow> ForkNumber \<Rightarrow> BlockNumber \<Rightarrow> page" where
  "block_view env A rl f b =
     (case a_blocks A (pkey rl f b) of
        Some p \<Rightarrow> p
      | None \<Rightarrow> if on_disk (fork_entry env A rl f) then seed_page env rl f b else zero_page)"

definition pages_of :: "'m mem_env \<Rightarrow> 'm mem_view \<Rightarrow> RelFileLocatorBackend \<Rightarrow> ForkNumber \<Rightarrow> page list" where
  "pages_of env A rl f = map (\<lambda>i. block_view env A rl f (of_nat i)) [0..<unat (nblocks (fork_entry env A rl f))]"

text \<open>Entries make sense: temporary forks are not on disk, and a fork that does not exist has no blocks.\<close>

definition entry_ok :: "RelFileLocatorBackend \<Rightarrow> MemSmgrForkEntry \<Rightarrow> bool" where
  "entry_ok rl e \<longleftrightarrow> (mem_key_is_temp rl \<longrightarrow> \<not> on_disk e) \<and> (\<not> exists e \<longrightarrow> nblocks e = 0)"

definition view_ok :: "'m mem_view \<Rightarrow> bool" where
  "view_ok A \<longleftrightarrow> (\<forall>k e. a_forks A k = Some e \<longrightarrow> entry_ok (rlocator k) e)"

lemma fork_key_eta: "fkey (rlocator k) (forknum k) = k"
  by (simp add: mem_build_fork_key_def)

lemma page_key_eta: "pkey (rlocator k) (forknum k) (blocknum k) = k"
  by (simp add: mem_build_page_key_def)

lemma entry_ok_default: "entry_ok rl (default_entry env rl f)"
  by (simp add: entry_ok_def default_entry_def blank_entry_def mem_seed_exists_def mem_seed_active_for_def)

lemma view_ok_entry: "view_ok A \<Longrightarrow> entry_ok rl (fork_entry env A rl f)"
  using entry_ok_default [of rl env f] by (auto simp: fork_entry_def view_ok_def split: option.splits) (metis rlocator_key(1))

lemma view_ok_set_fork: "view_ok A \<Longrightarrow> entry_ok rl e \<Longrightarrow> view_ok (set_fork rl f e A)"
  by (auto simp: view_ok_def set_fork_def)

text \<open>Two views that differ at most in one fork and the pages of that fork.\<close>

definition agree_other :: "RelFileLocatorBackend \<Rightarrow> ForkNumber \<Rightarrow> 'm mem_view \<Rightarrow> 'm mem_view \<Rightarrow> bool" where
  "agree_other rl f A A' \<longleftrightarrow>
     (\<forall>k. k \<noteq> fkey rl f \<longrightarrow> a_forks A' k = a_forks A k) \<and>
     (\<forall>k. \<not> (rlocator k = rl \<and> forknum k = f) \<longrightarrow> a_blocks A' k = a_blocks A k) \<and>
     a_locks A' = a_locks A \<and> a_aio A' = a_aio A \<and> a_scans A' = a_scans A \<and> a_md A' = a_md A"

lemma agree_other_refl [simp]: "agree_other rl f A A"
  by (simp add: agree_other_def)

lemma agree_other_trans: "agree_other rl f A B \<Longrightarrow> agree_other rl f B C \<Longrightarrow> agree_other rl f A C"
  by (auto simp: agree_other_def)

lemma agree_other_set_fork [simp]: "agree_other rl f A (set_fork rl f e A)"
  by (simp add: agree_other_def set_fork_def)

lemma agree_other_drop [simp]: "agree_other rl f A (drop_pages rl f first A)"
  by (auto simp: agree_other_def drop_pages_def)

text \<open>Another fork reads the same in both.\<close>

lemma agree_other_pages:
  assumes "agree_other rl f A A'" and "(rl', f') \<noteq> (rl, f)"
  shows "fork_entry env A' rl' f' = fork_entry env A rl' f'" "pages_of env A' rl' f' = pages_of env A rl' f'"
proof -
  show e: "fork_entry env A' rl' f' = fork_entry env A rl' f'"
    using assms by (auto simp: agree_other_def fork_entry_def)
  have "block_view env A' rl' f' b = block_view env A rl' f' b" for b
    using assms e by (auto simp: agree_other_def block_view_def)
  then show "pages_of env A' rl' f' = pages_of env A rl' f'" by (simp add: pages_of_def e)
qed

section \<open>Writing one block\<close>

definition put_block :: "MemSmgrPageKey \<Rightarrow> page \<Rightarrow> 'm mem_view \<Rightarrow> 'm mem_view" where
  "put_block k p A = A\<lparr>a_blocks := (a_blocks A)(k \<mapsto> p), a_next := (if a_blocks A k = None then Suc (a_next A) else a_next A)\<rparr>"

lemma put_block_sel [simp]:
  "a_forks (put_block k p A) = a_forks A" "a_blocks (put_block k p A) = (a_blocks A)(k \<mapsto> p)"
  "fork_entry env (put_block k p A) rl f = fork_entry env A rl f" "view_ok (put_block k p A) = view_ok A"
  by (simp_all add: put_block_def fork_entry_def view_ok_def)

lemma agree_other_put_block [simp]: "agree_other rl f A (put_block (pkey rl f b) p A)"
  by (auto simp: agree_other_def put_block_def)

lemma add_page_put: "(add_page k A)\<lparr>a_blocks := (a_blocks (add_page k A))(k \<mapsto> p)\<rparr> = put_block k p A"
  by (auto simp: add_page_def put_block_def)

lemma add_page_Some: "\<exists>p. a_blocks (add_page k A) k = Some p"
  by (auto simp: add_page_def)

lemma wp_write_one:
  assumes "at_view env A s" and "length p = BLCKSZ"
    and "\<And>s'. at_view env (put_block (pkey rl f b) p A) s' \<Longrightarrow> Q () s'" and "\<And>e s'. page_error env A (pkey rl f b) e s' \<Longrightarrow> E e s'"
  shows "wp (mem_write_one env rl f (b, p)) Q E s"
proof -
  obtain q where q: "a_blocks (add_page (pkey rl f b) A) (pkey rl f b) = Some q" using add_page_Some by blast
  show ?thesis unfolding mem_write_one_def case_prod_conv wp_simps
  proof (rule wp_get_page_create [OF assms(1)], goal_cases)
    case (1 s')
    then show ?case unfolding wp_simps by (rule wp_page_write [OF _ q assms(2)]) (use assms(3) in \<open>simp add: add_page_put\<close>)
  qed (rule assms(4))
qed

lemma mem_zero_one_eq: "mem_zero_one env rl f b = mem_write_one env rl f (b, zero_page)"
  by (simp add: mem_zero_one_def mem_write_one_def)

lemma page_slot_put: "page_slot A rl (Suc n) \<Longrightarrow> page_slot (put_block (pkey rl f b) p A) rl n"
proof -
  let ?S = "\<lambda>A. {k \<in> dom (a_blocks A). \<not> mem_key_is_temp (rlocator k) \<and> mem_shared_partition_for (rlocator k) = mem_shared_partition_for rl}"
  assume slot: "page_slot A rl (Suc n)"
  have "?S (put_block (pkey rl f b) p A) \<subseteq> insert (pkey rl f b) (?S A)" by (auto simp: put_block_def)
  hence "card (?S (put_block (pkey rl f b) p A)) \<le> Suc (card (?S A))"
  proof (cases "finite (?S A)")
    case True
    have "card (?S (put_block (pkey rl f b) p A)) \<le> card (insert (pkey rl f b) (?S A))"
      using True \<open>?S (put_block (pkey rl f b) p A) \<subseteq> _\<close> by (intro card_mono) simp_all
    also have "\<dots> \<le> Suc (card (?S A))" using True by (simp add: card_insert_if)
    finally show ?thesis .
  next
    case False
    have "?S A \<subseteq> ?S (put_block (pkey rl f b) p A)" by (auto simp: put_block_def)
    with False have "infinite (?S (put_block (pkey rl f b) p A))" using finite_subset by blast
    then show ?thesis by simp
  qed
  with slot show ?thesis by (auto simp: page_slot_def put_block_def)
qed

lemma page_slot_mono: "page_slot A rl n \<Longrightarrow> m \<le> n \<Longrightarrow> page_slot A rl m"
  by (simp add: page_slot_def)

section \<open>Writing several blocks\<close>

definition put_blocks :: "RelFileLocatorBackend \<Rightarrow> ForkNumber \<Rightarrow> (BlockNumber \<times> page) list \<Rightarrow> 'm mem_view \<Rightarrow> 'm mem_view" where
  "put_blocks rl f xs = fold (\<lambda>(b, p). put_block (pkey rl f b) p) xs"

lemma put_blocks_simps [simp]: "put_blocks rl f [] A = A" "put_blocks rl f ((b, p) # xs) A = put_blocks rl f xs (put_block (pkey rl f b) p A)"
  by (simp_all add: put_blocks_def)

text \<open>
  Running out of memory while blocks are written: other forks are untouched and all fork entries are
  what they were; the invariant is lost only when the arena is full; and there was no room for
  \<open>n\<close> pages.
\<close>

definition mem_error :: "'m mem_env \<Rightarrow> RelFileLocatorBackend \<Rightarrow> ForkNumber \<Rightarrow> 'm mem_view \<Rightarrow> nat \<Rightarrow> pg_error \<Rightarrow> 'm mem_state \<Rightarrow> bool" where
  "mem_error env rl f A n e s' \<longleftrightarrow> e \<in> {page_table_full, arena_full} \<and> agree_other rl f A (mem_abs s') \<and>
     a_forks (mem_abs s') = a_forks A \<and> (e \<noteq> arena_full \<longrightarrow> mem_inv env s') \<and> \<not> page_slot A rl n"

lemma page_table_full_neq [simp]: "page_table_full \<noteq> arena_full" "arena_full \<noteq> page_table_full"
  by (simp_all add: page_table_full_def arena_full_def)

lemma page_error_mem_error: "page_error env A (pkey rl f b) e s' \<Longrightarrow> mem_error env rl f A (Suc n) e s'"
  using page_slot_mono [of A rl "Suc n" 1] by (auto simp: page_error_def mem_error_def at_view_def agree_other_def)

lemma mem_error_step:
  "mem_error env rl f (put_block (pkey rl f b) p A) n e s' \<Longrightarrow> mem_error env rl f A (Suc n) e s'"
  using agree_other_trans [OF agree_other_put_block] page_slot_put [of A rl n f b p] by (auto simp: mem_error_def)

lemma wp_write_blocks:
  assumes "at_view env A s" and "\<forall>(b, p) \<in> set xs. length p = BLCKSZ"
    and "\<And>s'. at_view env (put_blocks rl f xs A) s' \<Longrightarrow> Q () s'" and "\<And>e s'. mem_error env rl f A (length xs) e s' \<Longrightarrow> E e s'"
  shows "wp (pg_for xs (mem_write_one env rl f)) Q E s"
  using assms
proof (induction xs arbitrary: A s)
  case (Cons x xs)
  obtain b p where x: "x = (b, p)" by fastforce
  show ?case unfolding pg_for.simps wp_simps x
  proof (rule wp_write_one [OF Cons.prems(1)], goal_cases)
    case (2 s')
    then show ?case
      by (rule Cons.IH) (use Cons.prems(2,3) x Cons.prems(4) [OF mem_error_step [of env rl f b p A "length xs", folded length_Cons [of x xs]]] in auto)
  next
    case (3 e s')
    then show ?case using Cons.prems(4) page_error_mem_error [of env A rl f b e s' "length xs"] by simp
  qed (use Cons.prems(2) x in auto)
qed (simp add: wp_simps)

lemma put_blocks_sel:
  "a_forks (put_blocks rl f xs A) = a_forks A" "agree_other rl f A (put_blocks rl f xs A)"
  "a_blocks (put_blocks rl f xs A) = (a_blocks A) ++ map_of (rev (map (\<lambda>(b, p). (pkey rl f b, p)) xs))"
proof -
  have "a_forks (put_blocks rl f xs A) = a_forks A \<and> agree_other rl f A (put_blocks rl f xs A) \<and>
    a_blocks (put_blocks rl f xs A) = (a_blocks A) ++ map_of (rev (map (\<lambda>(b, p). (pkey rl f b, p)) xs))"
  proof (induction xs arbitrary: A)
    case (Cons x xs)
    obtain b p where x: "x = (b, p)" by fastforce
    note IH = Cons.IH [of "put_block (pkey rl f b) p A"]
    have "a_blocks (put_blocks rl f (x # xs) A) = (a_blocks A)(pkey rl f b \<mapsto> p) ++ map_of (rev (map (\<lambda>(b, p). (pkey rl f b, p)) xs))"
      using IH [THEN conjunct2, THEN conjunct2] unfolding x put_blocks_simps put_block_sel .
    also have "\<dots> = a_blocks A ++ map_of (rev (map (\<lambda>(b, p). (pkey rl f b, p)) (x # xs)))"
      by (simp add: x)
    finally show ?case
      using IH agree_other_trans [OF agree_other_put_block [of rl f A b p], of "put_blocks rl f (x # xs) A"] x by simp
  qed simp
  then show "a_forks (put_blocks rl f xs A) = a_forks A" "agree_other rl f A (put_blocks rl f xs A)"
    "a_blocks (put_blocks rl f xs A) = (a_blocks A) ++ map_of (rev (map (\<lambda>(b, p). (pkey rl f b, p)) xs))" by simp_all
qed

text \<open>Block numbers in a row, without wrap-around.\<close>

lemma block_range_nth: "i < n \<Longrightarrow> block_range blk n ! i = blk + of_nat i" "length (block_range blk n) = n"
  by (simp_all add: block_range_def)

lemma unat_blk_plus: "unat blk + i < 2 ^ 32 \<Longrightarrow> unat (blk + of_nat i) = unat blk + i" for blk :: u32
  by (simp add: unat_word_ariths unat_of_nat)

lemma block_range_unat: "unat blk + n \<le> 2 ^ 32 \<Longrightarrow> map unat (block_range blk n) = [unat blk..<unat blk + n]"
  by (rule nth_equalityI) (simp_all add: block_range_nth unat_blk_plus)

lemma block_range_distinct: "unat blk + n \<le> 2 ^ 32 \<Longrightarrow> distinct (block_range blk n)"
  using block_range_unat [of blk n] distinct_upt [of "unat blk"] distinct_map by metis

lemma in_block_range:
  assumes "unat blk + n \<le> 2 ^ 32"
  shows "b \<in> set (block_range blk n) \<longleftrightarrow> unat blk \<le> unat b \<and> unat b < unat blk + n"
proof -
  have "b \<in> set (block_range blk n) \<longleftrightarrow> unat b \<in> set (map unat (block_range blk n))"
    by (metis (no_types) image_iff list.set_map word_unat_eq_iff)
  then show ?thesis by (simp only: block_range_unat [OF assms]) auto
qed

text \<open>What a run of blocks reads as afterwards.\<close>

lemma put_range_lookup:
  assumes "unat blk + length ps \<le> 2 ^ 32"
  shows "a_blocks (put_blocks rl f (zip (block_range blk (length ps)) ps) A) (pkey rl f b) =
    (if unat blk \<le> unat b \<and> unat b < unat blk + length ps then Some (ps ! (unat b - unat blk)) else a_blocks A (pkey rl f b))"
proof -
  let ?xs = "zip (block_range blk (length ps)) ps"
  have keys: "map fst (map (\<lambda>(b, p). (pkey rl f b, p)) ?xs) = map (pkey rl f) (block_range blk (length ps))"
    by (rule nth_equalityI) (simp_all add: block_range_nth)
  have dist: "distinct (map fst (map (\<lambda>(b, p). (pkey rl f b, p)) ?xs))"
    unfolding keys distinct_map using block_range_distinct [OF assms] by (auto simp: inj_on_def)
  show ?thesis
  proof (cases "unat blk \<le> unat b \<and> unat b < unat blk + length ps")
    case True
    let ?i = "unat b - unat blk"
    have "?i < length ps" "b = blk + of_nat ?i"
      using True assms by (auto simp: word_unat_eq_iff unat_blk_plus)
    hence "(pkey rl f b, ps ! ?i) \<in> set (map (\<lambda>(b, p). (pkey rl f b, p)) ?xs)"
      by (auto simp: set_zip block_range_nth intro!: image_eqI [of _ _ "(b, ps ! ?i)"] exI [of _ ?i])
    hence "map_of (rev (map (\<lambda>(b, p). (pkey rl f b, p)) ?xs)) (pkey rl f b) = Some (ps ! ?i)"
      by (intro map_of_is_SomeI) (simp_all only: rev_map [symmetric] distinct_rev dist set_rev)
    with True show ?thesis by (simp add: put_blocks_sel(3) map_add_Some_iff)
  next
    case False
    hence "pkey rl f b \<notin> fst ` set (rev (map (\<lambda>(b, p). (pkey rl f b, p)) ?xs))"
      using in_block_range [OF assms, of b] by (auto dest: set_zip_leftD)
    hence "map_of (rev (map (\<lambda>(b, p). (pkey rl f b, p)) ?xs)) (pkey rl f b) = None" by (simp add: map_of_eq_None_iff)
    with False show ?thesis by (auto simp: put_blocks_sel(3) map_add_def)
  qed
qed

section \<open>Views of one fork\<close>

lemma set_fork_simps [simp]:
  "set_fork rl f e (set_fork rl f e' A) = set_fork rl f e A" "a_forks (set_fork rl f e A) (fkey rl f) = Some e"
  "fork_entry env (set_fork rl f e A) rl f = e" "a_blocks (set_fork rl f e A) = a_blocks A" "a_next (set_fork rl f e A) = a_next A"
  "page_slot (set_fork rl f e A) rl' n = page_slot A rl' n"
  by (simp_all add: set_fork_def fork_entry_def page_slot_def)

lemma put_blocks_set_fork: "put_blocks rl f xs (set_fork rl f e A) = set_fork rl f e (put_blocks rl f xs A)"
proof (induction xs arbitrary: A)
  case (Cons x xs)
  have "put_block (pkey rl f b) p (set_fork rl f e A) = set_fork rl f e (put_block (pkey rl f b) p A)" for b p
    by (simp add: put_block_def set_fork_def)
  with Cons.IH show ?case by (cases x) simp
qed simp

lemma page_slot_put_blocks: "page_slot A rl (length xs + n) \<Longrightarrow> page_slot (put_blocks rl f xs A) rl n"
proof (induction xs arbitrary: A)
  case (Cons x xs)
  obtain b p where x: "x = (b, p)" by fastforce
  show ?case using Cons.IH [OF page_slot_put [of A rl "length xs + n" f b p]] Cons.prems x by simp
qed simp

lemma fork_room_set_fork: "fork_room A \<Longrightarrow> a_forks A (fkey rl f) \<noteq> None \<Longrightarrow> fork_room (set_fork rl f e A)"
proof -
  assume A: "fork_room A" "a_forks A (fkey rl f) \<noteq> None"
  have "dom (a_forks (set_fork rl f e A)) = dom (a_forks A)" using A(2) by (auto simp: set_fork_def)
  with A(1) show ?thesis by (simp add: fork_room_def)
qed

text \<open>
  The errors of an operation on a fork: no memory, or the seed cannot be read. Other forks stay as
  they are, and the invariant is lost only when the arena is full.
\<close>

definition seed_error :: "'m mem_env \<Rightarrow> RelFileLocatorBackend \<Rightarrow> ForkNumber \<Rightarrow> pg_error \<Rightarrow> bool" where
  "seed_error env rl f e \<longleftrightarrow> mem_seed_exists env rl f = Inl e \<or> mem_seed_exists env rl f = Inr True \<and> mem_seed_nblocks env rl f = Inl e"

definition op_error :: "'m mem_env \<Rightarrow> RelFileLocatorBackend \<Rightarrow> ForkNumber \<Rightarrow> 'm mem_view \<Rightarrow> nat \<Rightarrow> pg_error \<Rightarrow> 'm mem_state \<Rightarrow> bool" where
  "op_error env rl f A n e s' \<longleftrightarrow> agree_other rl f A (mem_abs s') \<and> (view_ok A \<longrightarrow> view_ok (mem_abs s')) \<and>
     (e \<noteq> arena_full \<longrightarrow> mem_inv env s') \<and>
     (e \<in> {page_table_full, arena_full} \<and> \<not> page_slot A rl n
      \<or> a_forks A (fkey rl f) = None \<and> (e = fork_table_full \<and> \<not> fork_slot A rl \<or> seed_error env rl f e))"

lemma fork_error_op: "at_view env A' s' \<Longrightarrow> fork_error env A rl f e A' \<Longrightarrow> op_error env rl f A n e s'"
  using agree_other_set_fork view_ok_set_fork [of A rl blank_entry f]
    view_ok_set_fork [of A rl "\<lparr>exists = True, on_disk = True, nblocks = 0\<rparr>" f]
  by (auto simp: fork_error_def op_error_def at_view_def seed_error_def entry_ok_def blank_entry_def mem_seed_exists_def mem_seed_active_for_def)

lemma mem_error_op:
  assumes "mem_error env rl f B m e s'" and "agree_other rl f A B" and "view_ok A \<Longrightarrow> view_ok B" and "page_slot A rl n \<Longrightarrow> page_slot B rl m"
  shows "op_error env rl f A n e s'"
  using assms agree_other_trans [OF assms(2)] by (auto simp: mem_error_def op_error_def view_ok_def)

lemma op_error_step:
  assumes "op_error env rl f B m e s'" and "a_forks B (fkey rl f) \<noteq> None" and "agree_other rl f A B"
    and "view_ok A \<Longrightarrow> view_ok B" and "page_slot A rl n \<Longrightarrow> page_slot B rl m"
  shows "op_error env rl f A n e s'"
  using assms agree_other_trans [OF assms(3)] by (auto simp: op_error_def)

section \<open>Extending and writing\<close>

lemma wp_grow:
  assumes "at_view env A s" and "a_forks A (fkey rl f) = Some e"
    and "\<And>s'. at_view env (set_fork rl f \<lparr>exists = exists e, on_disk = on_disk e, nblocks = max (nblocks e) m\<rparr> A) s' \<Longrightarrow> Q () s'"
  shows "wp (mem_grow (fork_home (fkey rl f), fkey rl f) m) Q E s"
  unfolding mem_grow_def wp_simps
proof (rule wp_fork_deref [OF assms(1,2)], goal_cases)
  case 1
  show ?case
  proof (cases "nblocks e < m")
    case True
    hence "e\<lparr>nblocks := m\<rparr> = \<lparr>exists = exists e, on_disk = on_disk e, nblocks = max (nblocks e) m\<rparr>" by (simp add: max_def)
    hence "wp (fork_update (fork_home (fkey rl f), fkey rl f) (\<lambda>e. e\<lparr>nblocks := m\<rparr>)) Q E s"
      by (intro wp_fork_update [OF assms(1,2)]) (use assms(3) in \<open>simp add: set_fork_def\<close>)
    with True show ?thesis by simp
  next
    case False
    hence "\<lparr>exists = exists e, on_disk = on_disk e, nblocks = max (nblocks e) m\<rparr> = e" by (simp add: max_def)
    hence "set_fork rl f \<lparr>exists = exists e, on_disk = on_disk e, nblocks = max (nblocks e) m\<rparr> A = A"
      using assms(2) by (simp add: set_fork_def fun_upd_idem)
    with False assms(1) assms(3) [of s] show ?thesis by (simp add: wp_simps)
  qed
qed

definition zero_blocks :: "BlockNumber \<Rightarrow> nat \<Rightarrow> (BlockNumber \<times> page) list" where
  "zero_blocks blk n = zip (block_range blk n) (replicate n zero_page)"

lemma pg_for_zero: "pg_for (block_range blk n) (mem_zero_one env rl f) = pg_for (zero_blocks blk n) (mem_write_one env rl f)"
proof -
  have "pg_for xs (mem_zero_one env rl f) = pg_for (zip xs (replicate (length xs) zero_page)) (mem_write_one env rl f)" for xs
    by (induction xs) (simp_all add: mem_zero_one_eq)
  from this [of "block_range blk n"] show ?thesis by (simp add: zero_blocks_def block_range_nth)
qed

lemma wp_exists:
  assumes "at_view env (set_fork rl f e A) s"
    and "\<And>s'. at_view env (set_fork rl f \<lparr>exists = True, on_disk = on_disk e, nblocks = nblocks e\<rparr> A) s' \<Longrightarrow> Q () s'"
  shows "wp (fork_update (fork_home (fkey rl f), fkey rl f) (\<lambda>e. e\<lparr>exists := True\<rparr>)) Q E s"
proof (rule wp_fork_update [OF assms(1)])
  fix s' assume "at_view env ((set_fork rl f e A)\<lparr>a_forks := (a_forks (set_fork rl f e A))(fkey rl f \<mapsto> e\<lparr>exists := True\<rparr>)\<rparr>) s'"
  moreover have "e\<lparr>exists := True\<rparr> = \<lparr>exists = True, on_disk = on_disk e, nblocks = nblocks e\<rparr>" by simp
  ultimately show "Q () s'" using assms(2) by (simp add: set_fork_def)
qed simp

lemma wp_zeroextend_locked:
  assumes "\<not> mem_use_md env" and "at_view env A s" and "a_forks A (fkey rl f) = None \<Longrightarrow> fork_room A" and "e = fork_entry env A rl f"
    and "\<And>s'. at_view env (set_fork rl f \<lparr>exists = True, on_disk = on_disk e, nblocks = max (nblocks e) (blk + of_int n)\<rparr> (put_blocks rl f (zero_blocks blk (nat n)) A)) s' \<Longrightarrow> Q () s'"
    and "\<And>e s'. op_error env rl f A (nat n) e s' \<Longrightarrow> view_ok A \<Longrightarrow> E e s'" and "view_ok A"
  shows "wp (mem_zeroextend_locked env rl f blk n) Q E s"
  unfolding mem_zeroextend_locked_def wp_simps pg_for_zero
proof (rule wp_get_fork [OF assms(1-3)], assumption, goal_cases)
  case (1 s1)
  let ?e = "\<lparr>exists = True, on_disk = on_disk e, nblocks = nblocks e\<rparr>"
  show ?case unfolding wp_simps
  proof (rule wp_exists [OF 1 [folded assms(4)]], goal_cases)
    case (1 s2)
    show ?case
    proof (rule wp_write_blocks [OF 1], goal_cases)
      case 1
      show ?case by (auto simp: zero_blocks_def dest: set_zip_rightD)
    next
      case (2 s3)
      hence s3: "at_view env (set_fork rl f ?e (put_blocks rl f (zero_blocks blk (nat n)) A)) s3" by (simp add: put_blocks_set_fork)
      show ?case by (rule wp_grow [OF s3 set_fork_simps(2)]) (use assms(5) in simp)
    next
      case (3 err s3)
      have "entry_ok rl ?e" using view_ok_entry [OF assms(7), of rl env f] assms(4) by (simp add: entry_ok_def)
      hence "view_ok (set_fork rl f ?e A)" by (rule view_ok_set_fork [OF assms(7)])
      with 3 assms(7) show ?case by (intro assms(6) mem_error_op [OF 3]) (simp_all add: zero_blocks_def block_range_nth)
    qed
  qed
next
  case (2 err A' s')
  then show ?case using fork_error_op assms(6,7) by blast
qed

lemma entry_ok_exists: "entry_ok rl e \<Longrightarrow> entry_ok rl \<lparr>exists = True, on_disk = on_disk e, nblocks = n\<rparr>"
  by (simp add: entry_ok_def)

text \<open>The zeroes a write past the end puts in between, and the whole effect of a write.\<close>

definition write_gap :: "MemSmgrForkEntry \<Rightarrow> BlockNumber \<Rightarrow> nat" where
  "write_gap e blk = unat blk - unat (nblocks e)"

definition write_view :: "RelFileLocatorBackend \<Rightarrow> ForkNumber \<Rightarrow> MemSmgrForkEntry \<Rightarrow> BlockNumber \<Rightarrow> page list \<Rightarrow> 'm mem_view \<Rightarrow> 'm mem_view" where
  "write_view rl f e blk ps A =
     set_fork rl f \<lparr>exists = True, on_disk = on_disk e, nblocks = max (nblocks e) (blk + of_nat (length ps))\<rparr>
       (put_blocks rl f (zip (block_range blk (length ps)) ps) (put_blocks rl f (zero_blocks (nblocks e) (write_gap e blk)) A))"

lemma gap_sint:
  assumes "nblocks e < blk" and "unat blk < 2 ^ 31"
  shows "sint (blk - nblocks e) = int (write_gap e blk)" "nblocks e + of_int (int (write_gap e blk)) = blk"
proof -
  have u: "unat (blk - nblocks e) = write_gap e blk"
    using assms(1) by (simp add: unat_sub word_less_nat_alt write_gap_def word_le_nat_alt)
  hence "uint (blk - nblocks e) < 2 ^ 31" using assms(2) by (simp add: uint_nat write_gap_def)
  hence "sint (blk - nblocks e) = uint (blk - nblocks e)"
    using order_trans [OF _ uint_ge_0 [of "blk - nblocks e"], of "- (2 ^ 31)"] by (simp add: sint_uint signed_take_bit_int_eq_self_iff)
  then show "sint (blk - nblocks e) = int (write_gap e blk)" using u by (simp add: uint_nat)
  have "of_nat (write_gap e blk) = blk - nblocks e" unfolding u [symmetric] by simp
  then show "nblocks e + of_int (int (write_gap e blk)) = blk" by simp
qed

lemma wp_fill_gap:
  assumes "\<not> mem_use_md env" and "at_view env (set_fork rl f \<lparr>exists = True, on_disk = on_disk e, nblocks = nblocks e\<rparr> A) s"
    and "entry_ok rl e" and "unat blk < 2 ^ 31" and "view_ok A" and err: "\<And>er s'. op_error env rl f A (write_gap e blk + n) er s' \<Longrightarrow> E er s'"
  shows "wp (if nblocks e < blk then mem_zeroextend_locked env rl f (nblocks e) (sint (blk - nblocks e)) else pg_return ())
    (\<lambda>_. at_view env (set_fork rl f \<lparr>exists = True, on_disk = on_disk e, nblocks = max (nblocks e) blk\<rparr>
       (put_blocks rl f (zero_blocks (nblocks e) (write_gap e blk)) A))) E s"
proof (cases "nblocks e < blk")
  case True
  let ?e = "\<lparr>exists = True, on_disk = on_disk e, nblocks = nblocks e\<rparr>"
  note g = gap_sint [OF True assms(4)] and vok = view_ok_set_fork [OF assms(5) entry_ok_exists [OF assms(3)]]
  show ?thesis unfolding g(1) if_P [OF True]
  proof (rule wp_zeroextend_locked [OF assms(1,2), where e = ?e], goal_cases)
    case (3 s3)
    then show ?case using g(2) by (simp add: put_blocks_set_fork)
  next
    case (4 er s3)
    have "op_error env rl f A (write_gap e blk + n) er s3"
      by (rule op_error_step [OF 4(1)])
        (use vok page_slot_mono [of A rl "write_gap e blk + n" "write_gap e blk"] in auto)
    then show ?case by (rule err)
  qed (simp_all add: vok)
next
  case False
  hence "write_gap e blk = 0" "max (nblocks e) blk = nblocks e" by (simp_all add: write_gap_def word_less_nat_alt max_absorb1 not_less word_le_nat_alt)
  with False assms(2) show ?thesis by (simp add: wp_simps zero_blocks_def block_range_def)
qed

lemma wp_writev_locked:
  assumes "\<not> mem_use_md env" and "at_view env A s" and "a_forks A (fkey rl f) = None \<Longrightarrow> fork_room A" and "e = fork_entry env A rl f"
    and "\<forall>p \<in> set ps. length p = BLCKSZ" and "unat blk + length ps < 2 ^ 31" and "view_ok A"
    and ok: "\<And>s'. at_view env (write_view rl f e blk ps A) s' \<Longrightarrow> Q () s'"
    and err: "\<And>err s'. op_error env rl f A (write_gap e blk + length ps) err s' \<Longrightarrow> E err s'"
  shows "wp (mem_writev_locked env rl f blk ps) Q E s"
  unfolding mem_writev_locked_def wp_simps
proof (rule wp_get_fork [OF assms(1-3)], assumption, goal_cases)
  case (1 s1)
  let ?z = "zero_blocks (nblocks e) (write_gap e blk)"
  let ?B = "put_blocks rl f ?z A" and ?e' = "\<lparr>exists = True, on_disk = on_disk e, nblocks = max (nblocks e) blk\<rparr>"
  have eok: "entry_ok rl e" using view_ok_entry [OF assms(7), of rl env f] assms(4) by simp
  have blk: "unat blk < 2 ^ 31" using assms(6) by simp
  have vok: "view_ok (set_fork rl f ?e' ?B)"
    using assms(7) by (intro view_ok_set_fork entry_ok_exists eok) (simp add: view_ok_def put_blocks_sel)
  have nb: "max (max (nblocks e) blk) (blk + of_nat (length ps)) = max (nblocks e) (blk + of_nat (length ps))"
    using assms(6) by (simp add: max_def word_le_nat_alt unat_blk_plus)
  show ?case unfolding wp_simps
  proof (rule wp_exists [OF 1 [folded assms(4)]], rule wp_fork_deref [OF _ set_fork_simps(2)], assumption, goal_cases)
    case (1 s2)
    have "wp (if nblocks e < blk then mem_zeroextend_locked env rl f (nblocks e) (sint (blk - nblocks e)) else pg_return ())
        (\<lambda>_. wp (pg_for (zip (block_range blk (length ps)) ps) (mem_write_one env rl f))
          (\<lambda>_. wp (mem_grow (fork_home (fkey rl f), fkey rl f) (blk + of_nat (length ps))) Q E) E) E s2"
    proof (rule wp_mono [OF wp_fill_gap [OF assms(1) 1 eok blk assms(7) err]], assumption, goal_cases)
      case (1 u s3)
      show ?case
      proof (rule wp_write_blocks [OF 1], goal_cases)
        case (2 s4)
        hence "at_view env (set_fork rl f ?e' (put_blocks rl f (zip (block_range blk (length ps)) ps) ?B)) s4"
          by (simp add: put_blocks_set_fork)
        then show ?case by (rule wp_grow [OF _ set_fork_simps(2)]) (use ok nb in \<open>simp add: write_view_def\<close>)
      next
        case (3 er s4)
        have "op_error env rl f A (write_gap e blk + length ps) er s4"
          by (rule mem_error_op [OF 3 agree_other_trans [OF put_blocks_sel(2) agree_other_set_fork] vok])
            (use page_slot_put_blocks [of A rl ?z "length ps" f] in \<open>simp add: zero_blocks_def block_range_nth\<close>)
        then show ?case by (rule err)
      qed (use assms(5) in \<open>auto dest: set_zip_rightD\<close>)
    qed
    then show ?case by (simp only: wp_simps MemSmgrForkEntry.simps)
  qed
next
  case (2 er A' s')
  then show ?case using fork_error_op err by blast
qed

section \<open>Reading\<close>

text \<open>
  \<open>reads_as\<close>: the fork reads the same, although pages may have been fetched from the seed.
  \<open>failed\<close>: what every error keeps.
\<close>

definition reads_as :: "'m mem_env \<Rightarrow> RelFileLocatorBackend \<Rightarrow> ForkNumber \<Rightarrow> 'm mem_view \<Rightarrow> 'm mem_view \<Rightarrow> bool" where
  "reads_as env rl f A A' \<longleftrightarrow> agree_other rl f A A' \<and> a_forks A' = a_forks A \<and>
     (\<forall>b. block_view env A' rl f b = block_view env A rl f b)"

definition failed :: "'m mem_env \<Rightarrow> RelFileLocatorBackend \<Rightarrow> ForkNumber \<Rightarrow> 'm mem_view \<Rightarrow> pg_error \<Rightarrow> 'm mem_state \<Rightarrow> bool" where
  "failed env rl f A er s' \<longleftrightarrow> agree_other rl f A (mem_abs s') \<and> (view_ok A \<longrightarrow> view_ok (mem_abs s')) \<and> (er \<noteq> arena_full \<longrightarrow> mem_inv env s')"

lemma op_error_failed: "op_error env rl f A n er s' \<Longrightarrow> failed env rl f A er s'"
  by (simp add: op_error_def failed_def)

lemma mem_error_failed: "mem_error env rl f A n er s' \<Longrightarrow> failed env rl f A er s'"
  by (auto simp: mem_error_def failed_def view_ok_def)

lemma failed_step: "failed env rl f B er s' \<Longrightarrow> agree_other rl f A B \<Longrightarrow> (view_ok A \<Longrightarrow> view_ok B) \<Longrightarrow> failed env rl f A er s'"
  unfolding failed_def by (blast intro: agree_other_trans)

lemma failed_at: "at_view env B s' \<Longrightarrow> agree_other rl f A B \<Longrightarrow> (view_ok A \<Longrightarrow> view_ok B) \<Longrightarrow> failed env rl f A er s'"
  by (auto simp: failed_def at_view_def)

lemma reads_as_refl [simp]: "reads_as env rl f A A"
  by (simp add: reads_as_def)

lemma reads_as_trans: "reads_as env rl f A B \<Longrightarrow> reads_as env rl f B C \<Longrightarrow> reads_as env rl f A C"
  using agree_other_trans by (fastforce simp: reads_as_def)

lemma reads_as_fetch:
  assumes "a_blocks A (pkey rl f b) = None" and "on_disk (fork_entry env A rl f)"
  shows "reads_as env rl f A (put_block (pkey rl f b) (seed_page env rl f b) A)"
  using assms by (auto simp: reads_as_def block_view_def)

lemma length_seed_page [simp]: "length (seed_page env rl f b) = BLCKSZ"
  by (auto simp: seed_page_def mem_seed_read_block_def Let_def split: option.splits read_result.splits)

lemma wp_read_one:
  assumes "\<not> mem_use_md env" and "at_view env A s" and "a_forks A (fkey rl f) = Some e" and "entry_ok rl e"
    and ok: "\<And>A' s'. at_view env A' s' \<Longrightarrow> reads_as env rl f A A' \<Longrightarrow> Q (block_view env A rl f b) s'"
    and err: "\<And>er s'. failed env rl f A er s' \<Longrightarrow> E er s'"
  shows "wp (mem_read_one env (fork_home (fkey rl f), fkey rl f) rl f b) Q E s"
  unfolding mem_read_one_def wp_simps
proof (rule wp_get_page_find [OF assms(2)], goal_cases)
  case (1 s1)
  let ?k = "pkey rl f b"
  have e: "fork_entry env A rl f = e" using assms(3) by (simp add: fork_entry_def)
  have active: "mem_seed_active_for env rl \<longleftrightarrow> \<not> mem_key_is_temp rl" using assms(1) by (simp add: mem_use_md_def mem_seed_active_for_def)
  show ?case
  proof (cases "a_blocks A ?k")
    case (Some p)
    then show ?thesis using ok [OF 1(1)] by (auto simp: block_view_def intro!: wp_page_read [OF 1(1)])
  next
    case None
    show ?thesis unfolding None if_P [OF refl] option.case wp_simps
    proof (rule wp_fork_deref [OF 1(1) assms(3)], cases "on_disk e", goal_cases)
      case 1
      have "mem_seed_active_for env rl" using 1 assms(4) active by (simp add: entry_ok_def)
      obtain r where r: "mem_seed_read_block env rl f b zero_page = (r, seed_page env rl f b)" by (cases "mem_seed_read_block env rl f b zero_page") (simp add: seed_page_def)
      let ?B = "put_block ?k (seed_page env rl f b) A"
      have add: "a_blocks (add_page ?k A) ?k = Some zero_page" using None by (simp add: add_page_def)
      have ra: "reads_as env rl f A ?B" using None 1 by (intro reads_as_fetch) (simp_all add: e)
      have b: "block_view env A rl f b = seed_page env rl f b" using None 1 e by (simp add: block_view_def)
      have "wp (mem_get_page_entry env rl f b True)
        (\<lambda>page. wp (require page (\<lambda>ptr. pg_bind (page_read ptr) (\<lambda>buffer.
              case mem_seed_read_block env rl f b buffer of (r, buffer) \<Rightarrow>
                pg_bind (page_write ptr buffer) (\<lambda>_. pg_bind (pg_lift r) (\<lambda>_. page_read ptr))))) Q E) E s1"
      proof (rule wp_get_page_create [OF \<open>at_view env A s1\<close>], goal_cases)
        case (1 s2)
        show ?case unfolding wp_simps
        proof (rule wp_page_read [OF 1 add], unfold r case_prod_conv wp_simps, rule wp_page_write [OF 1 add length_seed_page], unfold add_page_put, goal_cases)
          case (1 s3)
          then show ?case using ok [OF 1 ra] err [OF failed_at [OF 1]] b
            by (cases r) (auto intro!: wp_page_read [OF 1])
        qed
      next
        case (2 er s2)
        then show ?case using err mem_error_failed [OF page_error_mem_error] by blast
      qed
      with 1 \<open>mem_seed_active_for env rl\<close> show ?case by (simp add: wp_simps)
    next
      case 2
      then show ?case using ok [OF 1(1)] None by (simp add: wp_simps block_view_def e)
    qed
  qed
qed

definition read_past_end :: pg_error where
  "read_past_end = Ereport ERROR ERRCODE_DATA_CORRUPTED ''could not read blocks in memory relation fork''"

lemma reads_as_entry: "reads_as env rl f A A' \<Longrightarrow> fork_entry env A' rl f = fork_entry env A rl f"
  by (simp add: reads_as_def fork_entry_def)

lemma set_fork_view:
  assumes "e = fork_entry env A rl f"
  shows "block_view env (set_fork rl f e A) rl f b = block_view env A rl f b" "reads_as env rl f (set_fork rl f e A) A' \<Longrightarrow> agree_other rl f A A'"
  using assms agree_other_trans [OF agree_other_set_fork] by (auto simp: block_view_def reads_as_def)

lemma wp_readv_locked:
  assumes "\<not> mem_use_md env" and "at_view env A s" and "a_forks A (fkey rl f) = None \<Longrightarrow> fork_room A" and "e = fork_entry env A rl f"
    and "view_ok A"
    and ok: "\<And>A' s'. at_view env A' s' \<Longrightarrow> reads_as env rl f (set_fork rl f e A) A' \<Longrightarrow> exists e \<Longrightarrow> blk + n \<le> nblocks e \<Longrightarrow>
      Q (map (block_view env A rl f) (block_range blk (unat n))) s'"
    and past: "\<And>s'. at_view env (set_fork rl f e A) s' \<Longrightarrow> \<not> exists e \<or> nblocks e < blk + n \<Longrightarrow> E read_past_end s'"
    and err: "\<And>er s'. failed env rl f A er s' \<Longrightarrow> E er s'"
  shows "wp (mem_readv_locked env rl f blk n) Q E s"
  unfolding mem_readv_locked_def wp_simps
proof (rule wp_get_fork [OF assms(1-3)], assumption, goal_cases)
  case (1 s1)
  let ?A = "set_fork rl f e A" and ?ptr = "(fork_home (fkey rl f), fkey rl f)" and ?v = "block_view env A rl f"
  have eok: "entry_ok rl e" using view_ok_entry [OF assms(5), of rl env f] assms(4) by simp
  have vok: "view_ok ?A" by (rule view_ok_set_fork [OF assms(5) eok])
  note s1 = 1 [folded assms(4)]
  show ?case unfolding wp_simps
  proof (rule wp_fork_deref [OF s1 set_fork_simps(2)], cases "\<not> exists e \<or> nblocks e < blk + n", goal_cases)
    case 1
    then show ?case using past [OF s1] by (simp add: wp_simps read_past_end_def)
  next
    case 2
    let ?I = "\<lambda>bs ps s. \<exists>B. at_view env B s \<and> reads_as env rl f ?A B \<and> ps @ map ?v bs = map ?v (block_range blk (unat n))"
    have "wp (pg_mapM (mem_read_one env ?ptr rl f) (block_range blk (unat n))) (\<lambda>ps. ?I [] ([] @ ps)) E s1"
    proof (rule wp_mapM [where I = ?I])
      show "?I (block_range blk (unat n)) [] s1" using s1 by (intro exI [of _ ?A]) simp
    next
      fix b bs ps t assume "?I (b # bs) ps t"
      then obtain B where B: "at_view env B t" "reads_as env rl f ?A B" "ps @ map ?v (b # bs) = map ?v (block_range blk (unat n))" by blast
      have "a_forks B (fkey rl f) = Some e" using B(2) by (simp add: reads_as_def)
      then show "wp (mem_read_one env ?ptr rl f b) (\<lambda>p. ?I bs (ps @ [p])) E t"
      proof (rule wp_read_one [OF assms(1) B(1) _ eok], goal_cases)
        case (1 B' s')
        have "block_view env B rl f b = ?v b" using B(2) set_fork_view(1) [OF assms(4)] by (simp add: reads_as_def)
        with 1 B(3) reads_as_trans [OF B(2) 1(2)] show ?case by (intro exI [of _ B']) simp
      next
        case (2 er s')
        have "view_ok B" using vok B(2) by (simp add: reads_as_def view_ok_def)
        with failed_step [OF 2 set_fork_view(2) [OF assms(4) B(2)]] show ?case by (intro err) simp
      qed
    qed
    then have "wp (pg_mapM (mem_read_one env ?ptr rl f) (block_range blk (unat n))) Q E s1"
      by (rule wp_mono) (use ok 2 in \<open>auto simp: not_less\<close>)
    with 2 show ?case by (simp add: wp_simps)
  qed
next
  case (2 er A' s')
  then show ?case using fork_error_op op_error_failed err by blast
qed

lemma wp_nblocks_locked:
  assumes "\<not> mem_use_md env" and "at_view env A s" and "a_forks A (fkey rl f) = None \<Longrightarrow> fork_room A" and "e = fork_entry env A rl f"
    and "view_ok A"
    and ok: "\<And>s'. at_view env (set_fork rl f e A) s' \<Longrightarrow> Q (nblocks e) s'"
    and err: "\<And>er A' s'. at_view env A' s' \<Longrightarrow> fork_error env A rl f er A' \<Longrightarrow> E er s'"
  shows "wp (mem_nblocks_locked env rl f) Q E s"
  unfolding mem_nblocks_locked_def wp_simps
proof (rule wp_get_fork [OF assms(1-3)], assumption, goal_cases)
  case (1 s1)
  have "exists e \<or> nblocks e = 0" using view_ok_entry [OF assms(5), of rl env f] assms(4) by (auto simp: entry_ok_def)
  then show ?case unfolding wp_simps
    by (intro wp_fork_deref [OF 1 [folded assms(4)] set_fork_simps(2)]) (use ok [OF 1 [folded assms(4)]] in \<open>auto simp: wp_simps\<close>)
next
  case (2 er A' s')
  then show ?case by (rule err)
qed

end
