(* ===== verification/MemSmgr_Spec.thy ===== *)
theory MemSmgr_Spec
  imports MemSmgr_Ops
begin

text \<open>
  The contract of the memory storage manager's entry points: a fork is a list of pages, and creating,
  writing, extending, truncating, reading and removing a fork are the list operations, whatever the
  hash tables, the page arena and the seed directory do underneath. Other forks are never touched.
\<close>

section \<open>Forks as lists\<close>

definition write_pages :: "nat \<Rightarrow> page list \<Rightarrow> page list \<Rightarrow> page list" where
  "write_pages blk ps xs =
     (let xs = xs @ replicate (blk - length xs) zero_page in take blk xs @ ps @ drop (blk + length ps) xs)"

lemma length_write_pages [simp]: "length (write_pages blk ps xs) = max (length xs) (blk + length ps)"
  by (auto simp: write_pages_def Let_def)

lemma nth_write_pages:
  "i < max (length xs) (blk + length ps) \<Longrightarrow> write_pages blk ps xs ! i =
    (if blk \<le> i \<and> i < blk + length ps then ps ! (i - blk) else if i < length xs then xs ! i else zero_page)"
  by (auto simp: write_pages_def Let_def nth_append nth_Cons' min_def)

lemma length_pages_of [simp]: "length (pages_of env A rl f) = unat (nblocks (fork_entry env A rl f))"
  by (simp add: pages_of_def)

lemma nth_pages_of: "i < unat (nblocks (fork_entry env A rl f)) \<Longrightarrow> pages_of env A rl f ! i = block_view env A rl f (of_nat i)"
  by (simp add: pages_of_def)

lemma unat_of_nat_block: "i < unat (n :: u32) \<Longrightarrow> unat (of_nat i :: u32) = i"
  using unsigned_less [of n, where 'a = nat] by (simp add: unat_of_nat)

lemma pages_of_write:
  assumes "e = fork_entry env A rl f" and "unat blk + length ps < 2 ^ 32"
  shows "pages_of env (write_view rl f e blk ps A) rl f = write_pages (unat blk) ps (pages_of env A rl f)"
proof (rule nth_equalityI)
  let ?W = "write_view rl f e blk ps A" and ?n = "max (nblocks e) (blk + of_nat (length ps))"
  have e: "fork_entry env ?W rl f = \<lparr>exists = True, on_disk = on_disk e, nblocks = ?n\<rparr>" by (simp add: write_view_def)
  have n: "unat ?n = max (unat (nblocks e)) (unat blk + length ps)"
    using assms(2) by (simp add: max_def word_le_nat_alt unat_blk_plus)
  show "length (pages_of env ?W rl f) = length (write_pages (unat blk) ps (pages_of env A rl f))"
    by (simp add: e n assms(1) [symmetric])
  fix i assume "i < length (pages_of env ?W rl f)"
  hence i: "i < unat ?n" by (simp add: e)
  have ui: "unat (of_nat i :: u32) = i" by (rule unat_of_nat_block [OF i])
  have gap: "unat (nblocks e) + length (replicate (write_gap e blk) zero_page) \<le> 2 ^ 32"
    using unsigned_less [of blk, where 'a = nat] unsigned_less [of "nblocks e", where 'a = nat] by (simp add: write_gap_def)
  have wr: "unat blk + length ps \<le> 2 ^ 32" using assms(2) by simp
  have zero: "a_blocks (put_blocks rl f (zero_blocks (nblocks e) (write_gap e blk)) A) (pkey rl f (of_nat i)) =
      (if unat (nblocks e) \<le> i \<and> i < unat blk then Some zero_page else a_blocks A (pkey rl f (of_nat i)))"
    using put_range_lookup [OF gap, of rl f A "of_nat i"] by (auto simp: ui zero_blocks_def write_gap_def)
  have "a_blocks ?W (pkey rl f (of_nat i)) =
      (if unat blk \<le> i \<and> i < unat blk + length ps then Some (ps ! (i - unat blk))
       else if unat (nblocks e) \<le> i \<and> i < unat blk then Some zero_page else a_blocks A (pkey rl f (of_nat i)))"
    unfolding write_view_def set_fork_simps put_range_lookup [OF wr] zero by (simp add: ui)
  hence "block_view env ?W rl f (of_nat i) =
      (if unat blk \<le> i \<and> i < unat blk + length ps then ps ! (i - unat blk)
       else if unat (nblocks e) \<le> i \<and> i < unat blk then zero_page else block_view env A rl f (of_nat i))"
    by (simp add: block_view_def e assms(1) [symmetric])
  then show "pages_of env ?W rl f ! i = write_pages (unat blk) ps (pages_of env A rl f) ! i"
    using i n by (auto simp: nth_pages_of e nth_write_pages assms(1) [symmetric])
qed

section \<open>Locks\<close>

definition lock_free :: "RelFileLocatorBackend \<Rightarrow> 'm mem_state \<Rightarrow> bool" where
  "lock_free rl s \<longleftrightarrow> mem_key_is_temp rl \<or> mem_shared_partition_for rl \<notin> set (held_locks s)"

definition lock_view :: "RelFileLocatorBackend \<Rightarrow> 'm mem_view \<Rightarrow> 'm mem_view" where
  "lock_view rl A = (if mem_key_is_temp rl then A else A\<lparr>a_locks := mem_shared_partition_for rl # a_locks A\<rparr>)"

lemma locks_irrelevant [simp]:
  "fork_entry env (A\<lparr>a_locks := l\<rparr>) = fork_entry env A" "block_view env (A\<lparr>a_locks := l\<rparr>) = block_view env A"
  "pages_of env (A\<lparr>a_locks := l\<rparr>) = pages_of env A" "view_ok (A\<lparr>a_locks := l\<rparr>) = view_ok A" "fork_room (A\<lparr>a_locks := l\<rparr>) = fork_room A"
  "page_slot (A\<lparr>a_locks := l\<rparr>) = page_slot A" "fork_slot (A\<lparr>a_locks := l\<rparr>) = fork_slot A"
  by (simp_all add: fun_eq_iff fork_entry_def block_view_def pages_of_def view_ok_def fork_room_def page_slot_def fork_slot_def)

lemma lock_view_simps [simp]:
  "fork_entry env (lock_view rl A) = fork_entry env A" "block_view env (lock_view rl A) = block_view env A"
  "pages_of env (lock_view rl A) = pages_of env A" "view_ok (lock_view rl A) = view_ok A" "fork_room (lock_view rl A) = fork_room A"
  "page_slot (lock_view rl A) = page_slot A" "fork_slot (lock_view rl A) = fork_slot A" "a_forks (lock_view rl A) = a_forks A"
  by (simp_all add: lock_view_def)

lemma at_view_locks: "at_view env A s \<Longrightarrow> at_view env (A\<lparr>a_locks := l\<rparr>) (s\<lparr>held_locks := l\<rparr>)"
proof -
  assume at: "at_view env A s"
  have maps: "forks (s\<lparr>held_locks := l\<rparr>) = forks s" "pages (s\<lparr>held_locks := l\<rparr>) = pages s"
    by (simp_all add: forks_def pages_def family_map_def fun_eq_iff)
  hence "blocks (s\<lparr>held_locks := l\<rparr>) = blocks s" by (simp add: blocks_def fun_eq_iff)
  moreover have "mem_inv env (s\<lparr>held_locks := l\<rparr>)"
    using at_viewD(1) [OF at] maps by (simp add: mem_inv_def family_ok_def local_ok_def arena_ok_def)
  ultimately show ?thesis using at maps by (auto simp: at_view_def mem_abs_def)
qed

lemma wp_with_lock:
  assumes "at_view env A s" and "lock_free rl s"
    and "\<And>t. at_view env (lock_view rl A) t \<Longrightarrow>
      wp body (\<lambda>a t'. \<exists>B. at_view env B t' \<and> a_locks B = a_locks (lock_view rl A) \<and> (\<forall>s'. at_view env (B\<lparr>a_locks := a_locks A\<rparr>) s' \<longrightarrow> Q a s')) E t"
  shows "wp (with_lock rl body) Q E s"
proof (cases "mem_key_is_temp rl")
  case True
  have "wp body Q E s"
  proof (rule wp_mono [OF assms(3)], goal_cases)
    case (2 a t)
    then obtain B where B: "at_view env B t" "a_locks B = a_locks A" "\<forall>s'. at_view env (B\<lparr>a_locks := a_locks A\<rparr>) s' \<longrightarrow> Q a s'"
      using True by (auto simp: lock_view_def)
    have "B\<lparr>a_locks := a_locks A\<rparr> = B" using B(2) by simp
    with B show ?case by metis
  qed (use assms(1) True in \<open>simp_all add: lock_view_def\<close>)
  with True show ?thesis by (simp add: with_lock_def mem_lock_for_def lock_acquire_def lock_release_def wp_def pg_bind_def pg_return_def split: prod.splits sum.splits)
next
  case False
  let ?p = "mem_shared_partition_for rl" and ?l = "held_locks s"
  let ?t = "s\<lparr>held_locks := ?p # ?l\<rparr>"
  have l: "a_locks A = ?l" using at_viewD(5) [OF assms(1)] .
  have t: "at_view env (lock_view rl A) ?t" using at_view_locks [OF assms(1), of "?p # ?l"] False l by (simp add: lock_view_def)
  have "MemSmgrState s" using at_viewD(1) [OF assms(1)] by (simp add: mem_inv_def)
  hence pre: "mem_lock_for rl s = (Inr (Some ?p), s)" "lock_acquire (Some ?p) s = (Inr (), ?t)"
    using False assms(2) by (simp_all add: mem_lock_for_def lock_acquire_def lock_free_def)
  have "wp body (\<lambda>a. wp (lock_release (Some ?p)) (\<lambda>_. Q a) E) E ?t"
  proof (rule wp_mono [OF assms(3) [OF t]], goal_cases)
    case (1 a t')
    then obtain B where B: "at_view env B t'" "a_locks B = ?p # ?l" "\<forall>s'. at_view env (B\<lparr>a_locks := ?l\<rparr>) s' \<longrightarrow> Q a s'"
      using False l by (auto simp: lock_view_def)
    have h: "held_locks t' = ?p # ?l" using at_viewD(5) [OF B(1)] B(2) by simp
    from at_view_locks [OF B(1), of ?l] B(3) have "Q a (t'\<lparr>held_locks := ?l\<rparr>)" by blast
    with h show ?case by (simp add: wp_def lock_release_def)
  qed
  then show ?thesis unfolding with_lock_def wp_simps by (simp add: wp_def [of "mem_lock_for rl"] pre wp_def [of "lock_acquire _"] wp_simps)
qed

section \<open>The contract\<close>

text \<open>A well-formed state; what a fork is; that other forks are as before.\<close>

definition mem_ok :: "'m mem_env \<Rightarrow> 'm mem_state \<Rightarrow> bool" where
  "mem_ok env s \<longleftrightarrow> mem_inv env s \<and> view_ok (mem_abs s)"

definition fork_pages :: "'m mem_env \<Rightarrow> 'm mem_state \<Rightarrow> RelFileLocatorBackend \<Rightarrow> ForkNumber \<Rightarrow> page list" where
  "fork_pages env s rl f = pages_of env (mem_abs s) rl f"

definition fork_exists :: "'m mem_env \<Rightarrow> 'm mem_state \<Rightarrow> RelFileLocatorBackend \<Rightarrow> ForkNumber \<Rightarrow> bool" where
  "fork_exists env s rl f \<longleftrightarrow> exists (fork_entry env (mem_abs s) rl f)"

definition others_same :: "'m mem_env \<Rightarrow> RelFileLocatorBackend \<Rightarrow> ForkNumber \<Rightarrow> 'm mem_state \<Rightarrow> 'm mem_state \<Rightarrow> bool" where
  "others_same env rl f s s' \<longleftrightarrow>
     (\<forall>rl' f'. (rl', f') \<noteq> (rl, f) \<longrightarrow> fork_exists env s' rl' f' = fork_exists env s rl' f' \<and> fork_pages env s' rl' f' = fork_pages env s rl' f')"

text \<open>
  What the entry points leave behind: after a result, a well-formed state, the locks as they were, and
  other forks as they were; after an error the same but for the lock, unless the arena of pages ran out.
\<close>

definition kept :: "'m mem_env \<Rightarrow> RelFileLocatorBackend \<Rightarrow> ForkNumber \<Rightarrow> 'm mem_state \<Rightarrow> 'm mem_state \<Rightarrow> bool" where
  "kept env rl f s s' \<longleftrightarrow> mem_ok env s' \<and> held_locks s' = held_locks s \<and> others_same env rl f s s'"

definition kept_error :: "'m mem_env \<Rightarrow> RelFileLocatorBackend \<Rightarrow> ForkNumber \<Rightarrow> 'm mem_state \<Rightarrow> pg_error \<Rightarrow> 'm mem_state \<Rightarrow> bool" where
  "kept_error env rl f s er s' \<longleftrightarrow> (er \<noteq> arena_full \<longrightarrow> mem_ok env s') \<and> others_same env rl f s s'"

lemma agree_other_same:
  assumes "agree_other rl f B B'" and "B = mem_abs s \<or> B = lock_view rl (mem_abs s)" and "B' = mem_abs s'"
  shows "others_same env rl f s s'"
  unfolding others_same_def fork_exists_def fork_pages_def
proof (intro allI impI)
  fix rl' f' assume ne: "(rl', f') \<noteq> (rl, f)"
  have "fork_entry env B = fork_entry env (mem_abs s)" "pages_of env B = pages_of env (mem_abs s)" using assms(2) by auto
  with agree_other_pages [OF assms(1) ne, of env] assms(3)
  show "exists (fork_entry env (mem_abs s') rl' f') = exists (fork_entry env (mem_abs s) rl' f') \<and>
      pages_of env (mem_abs s') rl' f' = pages_of env (mem_abs s) rl' f'" by simp
qed

lemma failed_kept: "failed env rl f (lock_view rl (mem_abs s)) er s' \<Longrightarrow> mem_ok env s \<Longrightarrow> kept_error env rl f s er s'"
  using agree_other_same [of rl f _ _ s s' env] by (auto simp: failed_def kept_error_def mem_ok_def)

lemma kept_view:
  assumes "at_view env (B\<lparr>a_locks := a_locks (mem_abs s)\<rparr>) s'" and "agree_other rl f (lock_view rl (mem_abs s)) B" and "view_ok B"
  shows "kept env rl f s s'" "fork_pages env s' rl' f' = pages_of env B rl' f'" "fork_exists env s' rl' f' = exists (fork_entry env B rl' f')"
proof -
  have s': "mem_abs s' = B\<lparr>a_locks := a_locks (mem_abs s)\<rparr>" "mem_inv env s'" using assms(1) by (simp_all add: at_view_def)
  show "fork_pages env s' rl' f' = pages_of env B rl' f'" "fork_exists env s' rl' f' = exists (fork_entry env B rl' f')"
    by (simp_all add: fork_pages_def fork_exists_def s'(1))
  have "held_locks s' = held_locks s" using arg_cong [OF s'(1), of a_locks] by (simp add: mem_abs_def)
  moreover have "others_same env rl f s s'"
  proof -
    have e: "fork_entry env (mem_abs s') = fork_entry env B" "pages_of env (mem_abs s') = pages_of env B" by (simp_all add: s'(1))
    show ?thesis unfolding others_same_def fork_exists_def fork_pages_def e
      using agree_other_pages [OF assms(2), of _ _ env] by simp
  qed
  ultimately show "kept env rl f s s'" using assms(3) s' by (simp add: kept_def mem_ok_def)
qed

lemma mem_ok_view: "mem_ok env s \<Longrightarrow> at_view env (mem_abs s) s" "mem_ok env s \<Longrightarrow> view_ok (mem_abs s)"
  by (simp_all add: mem_ok_def at_view_def)

lemma agree_other_write_view: "agree_other rl f A (write_view rl f e blk ps A)"
  unfolding write_view_def
  by (rule agree_other_trans [OF put_blocks_sel(2) agree_other_trans [OF put_blocks_sel(2) agree_other_set_fork]])

lemma view_ok_write_view: "view_ok A \<Longrightarrow> entry_ok rl e \<Longrightarrow> view_ok (write_view rl f e blk ps A)"
  unfolding write_view_def by (intro view_ok_set_fork entry_ok_exists) (simp_all add: view_ok_def put_blocks_sel)

lemma wp_memwritev:
  assumes "\<not> mem_use_md env" and "mem_ok env s" and "lock_free rl s" and "fork_room (mem_abs s)"
    and "\<forall>p \<in> set ps. length p = BLCKSZ" and "unat blk + length ps < 2 ^ 31"
    and "\<And>er s'. op_error env rl f (lock_view rl (mem_abs s)) (write_gap (fork_entry env (mem_abs s) rl f) blk + length ps) er s' \<Longrightarrow> E er s'"
  shows "wp (with_lock rl (mem_writev_locked env rl f blk ps)) (\<lambda>_ s'. kept env rl f s s' \<and> fork_exists env s' rl f \<and>
      fork_pages env s' rl f = write_pages (unat blk) ps (fork_pages env s rl f) \<and>
      mem_abs s' = (write_view rl f (fork_entry env (mem_abs s) rl f) blk ps (lock_view rl (mem_abs s)))\<lparr>a_locks := a_locks (mem_abs s)\<rparr>) E s"
proof (rule wp_with_lock [OF mem_ok_view(1) [OF assms(2)] assms(3)])
  fix t assume t: "at_view env (lock_view rl (mem_abs s)) t"
  let ?A = "lock_view rl (mem_abs s)" and ?e = "fork_entry env (mem_abs s) rl f"
  let ?W = "write_view rl f ?e blk ps ?A"
  have vok: "view_ok ?A" using mem_ok_view(2) [OF assms(2)] by simp
  have W: "agree_other rl f ?A ?W" "view_ok ?W" "a_locks ?W = a_locks ?A"
    using agree_other_write_view [of rl f ?A ?e blk ps] view_ok_write_view [OF vok view_ok_entry [OF vok, of rl env f], of f blk ps]
    by (simp_all add: agree_other_def)
  have p: "pages_of env ?W rl f = write_pages (unat blk) ps (fork_pages env s rl f)" "exists (fork_entry env ?W rl f)"
    using pages_of_write [of ?e env ?A rl f blk ps] assms(6) by (simp_all add: fork_pages_def write_view_def)
  show "wp (mem_writev_locked env rl f blk ps) (\<lambda>a t'. \<exists>B. at_view env B t' \<and> a_locks B = a_locks ?A \<and>
      (\<forall>s'. at_view env (B\<lparr>a_locks := a_locks (mem_abs s)\<rparr>) s' \<longrightarrow> kept env rl f s s' \<and> fork_exists env s' rl f \<and>
        fork_pages env s' rl f = write_pages (unat blk) ps (fork_pages env s rl f) \<and> mem_abs s' = ?W\<lparr>a_locks := a_locks (mem_abs s)\<rparr>)) E t"
  proof (rule wp_writev_locked [OF assms(1) t, where e = ?e], goal_cases)
    case (6 t')
    then show ?case using W(3) kept_view [OF _ W(1,2)] p by (intro exI [of _ ?W]) (auto simp: at_view_def)
  qed (use assms(4-7) vok in simp_all)
qed

section \<open>Start-up\<close>

text \<open>The variables before start-up: everything zero.\<close>

definition blank_state :: "'m \<Rightarrow> 'm mem_state" where
  "blank_state m = \<lparr>MemSmgrState = False, initialized = False, arena_mapped = False, next_page = 0, page_data = (\<lambda>_. []),
     MemSmgrForkHashes = [], MemSmgrPageHashes = [], MemSmgrLocalCxt = False, LocalForkHash = None, LocalPageHash = None,
     held_locks = [], scans = [], aio_trace = [], md = m\<rparr>"

lemma shared_partitions: "valid_partitions (HASH_PARTITION shared_flags)" "HASH_SHARED_MEM shared_flags" "HASH_FIXED_SIZE shared_flags"
  by (simp_all add: shared_flags_def valid_partitions_def)

lemma shared_table_ok:
  assumes "hash_create shared_flags h entrysize n stale fails = Inr t" and "n \<le> 2 ^ 30" and "shared_id i"
  shows "table_ok home n i t" "htab_map t = Map.empty"
  using hash_create_ok [OF assms(1) shared_partitions(1)] fixed_ok_create [OF assms(1) shared_partitions assms(2)]
  by (simp_all add: table_ok_def)

lemma MemSmgrShmemRequest_ok:
  assumes "MemSmgrShmemRequest env allocs s = (Inr (), s')"
  shows "\<exists>fs ps. s' = s\<lparr>MemSmgrForkHashes := MemSmgrForkHashes s @ fs, MemSmgrPageHashes := MemSmgrPageHashes s @ ps\<rparr> \<and>
    length fs = length allocs \<and> length ps = length allocs \<and>
    (\<forall>t \<in> set fs. \<forall>i. table_ok fork_home MEMSMGR_SHARED_FORKS_PER_PARTITION (SharedFork i) t \<and> htab_map t = Map.empty) \<and>
    (\<forall>t \<in> set ps. \<forall>i. table_ok page_home MEMSMGR_SHARED_PAGES_PER_PARTITION (SharedPage i) t \<and> htab_map t = Map.empty)"
  using assms
proof (induction env allocs s rule: MemSmgrShmemRequest.induct)
  case (2 env fork_alloc page_alloc rest s)
  obtain t u where t: "hash_create shared_flags (fork_key_hash env) 28 MEMSMGR_SHARED_FORKS_PER_PARTITION (stale_fork env) fork_alloc = Inr t"
    and u: "hash_create shared_flags (page_key_hash env) 28 MEMSMGR_SHARED_PAGES_PER_PARTITION (stale_page env) page_alloc = Inr u"
    using 2(2) by (auto split: sum.splits)
  note IH = 2(1) [OF t u]
  have "table_ok fork_home MEMSMGR_SHARED_FORKS_PER_PARTITION (SharedFork i) t \<and> htab_map t = Map.empty"
    "table_ok page_home MEMSMGR_SHARED_PAGES_PER_PARTITION (SharedPage i) u \<and> htab_map u = Map.empty" for i
    using shared_table_ok(1) [OF t, of "SharedFork i" fork_home] shared_table_ok(1) [OF u, of "SharedPage i" page_home]
      shared_table_ok(2) [OF t, of "SharedFork i"] shared_table_ok(2) [OF u, of "SharedPage i"]
    by (simp_all add: shared_id_def MEMSMGR_SHARED_FORKS_PER_PARTITION_def MEMSMGR_SHARED_PAGES_PER_PARTITION_def
        MEMSMGR_SHARED_MAX_FORKS_def MEMSMGR_SHARED_MAX_PAGES_def MEMSMGR_SHARED_PARTITIONS_def)
  moreover obtain fs ps where "s' = s\<lparr>MemSmgrForkHashes := MemSmgrForkHashes s @ t # fs, MemSmgrPageHashes := MemSmgrPageHashes s @ u # ps\<rparr>"
    "length fs = length rest" "length ps = length rest"
    "\<forall>t \<in> set fs. \<forall>i. table_ok fork_home MEMSMGR_SHARED_FORKS_PER_PARTITION (SharedFork i) t \<and> htab_map t = Map.empty"
    "\<forall>t \<in> set ps. \<forall>i. table_ok page_home MEMSMGR_SHARED_PAGES_PER_PARTITION (SharedPage i) t \<and> htab_map t = Map.empty"
    using IH 2(2) t u by auto
  ultimately show ?case by (intro exI [of _ "t # fs"] exI [of _ "u # ps"]) auto
qed auto

lemma startup_ok:
  assumes "MemSmgrShmemRequest env allocs (blank_state m) = (Inr (), s1)" and "length allocs = MEMSMGR_SHARED_PARTITIONS"
    and "MemSmgrShmemInit env s1 = (Inr (), s)"
    and "\<exists>t. hash_create local_flags (fork_key_hash env) 28 128 (stale_fork env) (local_fork_alloc env) = Inr t"
    and "\<exists>t. hash_create local_flags (page_key_hash env) 28 1024 (stale_page env) (local_page_alloc env) = Inr t"
  shows "mem_ok env s" "forks s = Map.empty" "blocks s = Map.empty" "next_page s = 0" "held_locks s = []"
proof -
  obtain fs ps where s1: "s1 = (blank_state m)\<lparr>MemSmgrForkHashes := fs, MemSmgrPageHashes := ps\<rparr>"
    and len: "length fs = MEMSMGR_SHARED_PARTITIONS" "length ps = MEMSMGR_SHARED_PARTITIONS"
    and fs: "\<And>t i. t \<in> set fs \<Longrightarrow> table_ok fork_home MEMSMGR_SHARED_FORKS_PER_PARTITION (SharedFork i) t \<and> htab_map t = Map.empty"
    and ps: "\<And>t i. t \<in> set ps \<Longrightarrow> table_ok page_home MEMSMGR_SHARED_PAGES_PER_PARTITION (SharedPage i) t \<and> htab_map t = Map.empty"
    using MemSmgrShmemRequest_ok [OF assms(1)] assms(2) by (auto simp: blank_state_def)
  have s: "s = s1\<lparr>MemSmgrState := True, next_page := 0, page_data := (\<lambda>_. zero_page), arena_mapped := True, initialized := True\<rparr>"
    using assms(3) s1 by (auto simp: MemSmgrShmemInit_def Let_def blank_state_def split: if_splits)
  have ft: "table_ok fork_home MEMSMGR_SHARED_FORKS_PER_PARTITION h t \<and> htab_map t = Map.empty" if "fork_table h s = Some t" for h t
    using that fs [of t] by (cases h) (auto simp: s s1 blank_state_def split: if_splits)
  have pt: "table_ok page_home MEMSMGR_SHARED_PAGES_PER_PARTITION h t \<and> htab_map t = Map.empty" if "page_table h s = Some t" for h t
    using that ps [of t] by (cases h) (auto simp: s s1 blank_state_def split: if_splits)
  show f: "forks s = Map.empty" using ft by (auto simp: forks_def family_map_def fun_eq_iff split: bind_splits)
  have p: "pages s = Map.empty" using pt by (auto simp: pages_def family_map_def fun_eq_iff split: bind_splits)
  then show "blocks s = Map.empty" by (simp add: blocks_def fun_eq_iff)
  have "mem_inv env s"
    using ft pt len assms(4,5) p unfolding mem_inv_def family_ok_def
    by (auto simp: s s1 blank_state_def local_ok_def arena_ok_def MAX_SEQ_SCANS_def)
  then show "mem_ok env s" using f by (simp add: mem_ok_def view_ok_def mem_abs_def)
qed (use assms(3) MemSmgrShmemRequest_ok [OF assms(1)] in \<open>auto simp: MemSmgrShmemInit_def Let_def blank_state_def split: if_splits\<close>)

end
