(* ===== verification/MemSmgr_Contract.thy ===== *)
theory MemSmgr_Contract
  imports MemSmgr_Spec
begin

text \<open>
  The entry points of the memory storage manager other than writing: reading, creating, truncating,
  zero extension, removal, existence and size, each as an operation on a list of pages. The error
  predicates say which errors an entry point can raise and what it then leaves behind.
\<close>

section \<open>Reading, creating, truncating\<close>

lemma range_view:
  assumes "unat blk + n \<le> unat (nblocks (fork_entry env A rl f))"
  shows "map (block_view env A rl f) (block_range blk n) = take n (drop (unat blk) (pages_of env A rl f))"
  using assms by (intro nth_equalityI) (simp_all add: block_range_nth nth_pages_of)

lemma reads_as_pages:
  assumes "reads_as env rl f (set_fork rl f e A) A'" and "e = fork_entry env A rl f"
  shows "fork_entry env A' rl f = e" "pages_of env A' rl f = pages_of env A rl f" "agree_other rl f A A'"
proof -
  show e: "fork_entry env A' rl f = e" using reads_as_entry [OF assms(1)] by simp
  show "pages_of env A' rl f = pages_of env A rl f"
    using assms(1) set_fork_view(1) [OF assms(2)] by (simp add: pages_of_def e assms(2) [symmetric] reads_as_def)
  show "agree_other rl f A A'" by (rule set_fork_view(2) [OF assms(2,1)])
qed

lemma reads_as_ok: "reads_as env rl f (set_fork rl f e A) A' \<Longrightarrow> view_ok A \<Longrightarrow> entry_ok rl e \<Longrightarrow> view_ok A'"
  using view_ok_set_fork [of A rl e f] by (simp add: reads_as_def view_ok_def)

definition read_outcome :: "'m mem_env \<Rightarrow> RelFileLocatorBackend \<Rightarrow> ForkNumber \<Rightarrow> BlockNumber \<Rightarrow> BlockNumber \<Rightarrow> 'm mem_state \<Rightarrow> page list \<Rightarrow> 'm mem_state \<Rightarrow> bool" where
  "read_outcome env rl f blk n s ps s' \<longleftrightarrow> kept env rl f s s' \<and> fork_exists env s rl f \<and> fork_exists env s' rl f \<and>
     fork_pages env s' rl f = fork_pages env s rl f \<and> unat blk + unat n \<le> length (fork_pages env s rl f) \<and>
     ps = take (unat n) (drop (unat blk) (fork_pages env s rl f))"

lemma wp_memreadv:
  assumes "\<not> mem_use_md env" and "mem_ok env s" and "lock_free rl s" and "fork_room (mem_abs s)" and "unat blk + unat n < 2 ^ 32"
  shows "wp (with_lock rl (mem_readv_locked env rl f blk n)) (read_outcome env rl f blk n s) (kept_error env rl f s) s"
proof (rule wp_with_lock [OF mem_ok_view(1) [OF assms(2)] assms(3)])
  fix t assume t: "at_view env (lock_view rl (mem_abs s)) t"
  let ?A = "lock_view rl (mem_abs s)" and ?e = "fork_entry env (mem_abs s) rl f"
  have vok: "view_ok ?A" using mem_ok_view(2) [OF assms(2)] by simp
  have eok: "entry_ok rl ?e" using view_ok_entry [OF vok, of rl env f] by simp
  have sum: "unat (blk + n) = unat blk + unat n" using assms(5) by (simp add: unat_word_ariths)
  show "wp (mem_readv_locked env rl f blk n) (\<lambda>ps t'. \<exists>B. at_view env B t' \<and> a_locks B = a_locks ?A \<and>
      (\<forall>s'. at_view env (B\<lparr>a_locks := a_locks (mem_abs s)\<rparr>) s' \<longrightarrow> read_outcome env rl f blk n s ps s')) (kept_error env rl f s) t"
  proof (rule wp_readv_locked [OF assms(1) t, where e = ?e], goal_cases)
    case (4 B t')
    note r = reads_as_pages [OF 4(2)] reads_as_ok [OF 4(2) vok eok]
    have "unat blk + unat n \<le> unat (nblocks ?e)" using 4(4) sum by (simp add: word_le_nat_alt)
    with range_view [of blk "unat n" env "mem_abs s" rl f] 4 r kept_view [OF _ r(3,4)] show ?case
      by (intro exI [of _ B]) (auto simp: read_outcome_def fork_pages_def fork_exists_def agree_other_def)
  next
    case (5 t')
    have "failed env rl f ?A read_past_end t'" by (rule failed_at [OF 5(1)]) (use view_ok_set_fork [OF vok eok] in simp_all)
    then show ?case by (rule failed_kept [OF _ assms(2)])
  next
    case (6 er t')
    then show ?case by (rule failed_kept [OF _ assms(2)])
  qed (use assms(4) vok in simp_all)
qed

text \<open>A read of blocks that all have pages finds them, and changes nothing.\<close>

lemma wp_readv_present:
  assumes "\<not> mem_use_md env" and "at_view env A s" and "a_forks A (fkey rl f) = Some e" and "exists e" and "blk + n \<le> nblocks e"
    and "map (\<lambda>b. a_blocks A (pkey rl f b)) (block_range blk (unat n)) = map Some ps"
  shows "wp (mem_readv_locked env rl f blk n) (\<lambda>r s'. r = ps \<and> at_view env A s') (\<lambda>_ _. False) s"
  unfolding mem_readv_locked_def wp_simps
proof (rule wp_get_fork [OF assms(1,2)], goal_cases)
  case (2 s1)
  have "set_fork rl f (fork_entry env A rl f) A = A" using assms(3) by (simp add: set_fork_def fork_entry_def fun_upd_idem)
  hence s1: "at_view env A s1" using 2 by simp
  let ?I = "\<lambda>bs qs s. at_view env A s \<and> (\<exists>rs. map (\<lambda>b. a_blocks A (pkey rl f b)) bs = map Some rs \<and> qs @ rs = ps)"
  have "wp (pg_mapM (mem_read_one env (fork_home (fkey rl f), fkey rl f) rl f) (block_range blk (unat n))) (\<lambda>qs. ?I [] ([] @ qs)) (\<lambda>_ _. False) s1"
  proof (rule wp_mapM [where I = ?I])
    fix b bs qs t assume "?I (b # bs) qs t"
    then obtain p rs where I: "at_view env A t" "a_blocks A (pkey rl f b) = Some p" "map (\<lambda>b. a_blocks A (pkey rl f b)) bs = map Some rs" "qs @ p # rs = ps"
      by (auto simp: Cons_eq_map_conv)
    then show "wp (mem_read_one env (fork_home (fkey rl f), fkey rl f) rl f b) (\<lambda>q. ?I bs (qs @ [q])) (\<lambda>_ _. False) t"
      unfolding mem_read_one_def wp_simps by (intro wp_get_page_find [OF I(1)]) (auto intro!: wp_page_read)
  qed (use s1 assms(6) in auto)
  then show ?case unfolding wp_simps
    by (intro wp_fork_deref [OF s1 assms(3)]) (use assms(4,5) in \<open>auto simp: wp_simps not_less elim!: wp_mono\<close>)
qed (use assms(3) in \<open>simp_all add: fork_error_def\<close>)

lemma read_after_write:
  assumes "\<not> mem_use_md env" and "mem_ok env s" and "lock_free rl s" and "fork_room (mem_abs s)"
    and "\<forall>p \<in> set ps. length p = BLCKSZ" and "unat blk + length ps < 2 ^ 31"
    and "memwritev env rl f blk ps skipFsync s = (Inr (), s')"
  shows "\<exists>s''. memreadv env rl f blk (of_nat (length ps)) s' = (Inr ps, s'')"
proof -
  let ?e = "fork_entry env (mem_abs s) rl f" and ?n = "of_nat (length ps) :: u32"
  let ?W = "write_view rl f ?e blk ps (lock_view rl (mem_abs s))"
  have "wp (with_lock rl (mem_writev_locked env rl f blk ps)) (\<lambda>_ s'. kept env rl f s s' \<and> mem_abs s' = ?W\<lparr>a_locks := a_locks (mem_abs s)\<rparr>) (\<lambda>_ _. True) s"
    by (rule wp_mono [OF wp_memwritev [OF assms(1-6), of f "\<lambda>_ _. True"]]) auto
  hence s': "kept env rl f s s'" "mem_abs s' = ?W\<lparr>a_locks := a_locks (mem_abs s)\<rparr>"
    using assms(1,7) by (auto simp: memwritev_def dest!: wpD)
  have at: "at_view env (mem_abs s') s'" and lf: "lock_free rl s'"
    using s'(1) assms(3) mem_ok_view(1) [of env s'] by (simp_all add: kept_def lock_free_def)
  have n: "unat ?n = length ps" "unat (blk + ?n) = unat blk + length ps" "unat blk + length ps \<le> 2 ^ 32"
    using assms(6) by (simp_all add: unat_of_nat32 unat_blk_plus)
  let ?e' = "\<lparr>exists = True, on_disk = on_disk ?e, nblocks = max (nblocks ?e) (blk + ?n)\<rparr>"
  have view: "a_forks (lock_view rl (mem_abs s')) (fkey rl f) = Some ?e'" by (simp add: s'(2) write_view_def)
  have "map (\<lambda>b. a_blocks (lock_view rl (mem_abs s')) (pkey rl f b)) (block_range blk (unat ?n)) = map Some ps"
  proof (rule nth_equalityI)
    fix i assume "i < length (map (\<lambda>b. a_blocks (lock_view rl (mem_abs s')) (pkey rl f b)) (block_range blk (unat ?n)))"
    hence i: "i < length ps" using n(1) by (simp add: block_range_nth)
    have "unat (blk + of_nat i) = unat blk + i" using i assms(6) by (intro unat_blk_plus) simp
    with i n(1) show "map (\<lambda>b. a_blocks (lock_view rl (mem_abs s')) (pkey rl f b)) (block_range blk (unat ?n)) ! i = map Some ps ! i"
      by (simp add: block_range_nth lock_view_def s'(2) write_view_def put_range_lookup [OF n(3)])
  qed (simp add: n(1) block_range_nth)
  hence "wp (with_lock rl (mem_readv_locked env rl f blk ?n)) (\<lambda>r _. r = ps) (\<lambda>_ _. False) s'"
    by (intro wp_with_lock [OF at lf] wp_mono [OF wp_readv_present [OF assms(1) _ view]]) auto
  then show ?thesis using assms(1) by (auto simp: wp_no_error memreadv_def)
qed

text \<open>The rule for an entry point on one fork: run under the lock, then forget the lock.\<close>

definition shows_as :: "'m mem_env \<Rightarrow> 'm mem_state \<Rightarrow> 'm mem_view \<Rightarrow> bool" where
  "shows_as env s' B \<longleftrightarrow> (\<forall>rl f. fork_pages env s' rl f = pages_of env B rl f \<and> fork_exists env s' rl f = exists (fork_entry env B rl f))"

lemma wp_locked:
  assumes "mem_ok env s" and "lock_free rl s"
    and "\<And>t. at_view env (lock_view rl (mem_abs s)) t \<Longrightarrow> view_ok (lock_view rl (mem_abs s)) \<Longrightarrow>
      wp body (\<lambda>a t'. \<exists>B. at_view env B t' \<and> agree_other rl f (lock_view rl (mem_abs s)) B \<and> view_ok B \<and> R a B)
        (\<lambda>er t'. failed env rl f (lock_view rl (mem_abs s)) er t' \<and> X er) t"
  shows "wp (with_lock rl body) (\<lambda>a s'. kept env rl f s s' \<and> (\<exists>B. R a B \<and> shows_as env s' B)) (\<lambda>er s'. kept_error env rl f s er s' \<and> X er) s"
proof (rule wp_with_lock [OF mem_ok_view(1) [OF assms(1)] assms(2)])
  fix t assume t: "at_view env (lock_view rl (mem_abs s)) t"
  have "view_ok (lock_view rl (mem_abs s))" using mem_ok_view(2) [OF assms(1)] by simp
  from assms(3) [OF t this] show "wp body (\<lambda>a t'. \<exists>B. at_view env B t' \<and> a_locks B = a_locks (lock_view rl (mem_abs s)) \<and>
      (\<forall>s'. at_view env (B\<lparr>a_locks := a_locks (mem_abs s)\<rparr>) s' \<longrightarrow> kept env rl f s s' \<and> (\<exists>B. R a B \<and> shows_as env s' B))) (\<lambda>er s'. kept_error env rl f s er s' \<and> X er) t"
  proof (rule wp_mono, goal_cases)
    case (1 a t')
    then obtain B where B: "at_view env B t'" "agree_other rl f (lock_view rl (mem_abs s)) B" "view_ok B" "R a B" by blast
    have "kept env rl f s s' \<and> shows_as env s' B" if "at_view env (B\<lparr>a_locks := a_locks (mem_abs s)\<rparr>) s'" for s'
      using kept_view [OF that B(2,3)] by (simp add: shows_as_def)
    with B show ?case by (intro exI [of _ B]) (auto simp: agree_other_def)
  next
    case (2 er t')
    then show ?case using failed_kept [OF _ assms(1)] by blast
  qed
qed

lemma wp_update_fork:
  assumes "at_view env (set_fork rl f e A) s" and "\<And>s'. at_view env (set_fork rl f (g e) A) s' \<Longrightarrow> Q () s'"
  shows "wp (fork_update (fork_home (fkey rl f), fkey rl f) g) Q E s"
  by (rule wp_fork_update [OF assms(1) set_fork_simps(2)]) (use assms(2) in \<open>simp add: set_fork_def\<close>)

text \<open>The errors of looking up a fork: it is new, and has no room in its table or cannot be sized in the seed.\<close>

definition lookup_error :: "'m mem_env \<Rightarrow> RelFileLocatorBackend \<Rightarrow> ForkNumber \<Rightarrow> 'm mem_view \<Rightarrow> pg_error \<Rightarrow> bool" where
  "lookup_error env rl f A er \<longleftrightarrow> a_forks A (fkey rl f) = None \<and> (er = fork_table_full \<and> \<not> fork_slot A rl \<or> seed_error env rl f er)"

lemma lookup_error_lock [simp]: "lookup_error env rl f (lock_view rl A) = lookup_error env rl f A"
  by (simp add: lookup_error_def fun_eq_iff)

lemma op_error_lookup: "op_error env rl f A n er s' \<Longrightarrow> lookup_error env rl f A er \<or> er \<in> {page_table_full, arena_full} \<and> \<not> page_slot A rl n"
  by (auto simp: op_error_def lookup_error_def)

lemma fork_error_failed: "at_view env A' s' \<Longrightarrow> fork_error env A rl f e A' \<Longrightarrow> failed env rl f A e s' \<and> lookup_error env rl f A e"
  using op_error_failed [OF fork_error_op, of env A' s' A rl f e] by (auto simp: fork_error_def [of env A rl f] lookup_error_def seed_error_def)

definition new_fork :: "RelFileLocatorBackend \<Rightarrow> ForkNumber \<Rightarrow> 'm mem_view \<Rightarrow> 'm mem_view" where
  "new_fork rl f A = drop_pages rl f 0 (set_fork rl f \<lparr>exists = True, on_disk = False, nblocks = 0\<rparr> A)"

lemma drop_pages_sel [simp]:
  "a_forks (drop_pages rl f b A) = a_forks A" "fork_entry env (drop_pages rl f b A) rl' f' = fork_entry env A rl' f'"
  "view_ok (drop_pages rl f b A) = view_ok A"
  by (simp_all add: drop_pages_def fork_entry_def view_ok_def)

lemma agree_other_drop_set [simp]: "agree_other rl f A (drop_pages rl f b (set_fork rl f e A))"
  using agree_other_trans [OF agree_other_set_fork agree_other_drop] .

lemma wp_create_body:
  assumes "\<not> mem_use_md env" and "at_view env A s" and "view_ok A" and "a_forks A (fkey rl f) = None \<Longrightarrow> fork_room A" and "e = fork_entry env A rl f"
  shows "wp (pg_bind (mem_get_fork_entry env rl f True) (\<lambda>ptr. require ptr (\<lambda>ptr. pg_bind (fork_deref ptr) (\<lambda>e.
        if exists e \<and> \<not> isRedo then pg_return True
        else pg_bind (fork_update ptr (\<lambda>_. \<lparr>exists = True, on_disk = False, nblocks = 0\<rparr>)) (\<lambda>_.
             pg_bind (mem_remove_pages env rl f 0) (\<lambda>_. pg_return False))))))
      (\<lambda>dup s'. \<exists>B. at_view env B s' \<and> agree_other rl f A B \<and> view_ok B \<and> dup = (exists e \<and> \<not> isRedo) \<and>
         B = (if dup then set_fork rl f e A else new_fork rl f A)) (\<lambda>er s'. failed env rl f A er s' \<and> lookup_error env rl f A er) s"
  unfolding wp_simps
proof (rule wp_get_fork [OF assms(1,2,4)], assumption, goal_cases)
  case (1 s1)
  note s1 = 1 [folded assms(5)]
  have eok: "entry_ok rl e" using view_ok_entry [OF assms(3), of rl env f] assms(5) by simp
  have new: "entry_ok rl \<lparr>exists = True, on_disk = False, nblocks = 0\<rparr>" by (simp add: entry_ok_def)
  show ?case unfolding wp_simps
  proof (rule wp_fork_deref [OF s1 set_fork_simps(2)], cases "exists e \<and> \<not> isRedo", goal_cases)
    case 1
    then show ?case using s1 view_ok_set_fork [OF assms(3) eok] by (simp add: wp_simps)
  next
    case 2
    have "wp (fork_update (fork_home (fkey rl f), fkey rl f) (\<lambda>_. \<lparr>exists = True, on_disk = False, nblocks = 0\<rparr>))
        (\<lambda>_. wp (mem_remove_pages env rl f 0) (\<lambda>_ s'. at_view env (new_fork rl f A) s') E) E s1" for E
      by (rule wp_update_fork [OF s1], rule wp_remove_pages, assumption) (simp add: new_fork_def)
    from this [of "\<lambda>er s'. failed env rl f A er s' \<and> lookup_error env rl f A er"] 2 view_ok_set_fork [OF assms(3) new] show ?case
      by (auto simp: wp_simps new_fork_def elim!: wp_mono)
  qed
next
  case (2 er A' s')
  then show ?case by (rule fork_error_failed)
qed

text \<open>Operations that leave the fork what it was, with the entry filled in.\<close>

definition unchanged :: "'m mem_env \<Rightarrow> RelFileLocatorBackend \<Rightarrow> ForkNumber \<Rightarrow> 'm mem_state \<Rightarrow> 'm mem_state \<Rightarrow> bool" where
  "unchanged env rl f s s' \<longleftrightarrow> kept env rl f s s' \<and> fork_exists env s' rl f = fork_exists env s rl f \<and> fork_pages env s' rl f = fork_pages env s rl f"

definition fork_already_exists :: pg_error where
  "fork_already_exists = Ereport ERROR ERRCODE_DUPLICATE_FILE ''memory relation fork already exists''"

lemma pages_of_set_fork: "e = fork_entry env A rl f \<Longrightarrow> pages_of env (set_fork rl f e A) rl f = pages_of env A rl f"
  using set_fork_view(1) [of e env A rl f] by (simp add: pages_of_def)

lemma wp_memcreate:
  assumes "\<not> mem_use_md env" and "mem_ok env s" and "lock_free rl s" and "fork_room (mem_abs s)"
  shows "wp (memcreate env rl f isRedo)
      (\<lambda>_ s'. kept env rl f s s' \<and> (fork_exists env s rl f \<longrightarrow> isRedo) \<and> fork_exists env s' rl f \<and> fork_pages env s' rl f = [])
      (\<lambda>er s'. kept_error env rl f s er s' \<and> (lookup_error env rl f (mem_abs s) er \<or>
         er = fork_already_exists \<and> fork_exists env s rl f \<and> \<not> isRedo \<and> unchanged env rl f s s')) s"
proof -
  let ?A = "lock_view rl (mem_abs s)" and ?e = "fork_entry env (mem_abs s) rl f"
  let ?R = "\<lambda>dup B. dup = (exists ?e \<and> \<not> isRedo) \<and> B = (if dup then set_fork rl f ?e ?A else new_fork rl f ?A)"
  have body: "wp (pg_bind (mem_get_fork_entry env rl f True) (\<lambda>ptr. require ptr (\<lambda>ptr. pg_bind (fork_deref ptr) (\<lambda>e.
        if exists e \<and> \<not> isRedo then pg_return True
        else pg_bind (fork_update ptr (\<lambda>_. \<lparr>exists = True, on_disk = False, nblocks = 0\<rparr>)) (\<lambda>_.
             pg_bind (mem_remove_pages env rl f 0) (\<lambda>_. pg_return False))))))
      (\<lambda>dup t'. \<exists>B. at_view env B t' \<and> agree_other rl f ?A B \<and> view_ok B \<and> ?R dup B)
      (\<lambda>er t'. failed env rl f ?A er t' \<and> lookup_error env rl f (mem_abs s) er) t" if "at_view env ?A t" "view_ok ?A" for t
    using wp_create_body [OF assms(1) that, of rl f ?e isRedo] assms(4) by simp
  show ?thesis unfolding memcreate_def if_not_P [OF assms(1)] wp_simps
  proof (rule wp_mono [OF wp_locked [OF assms(2,3) body]], assumption, assumption, goal_cases)
    case (1 dup s')
    then obtain B where k: "kept env rl f s s'" and B: "?R dup B" "shows_as env s' B" by blast
    have err: "kept_error env rl f s er s'" for er using k by (simp add: kept_def kept_error_def)
    show ?case
    proof (cases dup)
      case True
      then show ?thesis using B k err pages_of_set_fork [of ?e env ?A rl f]
        by (simp add: wp_simps shows_as_def fork_already_exists_def fork_exists_def fork_pages_def unchanged_def)
    next
      case False
      then show ?thesis using B k by (auto simp: wp_simps shows_as_def new_fork_def fork_exists_def pages_of_def)
    qed
  qed auto
qed

text \<open>Truncating to a length the fork has.\<close>

definition truncated :: "RelFileLocatorBackend \<Rightarrow> ForkNumber \<Rightarrow> MemSmgrForkEntry \<Rightarrow> BlockNumber \<Rightarrow> 'm mem_view \<Rightarrow> 'm mem_view" where
  "truncated rl f e n A = drop_pages rl f n (set_fork rl f \<lparr>exists = True, on_disk = on_disk e, nblocks = n\<rparr> A)"

lemma pages_of_truncated:
  assumes "e = fork_entry env A rl f" and "n \<le> nblocks e"
  shows "pages_of env (truncated rl f e n A) rl f = take (unat n) (pages_of env A rl f)"
proof (rule nth_equalityI)
  have le: "unat n \<le> unat (nblocks e)" using assms(2) by (simp add: word_le_nat_alt)
  show "length (pages_of env (truncated rl f e n A) rl f) = length (take (unat n) (pages_of env A rl f))"
    using le by (simp add: truncated_def assms(1) [symmetric])
  fix i assume "i < length (pages_of env (truncated rl f e n A) rl f)"
  hence i: "i < unat n" by (simp add: truncated_def)
  have "\<not> n \<le> of_nat i" using unat_of_nat_block [OF i] i by (simp add: word_le_nat_alt)
  hence "block_view env (truncated rl f e n A) rl f (of_nat i) = block_view env A rl f (of_nat i)"
    by (simp add: truncated_def block_view_def drop_pages_def mem_build_page_key_def fork_entry_def set_fork_def assms(1))
  with i le show "pages_of env (truncated rl f e n A) rl f ! i = take (unat n) (pages_of env A rl f) ! i"
    by (simp add: nth_pages_of truncated_def assms(1) [symmetric])
qed

lemma wp_truncate_body:
  assumes "\<not> mem_use_md env" and "at_view env A s" and "view_ok A" and "a_forks A (fkey rl f) = None \<Longrightarrow> fork_room A" and "e = fork_entry env A rl f"
  shows "wp (pg_bind (mem_get_fork_entry env rl f True) (\<lambda>ptr. require ptr (\<lambda>ptr.
        pg_bind (fork_update ptr (\<lambda>e. e\<lparr>exists := True, nblocks := n\<rparr>)) (\<lambda>_. mem_remove_pages env rl f n))))
      (\<lambda>_ s'. \<exists>B. at_view env B s' \<and> agree_other rl f A B \<and> view_ok B \<and> B = truncated rl f e n A) (\<lambda>er s'. failed env rl f A er s' \<and> lookup_error env rl f A er) s"
  unfolding wp_simps
proof (rule wp_get_fork [OF assms(1,2,4)], assumption, goal_cases)
  case (1 s1)
  note s1 = 1 [folded assms(5)]
  have eok: "entry_ok rl \<lparr>exists = True, on_disk = on_disk e, nblocks = n\<rparr>"
    using view_ok_entry [OF assms(3), of rl env f] assms(5) by (simp add: entry_ok_def)
  have upd: "e\<lparr>exists := True, nblocks := n\<rparr> = \<lparr>exists = True, on_disk = on_disk e, nblocks = n\<rparr>" by simp
  show ?case unfolding require_def option.case wp_simps
  proof (rule wp_update_fork [OF s1], unfold upd, rule wp_remove_pages, assumption)
    fix s2 assume "at_view env (drop_pages rl f n (set_fork rl f \<lparr>exists = True, on_disk = on_disk e, nblocks = n\<rparr> A)) s2"
    then show "\<exists>B. at_view env B s2 \<and> agree_other rl f A B \<and> view_ok B \<and> B = truncated rl f e n A"
      using view_ok_set_fork [OF assms(3) eok] by (simp add: truncated_def)
  qed
next
  case (2 er A' s')
  then show ?case by (rule fork_error_failed)
qed

lemma wp_memtruncate:
  assumes "\<not> mem_use_md env" and "mem_ok env s" and "lock_free rl s" and "fork_room (mem_abs s)" and "unat n \<le> length (fork_pages env s rl f)"
  shows "wp (memtruncate env rl f cur n)
      (\<lambda>_ s'. kept env rl f s s' \<and> fork_exists env s' rl f \<and> fork_pages env s' rl f = take (unat n) (fork_pages env s rl f))
      (\<lambda>er s'. kept_error env rl f s er s' \<and> lookup_error env rl f (mem_abs s) er) s"
proof -
  let ?A = "lock_view rl (mem_abs s)" and ?e = "fork_entry env (mem_abs s) rl f"
  have body: "wp (pg_bind (mem_get_fork_entry env rl f True) (\<lambda>ptr. require ptr (\<lambda>ptr.
        pg_bind (fork_update ptr (\<lambda>e. e\<lparr>exists := True, nblocks := n\<rparr>)) (\<lambda>_. mem_remove_pages env rl f n))))
      (\<lambda>_ t'. \<exists>B. at_view env B t' \<and> agree_other rl f ?A B \<and> view_ok B \<and> B = truncated rl f ?e n ?A) (\<lambda>er t'. failed env rl f ?A er t' \<and> lookup_error env rl f (mem_abs s) er) t"
    if "at_view env ?A t" "view_ok ?A" for t
    using wp_truncate_body [OF assms(1) that, of rl f ?e n] assms(4) by simp
  have le: "n \<le> nblocks ?e" using assms(5) by (simp add: fork_pages_def word_le_nat_alt)
  show ?thesis unfolding memtruncate_def if_not_P [OF assms(1)]
    by (rule wp_mono [OF wp_locked [OF assms(2,3) body]], assumption, assumption)
      (use pages_of_truncated [of ?e env ?A rl f n] le in \<open>auto simp: shows_as_def fork_pages_def truncated_def\<close>)
qed

text \<open>Zero extension where the fork ends, or inside it.\<close>

lemma pages_of_zeroed:
  assumes "e = fork_entry env A rl f" and "unat blk + n < 2 ^ 31" and "unat blk \<le> unat (nblocks e)"
  shows "pages_of env (set_fork rl f \<lparr>exists = True, on_disk = on_disk e, nblocks = max (nblocks e) (blk + of_int (int n))\<rparr>
      (put_blocks rl f (zero_blocks blk n) A)) rl f = write_pages (unat blk) (replicate n zero_page) (pages_of env A rl f)"
proof -
  have "write_view rl f e blk (replicate n zero_page) A =
      set_fork rl f \<lparr>exists = True, on_disk = on_disk e, nblocks = max (nblocks e) (blk + of_int (int n))\<rparr> (put_blocks rl f (zero_blocks blk n) A)"
    using assms(3) by (simp add: write_view_def write_gap_def zero_blocks_def block_range_def)
  then show ?thesis using pages_of_write [of e env A rl f blk "replicate n zero_page"] assms(1,2) by simp
qed

lemma wp_memzeroextend:
  assumes "\<not> mem_use_md env" and "mem_ok env s" and "lock_free rl s" and "fork_room (mem_abs s)"
    and "unat blk \<le> length (fork_pages env s rl f)" and "unat blk + n < 2 ^ 31"
  shows "wp (memzeroextend env rl f blk (int n) skipFsync)
      (\<lambda>_ s'. kept env rl f s s' \<and> fork_exists env s' rl f \<and> fork_pages env s' rl f = write_pages (unat blk) (replicate n zero_page) (fork_pages env s rl f))
      (\<lambda>er s'. kept_error env rl f s er s' \<and> (lookup_error env rl f (mem_abs s) er \<or> er \<in> {page_table_full, arena_full} \<and> \<not> page_slot (mem_abs s) rl n)) s"
proof -
  let ?A = "lock_view rl (mem_abs s)" and ?e = "fork_entry env (mem_abs s) rl f"
  let ?W = "set_fork rl f \<lparr>exists = True, on_disk = on_disk ?e, nblocks = max (nblocks ?e) (blk + of_int (int n))\<rparr> (put_blocks rl f (zero_blocks blk n) ?A)"
  have body: "wp (mem_zeroextend_locked env rl f blk (int n))
      (\<lambda>_ t'. \<exists>B. at_view env B t' \<and> agree_other rl f ?A B \<and> view_ok B \<and> B = ?W)
      (\<lambda>er t'. failed env rl f ?A er t' \<and> (lookup_error env rl f (mem_abs s) er \<or> er \<in> {page_table_full, arena_full} \<and> \<not> page_slot (mem_abs s) rl n)) t"
    if t: "at_view env ?A t" and vok: "view_ok ?A" for t
  proof -
    have "entry_ok rl ?e" using view_ok_entry [OF vok, of rl env f] by simp
    hence "view_ok ?W" using vok by (intro view_ok_set_fork) (simp_all add: view_ok_def put_blocks_sel entry_ok_def)
    moreover have "agree_other rl f ?A ?W" by (rule agree_other_trans [OF put_blocks_sel(2) agree_other_set_fork])
    ultimately show ?thesis
      by (intro wp_zeroextend_locked [OF assms(1) t, where e = ?e]) (use vok assms(4) op_error_failed op_error_lookup [of env rl f ?A n] in auto)
  qed
  show ?thesis unfolding memzeroextend_def if_not_P [OF assms(1)]
    by (rule wp_mono [OF wp_locked [OF assms(2,3) body]], assumption, assumption)
      (use pages_of_zeroed [of ?e env ?A rl f blk n] assms(5,6) in \<open>auto simp: shows_as_def fork_pages_def\<close>)
qed

section \<open>Size, existence, removal\<close>



lemma shows_as_set_fork:
  assumes "kept env rl f s s'" and "shows_as env s' B" and "B \<in> {A, set_fork rl f (fork_entry env (mem_abs s) rl f) A}" and "A = lock_view rl (mem_abs s)"
  shows "unchanged env rl f s s'"
  using assms pages_of_set_fork [of "fork_entry env (mem_abs s) rl f" env A rl f]
  by (auto simp: unchanged_def shows_as_def fork_exists_def fork_pages_def)

lemma wp_nblocks_body:
  assumes "\<not> mem_use_md env" and "at_view env A s" and "view_ok A" and "a_forks A (fkey rl f) = None \<Longrightarrow> fork_room A" and "e = fork_entry env A rl f"
  shows "wp (mem_nblocks_locked env rl f) (\<lambda>n s'. \<exists>B. at_view env B s' \<and> agree_other rl f A B \<and> view_ok B \<and> n = nblocks e \<and> B = set_fork rl f e A)
      (\<lambda>er s'. failed env rl f A er s' \<and> lookup_error env rl f A er) s"
  by (rule wp_nblocks_locked [OF assms(1,2,4,5,3)], assumption)
    (use view_ok_set_fork [OF assms(3), of rl e f] view_ok_entry [OF assms(3), of rl env f] assms(5) in \<open>auto dest: fork_error_failed\<close>)

lemma wp_nblocks:
  assumes "\<not> mem_use_md env" and "mem_ok env s" and "lock_free rl s" and "fork_room (mem_abs s)"
  shows "wp (with_lock rl (mem_nblocks_locked env rl f)) (\<lambda>n s'. unchanged env rl f s s' \<and> unat n = length (fork_pages env s rl f))
      (\<lambda>er s'. kept_error env rl f s er s' \<and> lookup_error env rl f (mem_abs s) er) s"
proof -
  let ?A = "lock_view rl (mem_abs s)" and ?e = "fork_entry env (mem_abs s) rl f"
  have body: "wp (mem_nblocks_locked env rl f) (\<lambda>n t'. \<exists>B. at_view env B t' \<and> agree_other rl f ?A B \<and> view_ok B \<and> (n = nblocks ?e \<and> B = set_fork rl f ?e ?A))
      (\<lambda>er t'. failed env rl f ?A er t' \<and> lookup_error env rl f (mem_abs s) er) t" if "at_view env ?A t" "view_ok ?A" for t
    using wp_nblocks_body [OF assms(1) that, of rl f ?e] assms(4) by simp
  show ?thesis
    by (rule wp_mono [OF wp_locked [OF assms(2,3) body]], assumption, assumption)
      (auto simp: fork_pages_def intro: shows_as_set_fork)
qed

lemma wp_memmaxcombine:
  assumes "\<not> mem_use_md env" and "mem_ok env s" and "lock_free rl s" and "fork_room (mem_abs s)"
  shows "wp (memmaxcombine env rl f blk) (\<lambda>n s'. unchanged env rl f s s' \<and> 1 \<le> unat n \<and> unat n \<le> MEMSMGR_MAX_COMBINE \<and>
      (unat blk < length (fork_pages env s rl f) \<longrightarrow> unat blk + unat n \<le> length (fork_pages env s rl f)))
      (\<lambda>er s'. kept_error env rl f s er s' \<and> lookup_error env rl f (mem_abs s) er) s"
proof -
  let ?A = "lock_view rl (mem_abs s)" and ?e = "fork_entry env (mem_abs s) rl f"
  let ?n = "if blk \<ge> nblocks ?e then 1 else min (of_nat MEMSMGR_MAX_COMBINE) (nblocks ?e - blk)"
  have n: "1 \<le> unat ?n \<and> unat ?n \<le> MEMSMGR_MAX_COMBINE \<and> (unat blk < unat (nblocks ?e) \<longrightarrow> unat blk + unat ?n \<le> unat (nblocks ?e))"
    by (auto simp: MEMSMGR_MAX_COMBINE_def word_le_nat_alt unat_sub min_def not_le)
  have body: "wp (pg_bind (mem_nblocks_locked env rl f) (\<lambda>blocks.
        if blk \<ge> blocks then pg_return 1 else pg_return (min (of_nat MEMSMGR_MAX_COMBINE) (blocks - blk))))
      (\<lambda>n t'. \<exists>B. at_view env B t' \<and> agree_other rl f ?A B \<and> view_ok B \<and> (n = ?n \<and> B = set_fork rl f ?e ?A))
      (\<lambda>er t'. failed env rl f ?A er t' \<and> lookup_error env rl f (mem_abs s) er) t" if "at_view env ?A t" "view_ok ?A" for t
    unfolding wp_simps
    by (rule wp_mono [OF wp_nblocks_body [OF assms(1) that, of rl f ?e]]) (use assms(4) in \<open>auto simp: wp_simps\<close>)
  show ?thesis unfolding memmaxcombine_def if_not_P [OF assms(1)]
  proof (rule wp_mono [OF wp_locked [OF assms(2,3) body]], assumption, assumption, goal_cases)
    case (1 a s')
    then have "unchanged env rl f s s'" "a = ?n" by (auto intro: shows_as_set_fork)
    with n show ?case by (simp add: fork_pages_def)
  qed simp
qed

lemma seed_exists_active: "\<not> mem_seed_active_for env rl \<Longrightarrow> mem_seed_exists env rl f = Inr False"
  by (simp add: mem_seed_exists_def)

lemma wp_create_backed:
  assumes "at_view env A s" and "a_forks A (fkey rl f) = None" and "fork_room A"
    and "\<And>n s'. r = Inr n \<Longrightarrow> at_view env (set_fork rl f \<lparr>exists = True, on_disk = True, nblocks = n\<rparr> A) s' \<Longrightarrow> Q True s'"
    and "\<And>er B s'. at_view env B s' \<Longrightarrow> B \<in> {A, set_fork rl f \<lparr>exists = True, on_disk = True, nblocks = 0\<rparr> A} \<Longrightarrow>
      er = fork_table_full \<and> \<not> fork_slot A rl \<or> r = Inl er \<Longrightarrow> E er s'"
  shows "wp (mem_create_backed env rl f (pg_lift r)) Q E s"
  unfolding mem_create_backed_def wp_simps
proof (rule wp_create_fork [OF assms(1,3)], goal_cases)
  case (1 s2)
  hence s2: "at_view env (set_fork rl f blank_entry A) s2" using assms(2) by (simp add: set_fork_def)
  show ?case
    by (rule wp_backed [OF s2, of r]) (use assms(4,5) in \<open>auto simp: blank_entry_def\<close>)
next
  case (2 s2)
  then show ?case using assms(5) by blast
qed

lemma wp_exists_body:
  assumes "\<not> mem_use_md env" and "at_view env A s" and "view_ok A" and "a_forks A (fkey rl f) = None \<Longrightarrow> fork_room A" and "e = fork_entry env A rl f"
  shows "wp (pg_bind (mem_lookup_fork_entry env rl f) (\<lambda>entry.
           case entry of
             Some ptr \<Rightarrow> pg_bind (fork_deref ptr) (\<lambda>e. pg_return (exists e))
           | None \<Rightarrow>
               pg_bind (if mem_seed_active_for env rl then pg_lift (mem_seed_exists env rl f) else pg_return False) (\<lambda>seeded.
               if seeded then mem_create_backed env rl f (pg_lift (mem_seed_nblocks env rl f))
               else
                 pg_bind (if \<not> mem_seed_active_for env rl \<and> \<not> mem_key_is_temp rl
                          then md_call (mdexists (md_ops env) rl f) else pg_return False) (\<lambda>on_md.
                 if on_md then mem_create_backed env rl f (md_call (mdnblocks (md_ops env) rl f))
                 else pg_return False))))
      (\<lambda>b s'. \<exists>B. at_view env B s' \<and> agree_other rl f A B \<and> view_ok B \<and> (b = exists e \<and> B \<in> {A, set_fork rl f e A}))
      (\<lambda>er s'. failed env rl f A er s' \<and> lookup_error env rl f A er) s" (is "wp _ ?Q ?E s")
  unfolding wp_simps
proof (rule wp_lookup_fork [OF assms(2)], goal_cases)
  case (1 s1)
  have fail: "failed env rl f A er s1" for er by (rule failed_at [OF 1(1)]) simp_all
  show ?case
  proof (cases "a_forks A (fkey rl f)")
    case (Some e')
    then have "wp (fork_deref (fork_home (fkey rl f), fkey rl f)) (\<lambda>e'. ?Q (exists e')) ?E s1"
      by (intro wp_fork_deref [OF 1(1)]) (use 1(1) assms(3,5) in \<open>auto simp: fork_entry_def\<close>)
    with Some show ?thesis by (simp add: wp_simps)
  next
    case None
    hence e: "e = default_entry env rl f" using assms(5) by (simp add: fork_entry_def)
    have act: "mem_seed_active_for env rl \<longleftrightarrow> \<not> mem_key_is_temp rl" using assms(1) by (simp add: mem_seed_active_for_def mem_use_md_def)
    consider (error) er where "mem_seed_active_for env rl" "mem_seed_exists env rl f = Inl er" | (no) "mem_seed_exists env rl f = Inr False"
      | (yes) "mem_seed_active_for env rl" "mem_seed_exists env rl f = Inr True"
      using seed_exists_active [of env rl f] by (cases "mem_seed_exists env rl f") auto
    then show ?thesis
    proof cases
      case error
      with None fail show ?thesis by (simp add: wp_simps lookup_error_def seed_error_def)
    next
      case no
      hence "?Q False s1" using 1(1) assms(3) by (auto simp: e default_entry_def blank_entry_def)
      with None no act show ?thesis by (simp add: wp_simps)
    next
      case yes
      have dok: "entry_ok rl \<lparr>exists = True, on_disk = True, nblocks = m\<rparr>" for m using yes(1) act by (simp add: entry_ok_def)
      have "wp (mem_create_backed env rl f (pg_lift (mem_seed_nblocks env rl f))) ?Q ?E s1"
      proof (rule wp_create_backed [OF 1(1) None assms(4) [OF None]], goal_cases)
        case (1 n s')
        then show ?case using view_ok_set_fork [OF assms(3) dok] yes(2) by (auto simp: e default_entry_def)
      next
        case (2 er B s')
        then show ?case using failed_at [OF 2(1), of rl f A er] view_ok_set_fork [OF assms(3) dok] None yes(2)
          by (auto simp: lookup_error_def seed_error_def)
      qed
      with None yes show ?thesis by (simp add: wp_simps)
    qed
  qed
qed

lemma wp_memexists:
  assumes "\<not> mem_use_md env" and "mem_ok env s" and "lock_free rl s" and "fork_room (mem_abs s)"
  shows "wp (memexists env rl f) (\<lambda>b s'. unchanged env rl f s s' \<and> b = fork_exists env s rl f)
      (\<lambda>er s'. kept_error env rl f s er s' \<and> lookup_error env rl f (mem_abs s) er) s"
proof -
  let ?A = "lock_view rl (mem_abs s)" and ?e = "fork_entry env (mem_abs s) rl f"
  note body = wp_exists_body [OF assms(1), where A = ?A and e = ?e]
  show ?thesis unfolding memexists_def if_not_P [OF assms(1)]
    by (rule wp_mono [OF wp_locked [OF assms(2,3), where R = "\<lambda>b B. b = exists ?e \<and> B \<in> {?A, set_fork rl f ?e ?A}" and X = "lookup_error env rl f ?A"]],
        rule body, assumption, assumption)
      (use assms(4) in \<open>auto simp: fork_exists_def intro: shows_as_set_fork\<close>)
qed

text \<open>Removing a fork: its entry goes, or says that the seed's fork is gone.\<close>

definition unset_fork :: "RelFileLocatorBackend \<Rightarrow> ForkNumber \<Rightarrow> 'm mem_view \<Rightarrow> 'm mem_view" where
  "unset_fork rl f A = A\<lparr>a_forks := (a_forks A)(fkey rl f := None)\<rparr>"

lemma unset_fork_ok: "view_ok A \<Longrightarrow> view_ok (unset_fork rl f A)" "agree_other rl f A (unset_fork rl f A)"
  "fork_entry env (unset_fork rl f A) rl f = default_entry env rl f"
  by (auto simp: unset_fork_def view_ok_def agree_other_def fork_entry_def)

text \<open>The removed fork comes back when its entry was not marked as the seed's while the seed has it.\<close>

definition comes_back :: "'m mem_env \<Rightarrow> 'm mem_view \<Rightarrow> RelFileLocatorBackend \<Rightarrow> ForkNumber \<Rightarrow> bool" where
  "comes_back env A rl f \<longleftrightarrow> (\<exists>e. a_forks A (fkey rl f) = Some e \<and> \<not> on_disk e) \<and> mem_seed_exists env rl f = Inr True"

definition removed :: "'m mem_env \<Rightarrow> 'm mem_view \<Rightarrow> RelFileLocatorBackend \<Rightarrow> ForkNumber \<Rightarrow> 'm mem_state \<Rightarrow> bool" where
  "removed env A rl f s' \<longleftrightarrow>
     (\<exists>B. at_view env B s' \<and> agree_other rl f A B \<and> view_ok B \<and> exists (fork_entry env B rl f) = comes_back env A rl f)"

lemma wp_tombstone:
  assumes "at_view env (set_fork rl f e A) s" and "\<not> mem_key_is_temp rl" and "\<not> comes_back env A rl f" and "view_ok A"
  shows "wp (fork_update (fork_home (fkey rl f), fkey rl f) (\<lambda>_. \<lparr>exists = False, on_disk = True, nblocks = 0\<rparr>))
      (\<lambda>_. wp (mem_remove_pages env rl f 0) (\<lambda>_. removed env A rl f) E) E s"
proof (rule wp_update_fork [OF assms(1)], rule wp_remove_pages, assumption)
  let ?B = "drop_pages rl f 0 (set_fork rl f \<lparr>exists = False, on_disk = True, nblocks = 0\<rparr> A)"
  fix s3 assume "at_view env ?B s3"
  moreover have "entry_ok rl \<lparr>exists = False, on_disk = True, nblocks = 0\<rparr>" using assms(2) by (simp add: entry_ok_def)
  ultimately show "removed env A rl f s3" using view_ok_set_fork [OF assms(4)] assms(3)
    unfolding removed_def by (intro exI [of _ ?B]) simp
qed

lemma wp_remove_memory_only:
  assumes "at_view env A s" and "ready rl s" and "view_ok A" and "a_forks A (fkey rl f) = Some e" and "\<not> on_disk e"
  shows "wp (fork_search (fork_home (fkey rl f)) (fkey rl f) HASH_REMOVE)
      (\<lambda>_ s. if 0 < nblocks e then wp (mem_remove_pages env rl f 0) (\<lambda>_. removed env A rl f) E s else removed env A rl f s) E s"
proof (rule wp_fork_remove [OF assms(1)], goal_cases)
  case (2 r s2)
  let ?U = "unset_fork rl f A"
  have s2: "at_view env ?U s2" using 2 by (simp add: unset_fork_def)
  have back_iff: "exists (default_entry env rl f) = comes_back env A rl f"
    using assms(4,5) by (simp add: comes_back_def default_entry_def blank_entry_def)
  have "removed env A rl f s2"
    unfolding removed_def by (intro exI [of _ ?U]) (simp add: s2 unset_fork_ok assms(3) back_iff)
  moreover have "wp (mem_remove_pages env rl f 0) (\<lambda>_. removed env A rl f) E s2"
  proof (rule wp_remove_pages [OF s2])
    fix s3 assume "at_view env (drop_pages rl f 0 ?U) s3"
    then show "removed env A rl f s3"
      unfolding removed_def using agree_other_trans [OF unset_fork_ok(2) agree_other_drop]
      by (intro exI [of _ "drop_pages rl f 0 ?U"]) (simp add: unset_fork_ok assms(3) back_iff)
  qed
  ultimately show ?case by simp
qed (use assms(2) in simp)

lemma wp_remove_unknown:
  assumes "at_view env A s" and "ready rl s" and "view_ok A" and "a_forks A (fkey rl f) = None" and "fork_room A" and "\<not> mem_key_is_temp rl"
    and "\<And>s'. failed env rl f A fork_table_full s' \<Longrightarrow> \<not> fork_slot A rl \<Longrightarrow> E fork_table_full s'"
  shows "wp (fork_search (fork_home (fkey rl f)) (fkey rl f) HASH_ENTER_NULL)
      (\<lambda>(entry, _) s. if entry = None then E fork_table_full s
         else wp (fork_update (fork_home (fkey rl f), fkey rl f) (\<lambda>_. \<lparr>exists = False, on_disk = True, nblocks = 0\<rparr>))
           (\<lambda>_. wp (mem_remove_pages env rl f 0) (\<lambda>_. removed env A rl f) E) E s) E s"
proof (rule wp_fork_enter [OF assms(1) _ assms(5)], goal_cases)
  case (2 v s')
  hence "at_view env (set_fork rl f v A) s'" by (simp add: set_fork_def)
  from wp_tombstone [OF this assms(6) _ assms(3)] assms(4) show ?case by (simp add: comes_back_def)
next
  case (3 s')
  then show ?case using assms(7) failed_at [OF 3(1), of rl f A fork_table_full] by simp
qed (use assms(2) in simp)

lemma wp_remove_fork:
  assumes "\<not> mem_use_md env" and "at_view env A s" and "view_ok A" and "a_forks A (fkey rl f) = None \<Longrightarrow> fork_room A"
  shows "wp (mem_remove_fork env rl f) (\<lambda>_. removed env A rl f) (\<lambda>er s'. failed env rl f A er s' \<and> lookup_error env rl f A er) s"
  unfolding mem_remove_fork_def Let_def wp_simps
proof (rule wp_mono [OF wp_fork_hash [OF assms(2), of rl f]], goal_cases)
  case (1 h s1)
  hence h: "h = fork_home (fkey rl f)" and s1: "at_view env A s1" and rd: "ready rl s1" by simp_all
  have act: "mem_seed_active_for env rl \<longleftrightarrow> \<not> mem_key_is_temp rl" using assms(1) by (simp add: mem_seed_active_for_def mem_use_md_def)
  have backing: "mem_backing_exists env rl f = mem_seed_exists env rl f"
    using act seed_exists_active [of env rl f] by (simp add: mem_backing_exists_def)
  note find = wp_fork_find [OF s1, of "fkey rl f"]
  consider (disk) e where "a_forks A (fkey rl f) = Some e" "on_disk e" | (mem) e where "a_forks A (fkey rl f) = Some e" "\<not> on_disk e"
    | (error) er where "a_forks A (fkey rl f) = None" "mem_seed_exists env rl f = Inl er"
    | (no) "a_forks A (fkey rl f) = None" "mem_seed_exists env rl f = Inr False"
    | (yes) "a_forks A (fkey rl f) = None" "mem_seed_exists env rl f = Inr True"
    by (cases "a_forks A (fkey rl f)"; cases "mem_seed_exists env rl f") auto
  then show ?case
  proof cases
    case disk
    have "set_fork rl f e A = A" using disk(1) by (simp add: set_fork_def fun_upd_idem)
    moreover have "\<not> mem_key_is_temp rl" using assms(3) disk by (auto simp: view_ok_def entry_ok_def mem_build_fork_key_def)
    ultimately show ?thesis using wp_tombstone [of env rl f e A s1] s1 disk assms(3) rd unfolding h by (intro find) (simp_all add: wp_simps comes_back_def)
  next
    case mem
    then show ?thesis using wp_remove_memory_only [OF s1 rd assms(3) mem, of "\<lambda>er s'. failed env rl f A er s' \<and> lookup_error env rl f A er"] rd
      unfolding h by (cases "0 < nblocks e"; intro find) (simp_all add: wp_simps)
  next
    case error
    with backing failed_at [OF s1, of rl f A er] rd show ?thesis unfolding h by (intro find) (simp_all add: wp_simps lookup_error_def seed_error_def)
  next
    case no
    hence "removed env A rl f s1" unfolding removed_def
      using s1 assms(3) by (intro exI [of _ A]) (simp add: fork_entry_def default_entry_def blank_entry_def comes_back_def)
    with backing no rd show ?thesis unfolding h by (intro find) (simp_all add: wp_simps)
  next
    case yes
    have nt: "\<not> mem_key_is_temp rl" using yes(2) seed_exists_active [of env rl f] act by auto
    have full: "lookup_error env rl f A fork_table_full" if "\<not> fork_slot A rl" using that yes(1) by (simp add: lookup_error_def)
    from wp_remove_unknown [OF s1 rd assms(3) yes(1) assms(4) [OF yes(1)] nt, of "\<lambda>er s'. failed env rl f A er s' \<and> lookup_error env rl f A er"] full backing yes rd show ?thesis
      unfolding h by (intro find) (auto simp: wp_simps fork_table_full_def elim!: wp_mono split: if_splits)
  qed
qed simp

lemma wp_memunlink:
  assumes "\<not> mem_use_md env" and "mem_ok env s" and "lock_free rl s" and "fork_room (mem_abs s)" and "f \<noteq> InvalidForkNumber"
  shows "wp (memunlink env rl f isRedo) (\<lambda>_ s'. kept env rl f s s' \<and> fork_exists env s' rl f = comes_back env (mem_abs s) rl f)
      (\<lambda>er s'. kept_error env rl f s er s' \<and> lookup_error env rl f (mem_abs s) er) s"
proof -
  let ?A = "lock_view rl (mem_abs s)"
  have body: "wp (mem_remove_fork env rl f) (\<lambda>_ t'. \<exists>B. at_view env B t' \<and> agree_other rl f ?A B \<and> view_ok B \<and>
      exists (fork_entry env B rl f) = comes_back env (mem_abs s) rl f) (\<lambda>er t'. failed env rl f ?A er t' \<and> lookup_error env rl f (mem_abs s) er) t"
    if "at_view env ?A t" "view_ok ?A" for t
    by (rule wp_mono [OF wp_remove_fork [OF assms(1) that, of rl f]]) (use assms(4) in \<open>auto simp: removed_def comes_back_def\<close>)
  have "mem_seed_root env \<noteq> None" using assms(1) by (simp add: mem_use_md_def)
  hence eq: "memunlink env rl f isRedo = with_lock rl (mem_remove_fork env rl f)" using assms(5) by (auto simp: memunlink_def)
  show ?thesis unfolding eq
    by (rule wp_mono [OF wp_locked [OF assms(2,3) body]], assumption, assumption) (auto simp: shows_as_def)
qed

section \<open>A failed read of the seed\<close>

lemma wp_read_one_fails:
  assumes "\<not> mem_use_md env" and "at_view env A s" and "a_forks A (fkey rl f) = Some e" and "entry_ok rl e" and "on_disk e"
    and "a_blocks A (pkey rl f b) = None" and "page_slot A rl 1" and r: "mem_seed_read_block env rl f b zero_page = (Inl er, p)"
  shows "wp (mem_read_one env (fork_home (fkey rl f), fkey rl f) rl f b) (\<lambda>_ _. False)
    (\<lambda>er' s'. er' = er \<and> at_view env (put_block (pkey rl f b) p A) s') s" (is "wp _ ?Q ?E s")
  unfolding mem_read_one_def wp_simps
proof (rule wp_get_page_find [OF assms(2)], goal_cases)
  case (1 s1)
  let ?k = "pkey rl f b"
  have add: "a_blocks (add_page ?k A) ?k = Some zero_page" using assms(6) by (simp add: add_page_def)
  have len: "length p = BLCKSZ" using length_seed_page [of env rl f b] r by (simp add: seed_page_def)
  have "mem_seed_active_for env rl" using assms(1,4,5) by (simp add: mem_use_md_def mem_seed_active_for_def entry_ok_def)
  moreover have "wp (mem_get_page_entry env rl f b True)
      (\<lambda>page. wp (require page (\<lambda>ptr. pg_bind (page_read ptr) (\<lambda>buffer.
            case mem_seed_read_block env rl f b buffer of (r, buffer) \<Rightarrow>
              pg_bind (page_write ptr buffer) (\<lambda>_. pg_bind (pg_lift r) (\<lambda>_. page_read ptr))))) ?Q ?E) ?E s1"
  proof (rule wp_get_page_create [OF 1(1)], goal_cases)
    case (1 s2)
    show ?case unfolding wp_simps
    proof (rule wp_page_read [OF 1 add], unfold r case_prod_conv wp_simps, rule wp_page_write [OF 1 add len], unfold add_page_put, goal_cases)
      case (1 s3)
      then show ?case by simp
    qed
  next
    case (2 er' s2)
    then show ?case using assms(7) by (simp add: page_error_def)
  qed
  ultimately show ?case unfolding assms(6) if_P [OF refl] option.case wp_simps
    by (intro wp_fork_deref [OF 1(1) assms(3)]) (use assms(5) in \<open>simp add: wp_simps\<close>)
qed

lemma wp_readv_fails:
  assumes "\<not> mem_use_md env" and "at_view env A s" and "view_ok A" and "fork_room A" and "\<forall>er. \<not> lookup_error env rl f A er"
    and "e = fork_entry env A rl f" and "on_disk e" and "exists e" and "b < nblocks e"
    and "a_blocks A (pkey rl f b) = None" and "page_slot A rl 1" and r: "mem_seed_read_block env rl f b zero_page = (Inl er, p)"
  shows "wp (mem_readv_locked env rl f b 1) (\<lambda>_ _. False) (\<lambda>er' s'. er' = er \<and> at_view env (put_block (pkey rl f b) p (set_fork rl f e A)) s') s"
  unfolding mem_readv_locked_def wp_simps
proof (rule wp_get_fork [OF assms(1,2,4)], goal_cases)
  case (1 s1)
  note s1 = 1 [folded assms(6)]
  have eok: "entry_ok rl e" using view_ok_entry [OF assms(3), of rl env f] assms(6) by simp
  have slot: "page_slot (set_fork rl f e A) rl 1" using assms(11) by (simp add: page_slot_def)
  have le: "\<not> nblocks e < b + 1" using assms(9) by (simp add: not_less inc_le)
  have one: "block_range b (unat 1) = [b]" by (simp add: block_range_def)
  have "wp (pg_mapM (mem_read_one env (fork_home (fkey rl f), fkey rl f) rl f) [b]) (\<lambda>_ _. False)
      (\<lambda>er' s'. er' = er \<and> at_view env (put_block (pkey rl f b) p (set_fork rl f e A)) s') s1"
    unfolding pg_mapM.simps wp_simps
    by (rule wp_mono [OF wp_read_one_fails [OF assms(1) s1 set_fork_simps(2) eok assms(7) _ slot r]]) (use assms(10) in auto)
  then show ?case unfolding require_def option.case wp_simps one
    by (intro wp_fork_deref [OF s1 set_fork_simps(2)]) (use assms(8) le in \<open>simp add: wp_simps\<close>)
next
  case (2 er A' s')
  then show ?case using assms(5) fork_error_failed [OF 2] by blast
qed

lemma read_after_failed_read:
  assumes "\<not> mem_use_md env" and "mem_ok env s" and "lock_free rl s" and "fork_room (mem_abs s)" and "\<forall>er. \<not> lookup_error env rl f (mem_abs s) er"
    and "e = fork_entry env (mem_abs s) rl f" and "on_disk e" and "exists e" and "b < nblocks e"
    and "a_blocks (mem_abs s) (pkey rl f b) = None" and "page_slot (mem_abs s) rl 1" and "mem_seed_read_block env rl f b zero_page = (Inl er, p)"
  shows "\<exists>s' s''. memreadv env rl f b 1 s = (Inl er, s') \<and> memreadv env rl f b 1 (s'\<lparr>held_locks := []\<rparr>) = (Inr [p], s'')"
proof -
  let ?A = "lock_view rl (mem_abs s)"
  let ?B = "(put_block (pkey rl f b) p (set_fork rl f e ?A))\<lparr>a_locks := []\<rparr>"
  have lb [simp]: "a_blocks (lock_view rl A) = a_blocks A" for A :: "'a mem_view" by (simp add: lock_view_def)
  have vok: "view_ok ?A" using mem_ok_view(2) [OF assms(2)] by simp
  have "wp (with_lock rl (mem_readv_locked env rl f b 1)) (\<lambda>_ _. False) (\<lambda>er' s'. er' = er \<and> at_view env ?B (s'\<lparr>held_locks := []\<rparr>)) s"
  proof (rule wp_with_lock [OF mem_ok_view(1) [OF assms(2)] assms(3)])
    fix t assume t: "at_view env ?A t"
    show "wp (mem_readv_locked env rl f b 1) (\<lambda>a t'. \<exists>B. at_view env B t' \<and> a_locks B = a_locks ?A \<and>
        (\<forall>s'. at_view env (B\<lparr>a_locks := a_locks (mem_abs s)\<rparr>) s' \<longrightarrow> False)) (\<lambda>er' s'. er' = er \<and> at_view env ?B (s'\<lparr>held_locks := []\<rparr>)) t"
      by (rule wp_mono [OF wp_readv_fails [OF assms(1) t vok _ _ _ assms(7-9) _ _ assms(12)]]) (use assms(4-6,10,11) at_view_locks in auto)
  qed
  then obtain s' where s': "memreadv env rl f b 1 s = (Inl er, s')" "at_view env ?B (s'\<lparr>held_locks := []\<rparr>)"
    using assms(1) by (auto simp: wp_cases memreadv_def)
  have "block_range b (unat 1) = [b]" "b + 1 \<le> nblocks e" using assms(9) by (simp_all add: block_range_def inc_le)
  hence "wp (with_lock rl (mem_readv_locked env rl f b 1)) (\<lambda>r _. r = [p]) (\<lambda>_ _. False) (s'\<lparr>held_locks := []\<rparr>)"
    by (intro wp_with_lock [OF s'(2)] wp_mono [OF wp_readv_present [OF assms(1), where e = e and ps = "[p]"]])
      (use assms(8) in \<open>auto simp: lock_free_def lock_view_def\<close>)
  with s'(1) show ?thesis using assms(1) by (auto simp: wp_no_error memreadv_def)
qed

end
