(* ===== verification/MemSmgr_Runs.thy ===== *)
theory MemSmgr_Runs
  imports MemSmgr_Contract
begin

text \<open>
  Sequences of calls of the memory storage manager: the entry points as operations, a step for every
  call that returns and for every call that raises an error and is followed by the abort of the
  transaction, and what all runs keep.
\<close>

datatype mem_op =
    Create bool | Exists | Unlink bool | Extend BlockNumber page | Zeroextend BlockNumber nat
  | Read BlockNumber BlockNumber | Write BlockNumber "page list" | Nblocks | Maxcombine BlockNumber | Truncate BlockNumber BlockNumber

fun run_op :: "'m mem_env \<Rightarrow> RelFileLocatorBackend \<Rightarrow> ForkNumber \<Rightarrow> mem_op \<Rightarrow> ('m mem_state, unit) pg" where
  "run_op env rl f (Create isRedo) = memcreate env rl f isRedo"
| "run_op env rl f Exists = pg_bind (memexists env rl f) (\<lambda>_. pg_return ())"
| "run_op env rl f (Unlink isRedo) = memunlink env rl f isRedo"
| "run_op env rl f (Extend blk p) = memextend env rl f blk p False"
| "run_op env rl f (Zeroextend blk n) = memzeroextend env rl f blk (int n) False"
| "run_op env rl f (Read blk n) = pg_bind (memreadv env rl f blk n) (\<lambda>_. pg_return ())"
| "run_op env rl f (Write blk ps) = memwritev env rl f blk ps False"
| "run_op env rl f Nblocks = pg_bind (memnblocks env rl f) (\<lambda>_. pg_return ())"
| "run_op env rl f (Maxcombine blk) = pg_bind (memmaxcombine env rl f blk) (\<lambda>_. pg_return ())"
| "run_op env rl f (Truncate cur n) = memtruncate env rl f cur n"

text \<open>What the callers see to: whole pages, block numbers in range, extensions that start where the fork ends.\<close>

fun op_ok :: "'m mem_env \<Rightarrow> 'm mem_state \<Rightarrow> RelFileLocatorBackend \<Rightarrow> ForkNumber \<Rightarrow> mem_op \<Rightarrow> bool" where
  "op_ok env s rl f (Extend blk p) \<longleftrightarrow> length p = BLCKSZ \<and> unat blk + 1 < 2 ^ 31"
| "op_ok env s rl f (Zeroextend blk n) \<longleftrightarrow> unat blk \<le> length (fork_pages env s rl f) \<and> unat blk + n < 2 ^ 31"
| "op_ok env s rl f (Read blk n) \<longleftrightarrow> unat blk + unat n < 2 ^ 32"
| "op_ok env s rl f (Write blk ps) \<longleftrightarrow> (\<forall>p \<in> set ps. length p = BLCKSZ) \<and> unat blk + length ps < 2 ^ 31"
| "op_ok env s rl f (Unlink isRedo) \<longleftrightarrow> f \<noteq> InvalidForkNumber"
| "op_ok env s rl f _ \<longleftrightarrow> True"

lemma wp_truncate_any:
  assumes "\<not> mem_use_md env" and "mem_ok env s" and "lock_free rl s" and "fork_room (mem_abs s)"
  shows "wp (memtruncate env rl f cur n) (\<lambda>_ s'. kept env rl f s s') (kept_error env rl f s) s"
proof -
  let ?A = "lock_view rl (mem_abs s)" and ?e = "fork_entry env (mem_abs s) rl f"
  show ?thesis unfolding memtruncate_def if_not_P [OF assms(1)]
    by (rule wp_mono [OF wp_locked [OF assms(2,3), where R = "\<lambda>_ B. B = truncated rl f ?e n ?A"]],
        rule wp_truncate_body [OF assms(1)], assumption, assumption) (use assms(4) in auto)
qed

lemma wp_run_op:
  assumes "\<not> mem_use_md env" and "mem_ok env s" and "lock_free rl s" and "fork_room (mem_abs s)" and "op_ok env s rl f op"
  shows "wp (run_op env rl f op) (\<lambda>_ s'. kept env rl f s s') (kept_error env rl f s) s"
proof (cases op)
  case (Create isRedo)
  then show ?thesis using wp_memcreate [OF assms(1-4), of f isRedo] by (auto elim: wp_mono)
next
  case Exists
  then show ?thesis using wp_memexists [OF assms(1-4), of f] by (auto simp: wp_simps unchanged_def elim: wp_mono)
next
  case (Unlink isRedo)
  then show ?thesis using wp_memunlink [OF assms(1-4), of f isRedo] assms(5) by (auto elim: wp_mono)
next
  case (Extend blk p)
  then show ?thesis
    using wp_memwritev [OF assms(1-4), of "[p]" blk f "kept_error env rl f s"] failed_kept [OF op_error_failed assms(2)] assms(1,5)
    by (auto simp: memextend_def elim: wp_mono)
next
  case (Zeroextend blk n)
  then show ?thesis using wp_memzeroextend [OF assms(1-4), of blk f n False] assms(5) by (auto elim: wp_mono)
next
  case (Read blk n)
  then show ?thesis using wp_memreadv [OF assms(1-4), of blk n f] assms(1,5)
    by (auto simp: wp_simps memreadv_def read_outcome_def elim: wp_mono)
next
  case (Write blk ps)
  then show ?thesis
    using wp_memwritev [OF assms(1-4), of ps blk f "kept_error env rl f s"] failed_kept [OF op_error_failed assms(2)] assms(1,5)
    by (auto simp: memwritev_def elim: wp_mono)
next
  case Nblocks
  then show ?thesis using wp_nblocks [OF assms(1-4), of f] assms(1)
    by (auto simp: wp_simps memnblocks_def unchanged_def elim: wp_mono)
next
  case (Maxcombine blk)
  then show ?thesis using wp_memmaxcombine [OF assms(1-4), of f blk] by (auto simp: wp_simps unchanged_def elim: wp_mono)
next
  case (Truncate cur n)
  then show ?thesis using wp_truncate_any [OF assms(1-4)] by simp
qed

text \<open>
  Steps, labelled with the call and the error it raised, if any. A call that raises an error ends the
  transaction, which gives back the lightweight locks.
\<close>

type_synonym mem_call = "RelFileLocatorBackend \<times> ForkNumber \<times> mem_op"

inductive mem_step :: "'m mem_env \<Rightarrow> 'm mem_state \<Rightarrow> mem_call \<times> pg_error option \<Rightarrow> 'm mem_state \<Rightarrow> bool" for env where
  return: "mem_step env s ((rl, f, op), None) s'"
    if "lock_free rl s" and "fork_room (mem_abs s)" and "op_ok env s rl f op" and "run_op env rl f op s = (Inr (), s')"
| abort: "mem_step env s ((rl, f, op), Some er) (s'\<lparr>held_locks := []\<rparr>)"
    if "lock_free rl s" and "fork_room (mem_abs s)" and "op_ok env s rl f op" and "run_op env rl f op s = (Inl er, s')"

inductive mem_steps :: "'m mem_env \<Rightarrow> 'm mem_state \<Rightarrow> (mem_call \<times> pg_error option) list \<Rightarrow> 'm mem_state \<Rightarrow> bool" for env where
  nil: "mem_steps env s [] s"
| cons: "mem_steps env s (x # xs) u" if "mem_step env s x t" and "mem_steps env t xs u"

inductive_cases mem_steps_nilE: "mem_steps env s [] s'"

definition same_fork :: "'m mem_env \<Rightarrow> RelFileLocatorBackend \<Rightarrow> ForkNumber \<Rightarrow> 'm mem_state \<Rightarrow> 'm mem_state \<Rightarrow> bool" where
  "same_fork env rl f s s' \<longleftrightarrow> fork_exists env s' rl f = fork_exists env s rl f \<and> fork_pages env s' rl f = fork_pages env s rl f"

lemma release_all: "mem_ok env s \<Longrightarrow> mem_ok env (s\<lparr>held_locks := []\<rparr>)" "same_fork env rl f s (s\<lparr>held_locks := []\<rparr>)"
proof -
  show "same_fork env rl f s (s\<lparr>held_locks := []\<rparr>)"
  proof -
    have "forks (s\<lparr>held_locks := []\<rparr>) = forks s" "pages (s\<lparr>held_locks := []\<rparr>) = pages s"
      by (simp_all add: forks_def pages_def family_map_def fun_eq_iff)
    hence "mem_abs (s\<lparr>held_locks := []\<rparr>) = (mem_abs s)\<lparr>a_locks := []\<rparr>" by (simp add: mem_abs_def blocks_def fun_eq_iff)
    then show ?thesis by (simp add: same_fork_def fork_exists_def fork_pages_def)
  qed
  assume "mem_ok env s"
  then show "mem_ok env (s\<lparr>held_locks := []\<rparr>)"
    using at_view_locks [OF mem_ok_view(1), of env s "[]"] mem_ok_view(2) [of env s] by (simp add: mem_ok_def at_view_def)
qed

text \<open>A call that runs out of the arena still leaves all other forks alone, but not the invariant.\<close>

lemma mem_step_keeps:
  assumes "mem_step env s ((rl, f, op), r) s'" and "\<not> mem_use_md env" and "mem_ok env s"
  shows "r \<noteq> Some arena_full \<Longrightarrow> mem_ok env s'" "(rl', f') \<noteq> (rl, f) \<Longrightarrow> same_fork env rl' f' s s'"
proof -
  have "(r \<noteq> Some arena_full \<longrightarrow> mem_ok env s') \<and> ((rl', f') \<noteq> (rl, f) \<longrightarrow> same_fork env rl' f' s s')" for rl' f'
    using assms(1)
  proof (cases rule: mem_step.cases)
    case return
    from wpD [OF wp_run_op [OF assms(2,3) return(2-4)] return(5)] show ?thesis
      by (auto simp: kept_def others_same_def same_fork_def)
  next
    case (abort er t)
    from wp_errorD [OF wp_run_op [OF assms(2,3) abort(3-5)] abort(6)] abort(1) release_all(1) [of env t] release_all(2) [of env rl' f' t] show ?thesis
      by (auto simp: abort(2) kept_error_def others_same_def same_fork_def)
  qed
  then show "r \<noteq> Some arena_full \<Longrightarrow> mem_ok env s'" "(rl', f') \<noteq> (rl, f) \<Longrightarrow> same_fork env rl' f' s s'" by blast+
qed

definition ran_out :: "(mem_call \<times> pg_error option) list \<Rightarrow> bool" where
  "ran_out xs \<longleftrightarrow> xs \<noteq> [] \<and> snd (last xs) = Some arena_full"

lemma mem_steps_keep:
  assumes "mem_steps env s xs s'" and "\<not> mem_use_md env" and "mem_ok env s" and "Some arena_full \<notin> snd ` set (butlast xs)"
  shows "(\<not> ran_out xs \<longrightarrow> mem_ok env s') \<and> (\<forall>rl f. (\<forall>op r. ((rl, f, op), r) \<notin> set xs) \<longrightarrow> same_fork env rl f s s')"
  using assms
proof induction
  case (cons s x t xs u)
  obtain rl f op r where x: "x = ((rl, f, op), r)" by (metis prod_cases3 surj_pair)
  note step = mem_step_keeps [OF cons(1) [unfolded x] cons(4,5)]
  show ?case
  proof (cases "xs = []")
    case True
    hence "u = t" using cons(2) by (auto elim: mem_steps_nilE)
    thus ?thesis using step by (auto simp: True x ran_out_def)
  next
    case False
    hence r: "r \<noteq> Some arena_full" and rest: "Some arena_full \<notin> snd ` set (butlast xs)" using cons(6) by (auto simp: x)
    note IH = cons(3) [OF cons(4) step(1) [OF r] rest]
    show ?thesis
    proof (intro conjI allI impI)
      show "mem_ok env u" if "\<not> ran_out (x # xs)" using IH that False by (simp add: ran_out_def)
      fix rl' f' assume n: "\<forall>op r. ((rl', f', op), r) \<notin> set (x # xs)"
      hence "same_fork env rl' f' s t" by (intro step(2)) (auto simp: x)
      moreover have "same_fork env rl' f' t u" using IH n by simp
      ultimately show "same_fork env rl' f' s u" by (simp add: same_fork_def)
    qed
  qed
qed (simp add: same_fork_def)

end
