(* ===== verification/MemSmgr_Properties.thy ===== *)
theory MemSmgr_Properties
  imports MemSmgr_Runs
begin

text \<open>
  The properties of the memory storage manager, with a concrete state on which each of them is
  applied: the state after start-up, over a seed directory that has one relation of two blocks.
\<close>

section \<open>A concrete state\<close>

definition sample_md :: "unit md_ops" where
  "sample_md = \<lparr>mdinit = pg_return (), mdopen = (\<lambda>_. pg_return ()), mdclose = (\<lambda>_ _. pg_return ()), mdcreate = (\<lambda>_ _ _. pg_return ()),
     mdexists = (\<lambda>_ _. pg_return False), mdunlink = (\<lambda>_ _ _. pg_return ()), mdextend = (\<lambda>_ _ _ _ _. pg_return ()),
     mdzeroextend = (\<lambda>_ _ _ _ _. pg_return ()), mdprefetch = (\<lambda>_ _ _ _. pg_return True), mdmaxcombine = (\<lambda>_ _ _. pg_return 1),
     mdreadv = (\<lambda>_ _ _ _. pg_return []), mdstartreadv = (\<lambda>_ _ _ _. pg_return []), mdwritev = (\<lambda>_ _ _ _ _. pg_return ()),
     mdwriteback = (\<lambda>_ _ _ _. pg_return ()), mdnblocks = (\<lambda>_ _. pg_return 0), mdtruncate = (\<lambda>_ _ _ _. pg_return ()),
     mdimmedsync = (\<lambda>_ _. pg_return ()), mdregistersync = (\<lambda>_ _. pg_return ()), mdfd = (\<lambda>_ _ _. pg_return (- 1, 0))\<rparr>"

text \<open>A seed directory with one file, of two blocks, that cannot be opened.\<close>

definition sample_env :: "unit mem_env" where
  "sample_env = \<lparr>FASTPG_PGDATA_SEED = Some ''/seed'', PG_FASTFORK_SEED_DIR = None, IsUnderPostmaster = True, big_endian = False,
     key_aligned = True, stat_file = (\<lambda>p. if p = ''/seed/base/5/2619'' then Stat_size (2 * BLCKSZ) else Stat_ENOENT),
     read_file = (\<lambda>_ _. Open_failed), nest_level = 1, mmap_fails = False,
     local_fork_alloc = [], local_page_alloc = [], stale_fork = blank_entry, stale_page = \<lparr>page_index = 0\<rparr>, md_ops = sample_md\<rparr>"

definition sample_rl :: RelFileLocatorBackend where
  "sample_rl = \<lparr>spcOid = 1663, dbOid = 5, relNumber = 16384, backend = - 1\<rparr>"

definition sample_mem :: "unit mem_state" where
  "sample_mem = snd (MemSmgrShmemInit sample_env (snd (MemSmgrShmemRequest sample_env (replicate MEMSMGR_SHARED_PARTITIONS ([], [])) (blank_state ()))))"

lemma request_succeeds: "\<exists>s'. MemSmgrShmemRequest env (replicate n ([], [])) s = (Inr (), s')"
proof (induction n arbitrary: s)
  case (Suc n)
  obtain t where "hash_create shared_flags (fork_key_hash env) 28 MEMSMGR_SHARED_FORKS_PER_PARTITION (stale_fork env) [] = Inr t"
    using hash_create_succeeds [of 28 shared_flags "fork_key_hash env" MEMSMGR_SHARED_FORKS_PER_PARTITION "stale_fork env"] by auto
  moreover obtain u where "hash_create shared_flags (page_key_hash env) 28 MEMSMGR_SHARED_PAGES_PER_PARTITION (stale_page env) [] = Inr u"
    using hash_create_succeeds [of 28 shared_flags "page_key_hash env" MEMSMGR_SHARED_PAGES_PER_PARTITION "stale_page env"] by auto
  ultimately show ?case using Suc by simp
qed simp

lemma sample_mem_ok:
  "mem_ok sample_env sample_mem" "forks sample_mem = Map.empty" "blocks sample_mem = Map.empty" "next_page sample_mem = 0" "held_locks sample_mem = []"
proof -
  obtain s1 where s1: "MemSmgrShmemRequest sample_env (replicate MEMSMGR_SHARED_PARTITIONS ([], [])) (blank_state ()) = (Inr (), s1)"
    using request_succeeds by blast
  have "MemSmgrShmemInit sample_env s1 = (Inr (), sample_mem)"
    unfolding sample_mem_def s1 by (simp add: MemSmgrShmemInit_def Let_def sample_env_def)
  note st = startup_ok [OF s1 _ this]
  have local: "\<exists>t. hash_create local_flags (fork_key_hash sample_env) 28 128 (stale_fork sample_env) (local_fork_alloc sample_env) = Inr t"
    "\<exists>t. hash_create local_flags (page_key_hash sample_env) 28 1024 (stale_page sample_env) (local_page_alloc sample_env) = Inr t"
    using hash_create_succeeds [of 28] by (simp_all add: sample_env_def)
  show "mem_ok sample_env sample_mem" "forks sample_mem = Map.empty" "blocks sample_mem = Map.empty" "next_page sample_mem = 0" "held_locks sample_mem = []"
    using st local by simp_all
qed

lemma sample_conditions:
  "\<not> mem_use_md sample_env" "lock_free rl sample_mem" "fork_room (mem_abs sample_mem)"
  "\<not> mem_key_is_temp sample_rl" "mem_seed_exists sample_env sample_rl MAIN_FORKNUM = Inr False"
  "fork_slot (mem_abs sample_mem) sample_rl" "n \<le> 8192 \<Longrightarrow> page_slot (mem_abs sample_mem) sample_rl n"
  using sample_mem_ok
  by (simp_all add: mem_use_md_def mem_seed_root_def sample_env_def lock_free_def fork_room_def mem_abs_def sample_rl_def mem_key_is_temp_def
      INVALID_PROC_NUMBER_def mem_seed_exists_def mem_seed_active_for_def mem_seed_segment_stat_def mem_seed_segment_path_def relpath_def
      GetRelationPath_def GLOBALTABLESPACE_OID_def DEFAULTTABLESPACE_OID_def fmt_oid_def fmt_u.simps digit_eval fork_slot_def page_slot_def
      MEMSMGR_SHARED_FORKS_PER_PARTITION_def MEMSMGR_SHARED_PAGES_PER_PARTITION_def MEMSMGR_SHARED_MAX_FORKS_def
      MEMSMGR_SHARED_MAX_PAGES_def MEMSMGR_SHARED_PARTITIONS_def)

lemma sample_fork: "fork_pages sample_env sample_mem sample_rl MAIN_FORKNUM = []" "\<not> fork_exists sample_env sample_mem sample_rl MAIN_FORKNUM"
  using sample_mem_ok(2) sample_conditions(5)
  by (simp_all add: fork_pages_def pages_of_def fork_exists_def fork_entry_def mem_abs_def default_entry_def blank_entry_def)

lemma sample_write: "\<exists>s'. memwritev sample_env sample_rl MAIN_FORKNUM 2 [zero_page] False sample_mem = (Inr (), s')"
proof -
  have slot: "page_slot (mem_abs sample_mem) sample_rl (write_gap (fork_entry sample_env (mem_abs sample_mem) sample_rl MAIN_FORKNUM) 2 + length [zero_page])"
    by (rule sample_conditions(7)) (simp add: write_gap_def)
  have "wp (with_lock sample_rl (mem_writev_locked sample_env sample_rl MAIN_FORKNUM 2 [zero_page])) (\<lambda>_ _. True) (\<lambda>_ _. False) sample_mem"
    by (rule wp_mono [OF wp_memwritev [OF sample_conditions(1) sample_mem_ok(1) sample_conditions(2,3), where ps = "[zero_page]" and blk = 2 and f = MAIN_FORKNUM and E = "\<lambda>_ _. False"]])
      (use sample_conditions(5,6) slot in \<open>auto simp: op_error_def seed_error_def\<close>)
  then show ?thesis using sample_conditions(1) by (auto simp: wp_no_error memwritev_def)
qed

text \<open>The relation the seed has, whose blocks cannot be read.\<close>

definition seed_rl :: RelFileLocatorBackend where
  "seed_rl = \<lparr>spcOid = 1663, dbOid = 5, relNumber = 2619, backend = - 1\<rparr>"

lemma seed_path: "relpath seed_rl MAIN_FORKNUM = Some ''base/5/2619''"
  by (simp add: relpath_def seed_rl_def GetRelationPath_def GLOBALTABLESPACE_OID_def DEFAULTTABLESPACE_OID_def INVALID_PROC_NUMBER_def
      fmt_oid_def fmt_u.simps digit_eval)

lemma seed_root: "mem_seed_root sample_env = Some ''/seed''"
  by (simp add: mem_seed_root_def sample_env_def)

lemma seed_rl_conditions:
  "\<not> mem_key_is_temp seed_rl" "mem_seed_exists sample_env seed_rl MAIN_FORKNUM = Inr True" "mem_seed_nblocks sample_env seed_rl MAIN_FORKNUM = Inr 2"
  "fork_slot (mem_abs sample_mem) seed_rl" "n \<le> 8192 \<Longrightarrow> page_slot (mem_abs sample_mem) seed_rl n"
proof -
  show nt: "\<not> mem_key_is_temp seed_rl" by (simp add: seed_rl_def mem_key_is_temp_def INVALID_PROC_NUMBER_def)
  have stat: "mem_seed_segment_stat sample_env seed_rl MAIN_FORKNUM 0 = Inr (Some (2 * BLCKSZ))"
    by (simp add: mem_seed_segment_stat_def mem_seed_segment_path_def seed_path seed_root) (simp add: sample_env_def)
  show "mem_seed_exists sample_env seed_rl MAIN_FORKNUM = Inr True"
    using nt by (simp add: mem_seed_exists_def mem_seed_active_for_def seed_root stat)
  show "mem_seed_nblocks sample_env seed_rl MAIN_FORKNUM = Inr 2"
    unfolding mem_seed_nblocks_def by (subst mem_seed_nblocks_loop.simps) (simp add: stat BLCKSZ_def RELSEG_SIZE_def Let_def)
  show "fork_slot (mem_abs sample_mem) seed_rl" "n \<le> 8192 \<Longrightarrow> page_slot (mem_abs sample_mem) seed_rl n"
    using nt sample_mem_ok by (simp_all add: fork_slot_def page_slot_def mem_abs_def
      MEMSMGR_SHARED_FORKS_PER_PARTITION_def MEMSMGR_SHARED_PAGES_PER_PARTITION_def MEMSMGR_SHARED_MAX_FORKS_def
      MEMSMGR_SHARED_MAX_PAGES_def MEMSMGR_SHARED_PARTITIONS_def)
qed

lemma seed_fork: "fork_entry sample_env (mem_abs sample_mem) seed_rl MAIN_FORKNUM = \<lparr>exists = True, on_disk = True, nblocks = 2\<rparr>"
  "\<not> lookup_error sample_env seed_rl MAIN_FORKNUM (mem_abs sample_mem) er"
  using sample_mem_ok(2) seed_rl_conditions(2-4)
  by (simp_all add: fork_entry_def mem_abs_def default_entry_def lookup_error_def seed_error_def)

section \<open>The size of a fork in the seed\<close>

definition last_segment :: "pg_error + nat option \<Rightarrow> nat \<Rightarrow> bool" where
  "last_segment st m \<longleftrightarrow> st = Inr None \<and> m = 0 \<or> st = Inr (Some (m * BLCKSZ)) \<and> m < RELSEG_SIZE"

lemma seed_nblocks_loop:
  assumes "\<forall>i<k. mem_seed_segment_stat env rl f (of_nat (n + i)) = Inr (Some (RELSEG_SIZE * BLCKSZ))"
    and "last_segment (mem_seed_segment_stat env rl f (of_nat (n + k))) m" and "(n + k) * RELSEG_SIZE + m < 2 ^ 32"
  shows "mem_seed_nblocks_loop env rl f (of_nat n) (of_nat (n * RELSEG_SIZE)) = Some (Inr (of_nat ((n + k) * RELSEG_SIZE + m)))"
  using assms
proof (induction k arbitrary: n)
  case 0
  have "n < 2 ^ 32" using 0(3) by (simp add: RELSEG_SIZE_def)
  hence seg: "(of_nat n :: u32) = 0 \<longleftrightarrow> n = 0" by (simp add: word_unat_eq_iff unat_of_nat32)
  from 0(2) consider (none) "mem_seed_segment_stat env rl f (of_nat n) = Inr None" "m = 0"
    | (some) "mem_seed_segment_stat env rl f (of_nat n) = Inr (Some (m * BLCKSZ))" "m < RELSEG_SIZE" by (auto simp: last_segment_def)
  then show ?case
  proof cases
    case none
    then show ?thesis by (subst mem_seed_nblocks_loop.simps) (simp add: seg)
  next
    case some
    have "unat (of_nat m :: u32) = m" using some(2) by (simp add: unat_of_nat32 RELSEG_SIZE_def)
    hence small: "(of_nat m :: u32) < of_nat RELSEG_SIZE" "\<not> of_nat RELSEG_SIZE < (of_nat m :: u32)"
      using some(2) by (simp_all add: word_less_nat_alt RELSEG_SIZE_def)
    have "BLCKSZ > 0" by (simp add: BLCKSZ_def)
    then show ?thesis using some(1) small by (subst mem_seed_nblocks_loop.simps) (simp add: Let_def)
  qed
next
  case (Suc k)
  have first: "mem_seed_segment_stat env rl f (of_nat n) = Inr (Some (RELSEG_SIZE * BLCKSZ))" using Suc(2) by auto
  have "mem_seed_nblocks_loop env rl f (of_nat n) (of_nat (n * RELSEG_SIZE)) =
      mem_seed_nblocks_loop env rl f (of_nat n + 1) (of_nat (n * RELSEG_SIZE) + of_nat RELSEG_SIZE)"
    by (subst mem_seed_nblocks_loop.simps) (simp add: first Let_def BLCKSZ_def)
  also have "\<dots> = mem_seed_nblocks_loop env rl f (of_nat (Suc n)) (of_nat (Suc n * RELSEG_SIZE))" by (simp add: add.commute)
  also have "\<dots> = Some (Inr (of_nat ((Suc n + k) * RELSEG_SIZE + m)))"
  proof (rule Suc(1))
    show "\<forall>i<k. mem_seed_segment_stat env rl f (of_nat (Suc n + i)) = Inr (Some (RELSEG_SIZE * BLCKSZ))"
    proof (intro allI impI)
      fix i assume "i < k"
      with Suc(2) [rule_format, of "Suc i"] show "mem_seed_segment_stat env rl f (of_nat (Suc n + i)) = Inr (Some (RELSEG_SIZE * BLCKSZ))" by simp
    qed
  qed (use Suc(3,4) in simp_all)
  finally show ?case by simp
qed

section \<open>Properties\<close>

text \<open>
  C2: writing blocks. With a seed directory configured, writing pages into a fork changes the fork as
  overwriting a list does: the fork grows to the end of the written range when it was shorter, blocks
  between its old end and the first written block read as zeroes, every other block reads as before.
  No other fork changes, the state stays well formed and the lock is given back. When the write runs
  out of memory or the seed cannot be read, other forks are still untouched.
\<close>

theorem memwritev_list:
  assumes "\<not> mem_use_md env" and "mem_ok env s" and "lock_free rl s" and "fork_room (mem_abs s)"
    and "\<forall>p \<in> set ps. length p = BLCKSZ" and "unat blk + length ps < 2 ^ 31"
  shows "case memwritev env rl f blk ps skipFsync s of
      (Inr _, s') \<Rightarrow> kept env rl f s s' \<and> fork_exists env s' rl f \<and>
        fork_pages env s' rl f = write_pages (unat blk) ps (fork_pages env s rl f)
    | (Inl er, s') \<Rightarrow> kept_error env rl f s er s'"
  using wp_memwritev [OF assms, of f "kept_error env rl f s"] failed_kept [OF op_error_failed assms(2)] assms(1)
  by (auto simp: wp_def memwritev_def split: prod.splits sum.splits)

theorem memwritev_list_witness:
  "\<not> mem_use_md sample_env \<and> mem_ok sample_env sample_mem \<and> lock_free sample_rl sample_mem \<and> fork_room (mem_abs sample_mem) \<and>
   (\<exists>s'. memwritev sample_env sample_rl MAIN_FORKNUM 2 [zero_page] False sample_mem = (Inr (), s') \<and>
     fork_pages sample_env s' sample_rl MAIN_FORKNUM = [zero_page, zero_page, zero_page])"
proof -
  obtain s' where s': "memwritev sample_env sample_rl MAIN_FORKNUM 2 [zero_page] False sample_mem = (Inr (), s')" using sample_write by blast
  have "fork_pages sample_env s' sample_rl MAIN_FORKNUM = write_pages 2 [zero_page] []"
    using memwritev_list [OF sample_conditions(1) sample_mem_ok(1) sample_conditions(2,3), of "[zero_page]" 2 sample_rl MAIN_FORKNUM False]
      sample_fork(1) by (simp add: s')
  with s' show ?thesis using sample_conditions sample_mem_ok(1) by (simp add: write_pages_def numeral_2_eq_2)
qed

text \<open>
  C25: a write that fits succeeds. When partition and arena have room for the written blocks and the
  blocks in between, and the fork has an entry or its partition has room for one and the seed can be
  sized, the write returns.
\<close>

theorem memwritev_succeeds:
  assumes "\<not> mem_use_md env" and "mem_ok env s" and "lock_free rl s" and "fork_room (mem_abs s)"
    and "\<forall>p \<in> set ps. length p = BLCKSZ" and "unat blk + length ps < 2 ^ 31"
    and "page_slot (mem_abs s) rl (unat blk - length (fork_pages env s rl f) + length ps)"
    and "a_forks (mem_abs s) (fkey rl f) = None \<Longrightarrow> fork_slot (mem_abs s) rl \<and> (\<forall>er. \<not> seed_error env rl f er)"
  shows "\<exists>s'. memwritev env rl f blk ps skipFsync s = (Inr (), s')"
proof -
  have "wp (with_lock rl (mem_writev_locked env rl f blk ps)) (\<lambda>_ _. True) (\<lambda>_ _. False) s"
    by (rule wp_mono [OF wp_memwritev [OF assms(1-6), of f "\<lambda>_ _. False"]])
      (use assms(7,8) in \<open>auto simp: op_error_def fork_pages_def write_gap_def\<close>)
  then show ?thesis using assms(1) by (auto simp: wp_no_error memwritev_def)
qed

theorem memwritev_succeeds_witness:
  "page_slot (mem_abs sample_mem) sample_rl 3 \<and> fork_slot (mem_abs sample_mem) sample_rl \<and>
   (\<exists>s'. memwritev sample_env sample_rl MAIN_FORKNUM 2 [zero_page] False sample_mem = (Inr (), s'))"
proof -
  have slot: "page_slot (mem_abs sample_mem) sample_rl 3" by (rule sample_conditions(7)) simp
  have "\<exists>s'. memwritev sample_env sample_rl MAIN_FORKNUM 2 [zero_page] False sample_mem = (Inr (), s')"
    by (rule memwritev_succeeds [OF sample_conditions(1) sample_mem_ok(1) sample_conditions(2,3)])
      (use slot sample_fork(1) sample_conditions(5,6) in \<open>simp_all add: seed_error_def\<close>)
  with slot sample_conditions(6) show ?thesis by blast
qed

text \<open>
  C4: reading blocks. A read returns exactly the pages of the range, only when the whole range lies
  inside an existing fork, and changes neither this fork nor any other; otherwise it raises an error
  and still leaves every other fork alone.
\<close>

theorem memreadv_list:
  assumes "\<not> mem_use_md env" and "mem_ok env s" and "lock_free rl s" and "fork_room (mem_abs s)" and "unat blk + unat n < 2 ^ 32"
  shows "case memreadv env rl f blk n s of
      (Inr ps, s') \<Rightarrow> unchanged env rl f s s' \<and> fork_exists env s rl f \<and> unat blk + unat n \<le> length (fork_pages env s rl f) \<and>
        ps = take (unat n) (drop (unat blk) (fork_pages env s rl f))
    | (Inl er, s') \<Rightarrow> kept_error env rl f s er s'"
  using wp_memreadv [OF assms, of f] assms(1)
  by (auto simp: wp_def memreadv_def read_outcome_def unchanged_def split: prod.splits sum.splits)

theorem memreadv_list_witness:
  "case memreadv sample_env seed_rl MAIN_FORKNUM 1 2 sample_mem of
      (Inr ps, s') \<Rightarrow> False
    | (Inl er, s') \<Rightarrow> kept_error sample_env seed_rl MAIN_FORKNUM sample_mem er s'"
proof -
  have "length (fork_pages sample_env sample_mem seed_rl MAIN_FORKNUM) = 2" by (simp add: fork_pages_def seed_fork(1))
  with memreadv_list [OF sample_conditions(1) sample_mem_ok(1) sample_conditions(2,3), of 1 2 seed_rl MAIN_FORKNUM]
  show ?thesis by (auto split: prod.splits sum.splits)
qed

text \<open>
  C3: what was written is read back: after a write that returned, a read of the same blocks returns
  the written pages.
\<close>

theorem memreadv_after_memwritev:
  assumes "\<not> mem_use_md env" and "mem_ok env s" and "lock_free rl s" and "fork_room (mem_abs s)"
    and "\<forall>p \<in> set ps. length p = BLCKSZ" and "unat blk + length ps < 2 ^ 31"
    and "memwritev env rl f blk ps skipFsync s = (Inr (), s')"
  shows "\<exists>s''. memreadv env rl f blk (of_nat (length ps)) s' = (Inr ps, s'')"
  by (rule read_after_write [OF assms])

theorem memreadv_after_memwritev_witness:
  "\<exists>s' s''. memwritev sample_env sample_rl MAIN_FORKNUM 2 [zero_page] False sample_mem = (Inr (), s') \<and>
     memreadv sample_env sample_rl MAIN_FORKNUM 2 1 s' = (Inr [zero_page], s'')"
proof -
  obtain s' where s': "memwritev sample_env sample_rl MAIN_FORKNUM 2 [zero_page] False sample_mem = (Inr (), s')" using sample_write by blast
  from memreadv_after_memwritev [OF sample_conditions(1) sample_mem_ok(1) sample_conditions(2,3) _ _ s'] s' show ?thesis by simp
qed

text \<open>
  C22: creating a fork. A successful creation leaves an empty fork that exists and touches no other
  fork; creating a fork that exists fails with the duplicate error, without changing it, unless the
  call is a replay, which empties it. The only other errors are those of finding the fork: no room
  for a new entry, or a seed that cannot be sized.
\<close>

theorem memcreate_list:
  assumes "\<not> mem_use_md env" and "mem_ok env s" and "lock_free rl s" and "fork_room (mem_abs s)"
  shows "case memcreate env rl f isRedo s of
      (Inr _, s') \<Rightarrow> kept env rl f s s' \<and> (fork_exists env s rl f \<longrightarrow> isRedo) \<and> fork_exists env s' rl f \<and> fork_pages env s' rl f = []
    | (Inl er, s') \<Rightarrow> kept_error env rl f s er s' \<and> (lookup_error env rl f (mem_abs s) er \<or>
        er = fork_already_exists \<and> fork_exists env s rl f \<and> \<not> isRedo \<and> unchanged env rl f s s')"
  using wp_memcreate [OF assms, of f isRedo] by (auto simp: wp_def split: prod.splits sum.splits)

theorem memcreate_list_witness:
  "(\<exists>s'. memcreate sample_env seed_rl MAIN_FORKNUM False sample_mem = (Inl fork_already_exists, s') \<and>
     unchanged sample_env seed_rl MAIN_FORKNUM sample_mem s') \<and>
   (\<exists>s'. memcreate sample_env sample_rl MAIN_FORKNUM False sample_mem = (Inr (), s') \<and> fork_exists sample_env s' sample_rl MAIN_FORKNUM)"
proof -
  note c = memcreate_list [OF sample_conditions(1) sample_mem_ok(1) sample_conditions(2,3), where f = MAIN_FORKNUM and isRedo = False]
  have "fork_exists sample_env sample_mem seed_rl MAIN_FORKNUM" by (simp add: fork_exists_def seed_fork(1))
  moreover have "\<not> lookup_error sample_env sample_rl MAIN_FORKNUM (mem_abs sample_mem) er" for er
    using sample_conditions(5,6) by (simp add: lookup_error_def seed_error_def)
  ultimately show ?thesis using c [of seed_rl] c [of sample_rl] seed_fork(2) sample_fork(2)
    by (auto split: prod.splits sum.splits)
qed

text \<open>
  C23: truncation. Truncating a fork to a length it has keeps exactly the first blocks, and touches no
  other fork.
\<close>

theorem memtruncate_take:
  assumes "\<not> mem_use_md env" and "mem_ok env s" and "lock_free rl s" and "fork_room (mem_abs s)" and "unat n \<le> length (fork_pages env s rl f)"
  shows "case memtruncate env rl f curnblk n s of
      (Inr _, s') \<Rightarrow> kept env rl f s s' \<and> fork_exists env s' rl f \<and> fork_pages env s' rl f = take (unat n) (fork_pages env s rl f)
    | (Inl er, s') \<Rightarrow> kept_error env rl f s er s' \<and> lookup_error env rl f (mem_abs s) er"
  using wp_memtruncate [OF assms, of curnblk] by (auto simp: wp_def split: prod.splits sum.splits)

theorem memtruncate_take_witness:
  "\<exists>s'. memtruncate sample_env seed_rl MAIN_FORKNUM 2 1 sample_mem = (Inr (), s') \<and>
     length (fork_pages sample_env s' seed_rl MAIN_FORKNUM) = 1"
proof -
  have "length (fork_pages sample_env sample_mem seed_rl MAIN_FORKNUM) = 2" by (simp add: fork_pages_def seed_fork(1))
  with memtruncate_take [OF sample_conditions(1) sample_mem_ok(1) sample_conditions(2,3), of 1 seed_rl MAIN_FORKNUM 2] seed_fork(2)
  show ?thesis by (auto split: prod.splits sum.splits)
qed

text \<open>
  C24: zero extension. Extending a fork where it ends, or inside it, writes zero pages over the range
  and touches no other fork; it fails only for want of memory or of a readable seed.
\<close>

theorem memzeroextend_list:
  assumes "\<not> mem_use_md env" and "mem_ok env s" and "lock_free rl s" and "fork_room (mem_abs s)"
    and "unat blk \<le> length (fork_pages env s rl f)" and "unat blk + n < 2 ^ 31"
  shows "case memzeroextend env rl f blk (int n) skipFsync s of
      (Inr _, s') \<Rightarrow> kept env rl f s s' \<and> fork_exists env s' rl f \<and>
        fork_pages env s' rl f = write_pages (unat blk) (replicate n zero_page) (fork_pages env s rl f)
    | (Inl er, s') \<Rightarrow> kept_error env rl f s er s' \<and>
        (lookup_error env rl f (mem_abs s) er \<or> er \<in> {page_table_full, arena_full} \<and> \<not> page_slot (mem_abs s) rl n)"
  using wp_memzeroextend [OF assms, of skipFsync] by (auto simp: wp_def split: prod.splits sum.splits)

theorem memzeroextend_list_witness:
  "\<exists>s'. memzeroextend sample_env seed_rl MAIN_FORKNUM 2 3 True sample_mem = (Inr (), s') \<and>
     length (fork_pages sample_env s' seed_rl MAIN_FORKNUM) = 5"
proof -
  have l: "length (fork_pages sample_env sample_mem seed_rl MAIN_FORKNUM) = 2" by (simp add: fork_pages_def seed_fork(1))
  have slot: "page_slot (mem_abs sample_mem) seed_rl 3" by (rule seed_rl_conditions(5)) simp
  from memzeroextend_list [OF sample_conditions(1) sample_mem_ok(1) sample_conditions(2,3), of 2 seed_rl MAIN_FORKNUM 3 True] seed_fork(2) l slot
  show ?thesis by (auto split: prod.splits sum.splits)
qed

text \<open>
  C21: removal. After a fork was removed it exists exactly when its entry was not marked as a fork of
  the seed while the seed has a file for it: a fork of the seed that was removed, created anew and
  removed again is back with the seed's contents. Otherwise the fork is gone; other forks never
  change.
\<close>

theorem memunlink_gone:
  assumes "\<not> mem_use_md env" and "mem_ok env s" and "lock_free rl s" and "fork_room (mem_abs s)" and "f \<noteq> InvalidForkNumber"
  shows "case memunlink env rl f isRedo s of
      (Inr _, s') \<Rightarrow> kept env rl f s s' \<and> (fork_exists env s' rl f \<longleftrightarrow>
        (\<exists>e. a_forks (mem_abs s) (fkey rl f) = Some e \<and> \<not> on_disk e) \<and> mem_seed_exists env rl f = Inr True)
    | (Inl er, s') \<Rightarrow> kept_error env rl f s er s' \<and> lookup_error env rl f (mem_abs s) er"
  using wp_memunlink [OF assms, of isRedo] by (auto simp: wp_def comes_back_def split: prod.splits sum.splits)

theorem memunlink_gone_witness:
  "fork_exists sample_env sample_mem seed_rl MAIN_FORKNUM \<and>
   (\<exists>s'. memunlink sample_env seed_rl MAIN_FORKNUM False sample_mem = (Inr (), s') \<and> \<not> fork_exists sample_env s' seed_rl MAIN_FORKNUM)"
proof -
  have "a_forks (mem_abs sample_mem) (fkey seed_rl MAIN_FORKNUM) = None" using sample_mem_ok(2) by (simp add: mem_abs_def)
  with memunlink_gone [OF sample_conditions(1) sample_mem_ok(1) sample_conditions(2,3), of MAIN_FORKNUM seed_rl False] seed_fork
  show ?thesis by (auto simp: fork_exists_def split: prod.splits sum.splits)
qed

text \<open>
  C27: the bound given to the caller of a combined read: between one and the constant maximum, and
  from a block inside the fork never past its end; asking changes nothing.
\<close>

theorem memmaxcombine_bound:
  assumes "\<not> mem_use_md env" and "mem_ok env s" and "lock_free rl s" and "fork_room (mem_abs s)"
  shows "case memmaxcombine env rl f blk s of
      (Inr n, s') \<Rightarrow> unchanged env rl f s s' \<and> 1 \<le> unat n \<and> unat n \<le> MEMSMGR_MAX_COMBINE \<and>
        (unat blk < length (fork_pages env s rl f) \<longrightarrow> unat blk + unat n \<le> length (fork_pages env s rl f))
    | (Inl er, s') \<Rightarrow> kept_error env rl f s er s' \<and> lookup_error env rl f (mem_abs s) er"
  using wp_memmaxcombine [OF assms, of f blk] by (auto simp: wp_def split: prod.splits sum.splits)

theorem memmaxcombine_bound_witness:
  "\<exists>n s'. memmaxcombine sample_env seed_rl MAIN_FORKNUM 0 sample_mem = (Inr n, s') \<and> 1 \<le> unat n \<and> unat n \<le> 2"
proof -
  have "length (fork_pages sample_env sample_mem seed_rl MAIN_FORKNUM) = 2" by (simp add: fork_pages_def seed_fork(1))
  with memmaxcombine_bound [OF sample_conditions(1) sample_mem_ok(1) sample_conditions(2,3), of seed_rl MAIN_FORKNUM 0] seed_fork(2)
  show ?thesis by (auto split: prod.splits sum.splits)
qed

text \<open>
  C28: existence and size. The two questions about a fork are answered from its list of pages and
  change nothing a caller can see, although they fill in the entry of a fork of the seed.
\<close>

theorem memexists_memnblocks:
  assumes "\<not> mem_use_md env" and "mem_ok env s" and "lock_free rl s" and "fork_room (mem_abs s)"
  shows "(case memexists env rl f s of
      (Inr b, s') \<Rightarrow> unchanged env rl f s s' \<and> b = fork_exists env s rl f
    | (Inl er, s') \<Rightarrow> kept_error env rl f s er s' \<and> lookup_error env rl f (mem_abs s) er) \<and>
    (case memnblocks env rl f s of
      (Inr n, s') \<Rightarrow> unchanged env rl f s s' \<and> unat n = length (fork_pages env s rl f)
    | (Inl er, s') \<Rightarrow> kept_error env rl f s er s' \<and> lookup_error env rl f (mem_abs s) er)"
  using wp_memexists [OF assms, of f] wp_nblocks [OF assms, of f] assms(1)
  by (auto simp: wp_def memnblocks_def split: prod.splits sum.splits)

theorem memexists_memnblocks_witness:
  "(\<exists>s'. memexists sample_env seed_rl MAIN_FORKNUM sample_mem = (Inr True, s')) \<and>
   (\<exists>s'. memnblocks sample_env seed_rl MAIN_FORKNUM sample_mem = (Inr 2, s'))"
proof -
  have l: "length (fork_pages sample_env sample_mem seed_rl MAIN_FORKNUM) = 2" "fork_exists sample_env sample_mem seed_rl MAIN_FORKNUM"
    by (simp_all add: fork_pages_def fork_exists_def seed_fork(1))
  have two: "unat n = 2 \<longleftrightarrow> n = 2" for n :: u32 by (simp add: word_unat_eq_iff)
  note q = memexists_memnblocks [OF sample_conditions(1) sample_mem_ok(1) sample_conditions(2,3), of seed_rl MAIN_FORKNUM]
  show ?thesis using q seed_fork(2) l two by (auto split: prod.splits sum.splits)
qed

text \<open>
  C1: runs. From a well-formed state, take any sequence of calls on any forks, each returning or ending its
  transaction with an error, up to and including the first call that raises the error that the page
  arena is full. A fork that no call of the sequence names has exactly the pages it had, also when the
  last call ran out of the arena. The state reached is well formed unless it did: that error leaves
  a page entry without a page of its own, and nothing is said of calls after it. Each call respects
  what the callers see to: whole pages, block numbers in range, zero extension from inside the fork or
  its end, removal of one fork, the partition's lock not yet held; and there are fewer than
  \<open>2 ^ 32 - 1\<close> private forks.
\<close>

theorem mem_steps_invariant:
  assumes "mem_steps env s xs s'" and "\<not> mem_use_md env" and "mem_ok env s" and "Some arena_full \<notin> snd ` set (butlast xs)"
  shows "(\<not> ran_out xs \<longrightarrow> mem_ok env s') \<and> (\<forall>rl f. (\<forall>op r. ((rl, f, op), r) \<notin> set xs) \<longrightarrow>
    fork_exists env s' rl f = fork_exists env s rl f \<and> fork_pages env s' rl f = fork_pages env s rl f)"
  using mem_steps_keep [OF assms] by (simp add: same_fork_def)

theorem mem_steps_invariant_witness:
  "\<exists>s'. mem_steps sample_env sample_mem [((sample_rl, MAIN_FORKNUM, Write 2 [zero_page]), None)] s' \<and> mem_ok sample_env s' \<and>
     length (fork_pages sample_env s' seed_rl MAIN_FORKNUM) = 2"
proof -
  obtain s' where s': "memwritev sample_env sample_rl MAIN_FORKNUM 2 [zero_page] False sample_mem = (Inr (), s')" using sample_write by blast
  have steps: "mem_steps sample_env sample_mem [((sample_rl, MAIN_FORKNUM, Write 2 [zero_page]), None)] s'"
    by (rule mem_steps.cons [OF mem_step.return mem_steps.nil]) (use sample_conditions s' in simp_all)
  have "length (fork_pages sample_env sample_mem seed_rl MAIN_FORKNUM) = 2" by (simp add: fork_pages_def seed_fork(1))
  moreover have "seed_rl \<noteq> sample_rl" by (simp add: seed_rl_def sample_rl_def)
  ultimately show ?thesis using mem_steps_invariant [OF steps sample_conditions(1) sample_mem_ok(1)] steps by (auto simp: ran_out_def)
qed

text \<open>
  C26: a failed read of the seed is forgotten. When the first read of a block of a seed fork fails,
  the page entry made for it stays, so that the next read of the same block returns the page as the
  failed read left it, without an error.
\<close>

theorem memreadv_after_failure:
  assumes "\<not> mem_use_md env" and "mem_ok env s" and "lock_free rl s" and "fork_room (mem_abs s)" and "\<forall>er. \<not> lookup_error env rl f (mem_abs s) er"
    and "on_disk (fork_entry env (mem_abs s) rl f)" and "exists (fork_entry env (mem_abs s) rl f)" and "b < nblocks (fork_entry env (mem_abs s) rl f)"
    and "a_blocks (mem_abs s) (pkey rl f b) = None" and "page_slot (mem_abs s) rl 1" and "mem_seed_read_block env rl f b zero_page = (Inl er, p)"
  shows "\<exists>s' s''. memreadv env rl f b 1 s = (Inl er, s') \<and> memreadv env rl f b 1 (s'\<lparr>held_locks := []\<rparr>) = (Inr [p], s'')"
  by (rule read_after_failed_read [OF assms(1-5) refl assms(6-11)])

theorem memreadv_after_failure_witness:
  "\<exists>er s' s''. memreadv sample_env seed_rl MAIN_FORKNUM 0 1 sample_mem = (Inl er, s') \<and>
     memreadv sample_env seed_rl MAIN_FORKNUM 0 1 (s'\<lparr>held_locks := []\<rparr>) = (Inr [zero_page], s'')"
proof -
  have "mem_seed_read_block sample_env seed_rl MAIN_FORKNUM 0 zero_page =
      (Inl (Ereport ERROR ERRCODE_FILE_ACCESS ''could not open fast-fork seed relation segment''), zero_page)"
    by (simp add: mem_seed_read_block_def mem_seed_segment_path_def seed_path seed_root) (simp add: sample_env_def)
  from memreadv_after_failure [OF sample_conditions(1) sample_mem_ok(1) sample_conditions(2,3) _ _ _ _ _ _ this]
  show ?thesis using seed_fork seed_rl_conditions(5) [of 1] sample_mem_ok(3) by (auto simp: mem_abs_def)
qed

text \<open>
  C29: the loop that sizes a fork of the seed ends and gives the sum of its segments, when the
  segments before the last are full, the last is short or missing, and the fork is within the range
  of block numbers.
\<close>

theorem mem_seed_nblocks_sum:
  assumes "\<forall>i<k. mem_seed_segment_stat env rl f (of_nat i) = Inr (Some (RELSEG_SIZE * BLCKSZ))"
    and "last_segment (mem_seed_segment_stat env rl f (of_nat k)) m" and "k * RELSEG_SIZE + m < 2 ^ 32"
  shows "mem_seed_nblocks env rl f = Inr (of_nat (k * RELSEG_SIZE + m))"
  using seed_nblocks_loop [of k env rl f 0 m] assms by (simp add: mem_seed_nblocks_def)

theorem mem_seed_nblocks_sum_witness: "mem_seed_nblocks sample_env seed_rl MAIN_FORKNUM = Inr 2"
proof -
  have "last_segment (mem_seed_segment_stat sample_env seed_rl MAIN_FORKNUM (of_nat 0)) 2"
    by (simp add: last_segment_def mem_seed_segment_stat_def mem_seed_segment_path_def seed_path seed_root) (simp add: sample_env_def RELSEG_SIZE_def)
  from mem_seed_nblocks_sum [OF _ this] show ?thesis by simp
qed

text \<open>
  C30: start-up. When the shared tables could be allocated and the arena mapped, the storage manager
  starts in a well-formed state without forks, blocks or held locks.
\<close>

theorem MemSmgrShmemInit_ok:
  assumes "MemSmgrShmemRequest env allocs (blank_state m) = (Inr (), s1)" and "length allocs = MEMSMGR_SHARED_PARTITIONS"
    and "MemSmgrShmemInit env s1 = (Inr (), s)"
    and "\<exists>t. hash_create local_flags (fork_key_hash env) 28 128 (stale_fork env) (local_fork_alloc env) = Inr t"
    and "\<exists>t. hash_create local_flags (page_key_hash env) 28 1024 (stale_page env) (local_page_alloc env) = Inr t"
  shows "mem_ok env s \<and> forks s = Map.empty \<and> blocks s = Map.empty \<and> next_page s = 0 \<and> held_locks s = []"
  using startup_ok [OF assms] by blast

theorem MemSmgrShmemInit_ok_witness: "mem_ok sample_env sample_mem \<and> forks sample_mem = Map.empty"
proof -
  obtain s1 where s1: "MemSmgrShmemRequest sample_env (replicate MEMSMGR_SHARED_PARTITIONS ([], [])) (blank_state ()) = (Inr (), s1)"
    using request_succeeds by blast
  have s: "MemSmgrShmemInit sample_env s1 = (Inr (), sample_mem)"
    unfolding sample_mem_def s1 by (simp add: MemSmgrShmemInit_def Let_def sample_env_def)
  have "\<exists>t. hash_create local_flags (fork_key_hash sample_env) 28 128 (stale_fork sample_env) (local_fork_alloc sample_env) = Inr t"
    "\<exists>t. hash_create local_flags (page_key_hash sample_env) 28 1024 (stale_page sample_env) (local_page_alloc sample_env) = Inr t"
    using hash_create_succeeds [of 28] by (simp_all add: sample_env_def)
  from MemSmgrShmemInit_ok [OF s1 _ s this] show ?thesis by simp
qed

end
