(* ===== verification/Storage2_Page.thy ===== *)
theory Storage2_Page
  imports Prelude "HOL-Library.Log_Nat"
begin

text \<open>
  Pages of the table storage of src/crates/fastpg-storage2: tid.rs and page.rs. A page is a block of
  bytes that tuples are appended to, with a line pointer for each of them that says where the tuple
  lies and whether it is pending, live or dead. A Rust \<^verbatim>\<open>usize\<close> is a natural number; saturating
  and checked arithmetic have the limit written out. A method that changes its page returns the page.
  The lemmas show that a page is a map from offsets to tuples with their states, that the byte
  counters are the sums they stand for, and that tuples never overlap.
\<close>

section \<open>Tuple identifiers\<close>

record Tid =
  tid_block :: u32
  tid_offset :: u16

text \<open>The derived order: by block, then by offset.\<close>

instantiation Tid_ext :: (linorder) linorder
begin

definition less_eq_Tid_ext :: "'a Tid_ext \<Rightarrow> 'a Tid_ext \<Rightarrow> bool" where
  "less_eq_Tid_ext a b \<longleftrightarrow> tid_block a < tid_block b \<or> tid_block a = tid_block b \<and>
     (tid_offset a < tid_offset b \<or> tid_offset a = tid_offset b \<and> Tid.more a \<le> Tid.more b)"

definition less_Tid_ext :: "'a Tid_ext \<Rightarrow> 'a Tid_ext \<Rightarrow> bool" where
  "less_Tid_ext a b \<longleftrightarrow> a \<le> b \<and> \<not> b \<le> a"

instance
  by standard (auto simp: less_eq_Tid_ext_def less_Tid_ext_def intro: Tid.equality)

end

definition Tid_pack :: "Tid \<Rightarrow> u64" where
  "Tid_pack tid = push_bit 16 (ucast (tid_block tid)) OR ucast (tid_offset tid)"

definition Tid_unpack :: "u64 \<Rightarrow> Tid option" where
  "Tid_unpack value =
     (let offset = ucast (value AND 0xffff) in
      if offset = 0 then None
      else Some \<lparr>tid_block = ucast (drop_bit 16 value), tid_offset = offset\<rparr>)"

section \<open>Arithmetic on \<^verbatim>\<open>usize\<close>\<close>

definition usize_max :: nat where "usize_max = 2 ^ 64 - 1"

definition saturating_add :: "nat \<Rightarrow> nat \<Rightarrow> nat" where
  "saturating_add a b = min (a + b) usize_max"

text \<open>Subtraction on \<open>nat\<close> saturates as \<^verbatim>\<open>saturating_sub\<close> does.\<close>

definition checked_add :: "nat \<Rightarrow> nat \<Rightarrow> nat option" where
  "checked_add a b = (if a + b \<le> usize_max then Some (a + b) else None)"

definition next_multiple_of :: "nat \<Rightarrow> nat \<Rightarrow> nat" where
  "next_multiple_of n k = (if n mod k = 0 then n else n + (k - n mod k))"

text \<open>Rust shifts out the leading zeros of \<open>n - 1\<close>; slices are shorter than \<open>2 ^ 63\<close>.\<close>

definition next_power_of_two :: "nat \<Rightarrow> nat" where
  "next_power_of_two n = 2 ^ floorlog 2 (n - 1)"

section \<open>Pages\<close>

definition PAGE_SIZE :: nat where "PAGE_SIZE = 8192"
definition MAX_CTID_OFFSET :: nat where "MAX_CTID_OFFSET = 2047"
definition DATUM_ALIGNMENT :: nat where "DATUM_ALIGNMENT = 8"

datatype LinePointerState = Pending | Live | Dead

record LinePointer =
  lp_offset :: u32
  lp_len :: u32
  lp_state :: LinePointerState
  lp_xmin :: u32
  lp_cmin :: u32
  lp_xmax :: u32

record Page =
  pg_block :: u32
  pg_epoch :: u64
  pg_generation :: u64
  pg_bytes :: "u8 list"
  pg_used :: nat
  pg_lines :: "LinePointer list"
  pg_pending_bytes :: nat
  pg_live_bytes :: nat
  pg_dead_bytes :: nat

record PageCheckpoint =
  pc_used :: nat
  pc_line_count :: nat
  pc_line_states :: "LinePointerState list"
  pc_pending_bytes :: nat
  pc_live_bytes :: nat
  pc_dead_bytes :: nat

definition Page_new :: "u32 \<Rightarrow> u64 \<Rightarrow> u64 \<Rightarrow> nat \<Rightarrow> Page" where
  "Page_new block epoch generation min_capacity =
     (let capacity = max PAGE_SIZE (next_power_of_two min_capacity) in
      \<lparr>pg_block = block, pg_epoch = epoch, pg_generation = generation, pg_bytes = replicate capacity 0, pg_used = 0,
       pg_lines = [], pg_pending_bytes = 0, pg_live_bytes = 0, pg_dead_bytes = 0\<rparr>)"

definition Page_aligned_used :: "Page \<Rightarrow> nat" where
  "Page_aligned_used p = next_multiple_of (pg_used p) DATUM_ALIGNMENT"

definition Page_remaining :: "Page \<Rightarrow> nat" where
  "Page_remaining p = length (pg_bytes p) - Page_aligned_used p"

definition Page_can_fit :: "Page \<Rightarrow> nat \<Rightarrow> bool" where
  "Page_can_fit p tuple_len \<longleftrightarrow> tuple_len \<le> Page_remaining p \<and> length (pg_lines p) < MAX_CTID_OFFSET"

text \<open>The three byte counters, by state.\<close>

fun count_bytes :: "LinePointerState \<Rightarrow> (nat \<Rightarrow> nat) \<Rightarrow> Page \<Rightarrow> Page" where
  "count_bytes Pending f p = p\<lparr>pg_pending_bytes := f (pg_pending_bytes p)\<rparr>"
| "count_bytes Live f p = p\<lparr>pg_live_bytes := f (pg_live_bytes p)\<rparr>"
| "count_bytes Dead f p = p\<lparr>pg_dead_bytes := f (pg_dead_bytes p)\<rparr>"

text \<open>The conversions of offset and length fail after the bytes were copied.\<close>

definition Page_append_tuple_with_state :: "u8 list \<Rightarrow> LinePointerState \<Rightarrow> Page \<Rightarrow> Tid option \<times> Page" where
  "Page_append_tuple_with_state tuple state p =
     (if length tuple > Page_remaining p \<or> length (pg_lines p) \<ge> MAX_CTID_OFFSET then (None, p)
      else
        let offset = Page_aligned_used p in
        case checked_add offset (length tuple) of
          None \<Rightarrow> (None, p)
        | Some end' \<Rightarrow>
            if end' > length (pg_bytes p) then (None, p)
            else
              let p = p\<lparr>pg_bytes := take offset (pg_bytes p) @ tuple @ drop end' (pg_bytes p), pg_used := end'\<rparr> in
              if offset \<ge> 2 ^ 32 \<or> length tuple \<ge> 2 ^ 32 then (None, p)
              else
                let p = p\<lparr>pg_lines := pg_lines p @ [\<lparr>lp_offset = of_nat offset, lp_len = of_nat (length tuple), lp_state = state,
                           lp_xmin = 0, lp_cmin = 0, lp_xmax = 0\<rparr>]\<rparr>;
                    p = count_bytes state (\<lambda>n. saturating_add n (length tuple)) p
                in if length (pg_lines p) \<ge> 2 ^ 16 then (None, p)
                   else (Some \<lparr>tid_block = pg_block p, tid_offset = of_nat (length (pg_lines p))\<rparr>, p))"

text \<open>\<^verbatim>\<open>checked_sub(1)\<close> and the index into a vector.\<close>

definition line_index :: "u16 \<Rightarrow> nat option" where
  "line_index offset = (if offset = 0 then None else Some (unat offset - 1))"

definition vec_get :: "'a list \<Rightarrow> nat \<Rightarrow> 'a option" where
  "vec_get xs i = (if i < length xs then Some (xs ! i) else None)"

definition Page_line :: "u16 \<Rightarrow> Page \<Rightarrow> LinePointer option" where
  "Page_line offset p = (case line_index offset of None \<Rightarrow> None | Some i \<Rightarrow> vec_get (pg_lines p) i)"

definition line_bytes :: "u8 list \<Rightarrow> LinePointer \<Rightarrow> u8 list option" where
  "line_bytes bytes line =
     (let start = unat (lp_offset line) in
      case checked_add start (unat (lp_len line)) of
        None \<Rightarrow> None
      | Some end' \<Rightarrow> if end' \<le> length bytes then Some (take (end' - start) (drop start bytes)) else None)"

definition Page_tuple_slice :: "u16 \<Rightarrow> bool \<Rightarrow> Page \<Rightarrow> u8 list option" where
  "Page_tuple_slice offset include_pending p =
     (case Page_line offset p of
        None \<Rightarrow> None
      | Some line \<Rightarrow>
          if lp_state line = Dead \<or> (lp_state line = Pending \<and> \<not> include_pending) then None
          else line_bytes (pg_bytes p) line)"

definition Page_tuple_slice_any :: "u16 \<Rightarrow> Page \<Rightarrow> u8 list option" where
  "Page_tuple_slice_any offset p =
     (case Page_line offset p of None \<Rightarrow> None | Some line \<Rightarrow> line_bytes (pg_bytes p) line)"

definition set_line :: "u16 \<Rightarrow> (LinePointer \<Rightarrow> LinePointer) \<Rightarrow> Page \<Rightarrow> Page" where
  "set_line offset f p =
     (case line_index offset of
        None \<Rightarrow> p
      | Some i \<Rightarrow> if i < length (pg_lines p) then p\<lparr>pg_lines := (pg_lines p)[i := f (pg_lines p ! i)]\<rparr> else p)"

definition Page_mark_dead :: "u16 \<Rightarrow> Page \<Rightarrow> bool \<times> Page" where
  "Page_mark_dead offset p =
     (case Page_line offset p of
        None \<Rightarrow> (False, p)
      | Some line \<Rightarrow>
          if lp_state line = Dead then (False, p)
          else
            let p = set_line offset (\<lambda>l. l\<lparr>lp_state := Dead\<rparr>) p;
                len = unat (lp_len line);
                p = count_bytes (lp_state line) (\<lambda>n. n - len) p
            in (True, count_bytes Dead (\<lambda>n. saturating_add n len) p))"

definition Page_mark_live :: "u16 \<Rightarrow> Page \<Rightarrow> bool \<times> Page" where
  "Page_mark_live offset p =
     (case Page_line offset p of
        None \<Rightarrow> (False, p)
      | Some line \<Rightarrow>
          if lp_state line \<noteq> Pending then (False, p)
          else
            let p = set_line offset (\<lambda>l. l\<lparr>lp_state := Live\<rparr>) p;
                len = unat (lp_len line);
                p = count_bytes Pending (\<lambda>n. n - len) p
            in (True, count_bytes Live (\<lambda>n. saturating_add n len) p))"

definition Page_checkpoint :: "Page \<Rightarrow> PageCheckpoint" where
  "Page_checkpoint p = \<lparr>pc_used = pg_used p, pc_line_count = length (pg_lines p), pc_line_states = [],
     pc_pending_bytes = pg_pending_bytes p, pc_live_bytes = pg_live_bytes p, pc_dead_bytes = pg_dead_bytes p\<rparr>"

definition Page_recompute_tuple_bytes :: "Page \<Rightarrow> Page" where
  "Page_recompute_tuple_bytes p =
     fold (\<lambda>line. count_bytes (lp_state line) (\<lambda>n. saturating_add n (unat (lp_len line)))) (pg_lines p)
       (p\<lparr>pg_pending_bytes := 0, pg_live_bytes := 0, pg_dead_bytes := 0\<rparr>)"

definition Page_restore_to_preserving_tid_space :: "PageCheckpoint \<Rightarrow> Page \<Rightarrow> Page" where
  "Page_restore_to_preserving_tid_space checkpoint p =
     (let n = min (pc_line_count checkpoint) (length (pg_lines p));
          old = take n (pg_lines p);
          old = (if pc_line_states checkpoint \<noteq> []
                 then map (\<lambda>(line, state). line\<lparr>lp_state := state\<rparr>) (zip old (pc_line_states checkpoint))
                        @ drop (length (pc_line_states checkpoint)) old
                 else old);
          new = map (\<lambda>line. line\<lparr>lp_state := Dead\<rparr>) (drop n (pg_lines p))
      in Page_recompute_tuple_bytes (p\<lparr>pg_lines := old @ new\<rparr>))"

definition Page_mark_all_dead :: "Page \<Rightarrow> Page" where
  "Page_mark_all_dead p = Page_recompute_tuple_bytes (p\<lparr>pg_lines := map (\<lambda>line. line\<lparr>lp_state := Dead\<rparr>) (pg_lines p)\<rparr>)"

section \<open>A page as a list of rows\<close>

record Row =
  row_state :: LinePointerState
  row_xmin :: u32
  row_cmin :: u32
  row_xmax :: u32
  row_bytes :: "u8 list"

definition line_end :: "LinePointer \<Rightarrow> nat" where
  "line_end line = unat (lp_offset line) + unat (lp_len line)"

definition line_row :: "u8 list \<Rightarrow> LinePointer \<Rightarrow> Row" where
  "line_row bytes line = \<lparr>row_state = lp_state line, row_xmin = lp_xmin line, row_cmin = lp_cmin line, row_xmax = lp_xmax line,
     row_bytes = take (unat (lp_len line)) (drop (unat (lp_offset line)) bytes)\<rparr>"

definition Page_rows :: "Page \<Rightarrow> Row list" where
  "Page_rows p = map (line_row (pg_bytes p)) (pg_lines p)"

definition page_row :: "u16 \<Rightarrow> Page \<Rightarrow> Row option" where
  "page_row offset p = (case line_index offset of None \<Rightarrow> None | Some i \<Rightarrow> vec_get (Page_rows p) i)"

definition new_row :: "LinePointerState \<Rightarrow> u8 list \<Rightarrow> Row" where
  "new_row state tuple = \<lparr>row_state = state, row_xmin = 0, row_cmin = 0, row_xmax = 0, row_bytes = tuple\<rparr>"

definition state_bytes :: "LinePointerState \<Rightarrow> LinePointer list \<Rightarrow> nat" where
  "state_bytes state lines = sum_list (map (\<lambda>l. unat (lp_len l)) (filter (\<lambda>l. lp_state l = state) lines))"

fun counted_bytes :: "LinePointerState \<Rightarrow> Page \<Rightarrow> nat" where
  "counted_bytes Pending p = pg_pending_bytes p"
| "counted_bytes Live p = pg_live_bytes p"
| "counted_bytes Dead p = pg_dead_bytes p"

text \<open>The layout of a page: tuples in the order of their line pointers, without overlap, within the
  used bytes, and no more than a tuple identifier can name.\<close>

definition page_layout :: "Page \<Rightarrow> bool" where
  "page_layout p \<longleftrightarrow> pg_used p \<le> length (pg_bytes p) \<and> length (pg_bytes p) \<le> usize_max
     \<and> length (pg_lines p) \<le> MAX_CTID_OFFSET
     \<and> sorted_wrt (\<lambda>a b. line_end a \<le> unat (lp_offset b)) (pg_lines p)
     \<and> (\<forall>l \<in> set (pg_lines p). line_end l \<le> pg_used p)"

definition page_counts :: "Page \<Rightarrow> bool" where
  "page_counts p \<longleftrightarrow> (\<forall>st. counted_bytes st p = state_bytes st (pg_lines p))"

definition page_ok :: "Page \<Rightarrow> bool" where
  "page_ok p \<longleftrightarrow> page_layout p \<and> page_counts p"

definition appends :: "u8 list \<Rightarrow> Page \<Rightarrow> bool" where
  "appends tuple p \<longleftrightarrow> Page_can_fit p (length tuple) \<and> Page_aligned_used p + length tuple \<le> length (pg_bytes p)
     \<and> Page_aligned_used p < 2 ^ 32 \<and> length tuple < 2 ^ 32"

section \<open>Lemmas\<close>

lemma next_multiple_of_ge: "n \<le> next_multiple_of n k"
  by (simp add: next_multiple_of_def)

lemma saturating_add_exact [simp]: "a + b \<le> usize_max \<Longrightarrow> saturating_add a b = a + b"
  by (simp add: saturating_add_def)

lemma state_bytes_Nil [simp]: "state_bytes st [] = 0"
  and state_bytes_Cons [simp]:
    "state_bytes st (l # ls) = (if lp_state l = st then unat (lp_len l) else 0) + state_bytes st ls"
  and state_bytes_append [simp]: "state_bytes st (xs @ ys) = state_bytes st xs + state_bytes st ys"
  by (simp_all add: state_bytes_def)

lemma state_bytes_le: "state_bytes st ls \<le> sum_list (map (\<lambda>l. unat (lp_len l)) ls)"
  by (induction ls) auto

lemma state_bytes_member: "l \<in> set ls \<Longrightarrow> unat (lp_len l) \<le> state_bytes (lp_state l) ls"
  by (induction ls) auto

lemma lens_le:
  "sorted_wrt (\<lambda>a b. line_end a \<le> unat (lp_offset b)) ls \<Longrightarrow> \<forall>l \<in> set ls. line_end l \<le> u
    \<Longrightarrow> sum_list (map (\<lambda>l. unat (lp_len l)) ls) \<le> u"
proof (induction ls arbitrary: u rule: rev_induct)
  case (snoc l ls)
  have "sum_list (map (\<lambda>l. unat (lp_len l)) ls) \<le> unat (lp_offset l)"
    using snoc.prems by (intro snoc.IH) (auto simp: sorted_wrt_append)
  thus ?case using snoc.prems by (simp add: line_end_def)
qed simp

lemma state_bytes_used: "page_layout p \<Longrightarrow> state_bytes st (pg_lines p) \<le> pg_used p"
  using lens_le [of "pg_lines p" "pg_used p"] state_bytes_le [of st "pg_lines p"] by (simp add: page_layout_def)

lemma counted_count [simp]: "counted_bytes st (count_bytes st' f p) = (if st = st' then f (counted_bytes st p) else counted_bytes st p)"
  by (cases st; cases st') auto

lemma count_bytes_rest [simp]:
  "pg_block (count_bytes st f p) = pg_block p" "pg_epoch (count_bytes st f p) = pg_epoch p"
  "pg_generation (count_bytes st f p) = pg_generation p" "pg_bytes (count_bytes st f p) = pg_bytes p"
  "pg_used (count_bytes st f p) = pg_used p" "pg_lines (count_bytes st f p) = pg_lines p"
  by (cases st; simp)+

lemma counted_update [simp]:
  "counted_bytes st (p\<lparr>pg_lines := ls\<rparr>) = counted_bytes st p"
  "counted_bytes st (p\<lparr>pg_bytes := bs\<rparr>) = counted_bytes st p"
  "counted_bytes st (p\<lparr>pg_used := u\<rparr>) = counted_bytes st p"
  by (cases st; simp)+

declare count_bytes.simps [simp del]

lemma page_layout_count [simp]: "page_layout (count_bytes st f p) = page_layout p"
  by (simp add: page_layout_def)

lemma Page_rows_count [simp]: "Page_rows (count_bytes st f p) = Page_rows p"
  by (simp add: Page_rows_def)

lemma vec_get_map: "vec_get (map f xs) i = map_option f (vec_get xs i)"
  by (simp add: vec_get_def)

lemma page_row_line: "page_row offset p = map_option (line_row (pg_bytes p)) (Page_line offset p)"
  by (simp add: page_row_def Page_line_def Page_rows_def vec_get_map split: option.split)

lemma Page_line_cases:
  assumes "Page_line offset p = Some line"
  obtains i where "line_index offset = Some i" "i < length (pg_lines p)" "pg_lines p ! i = line" "line \<in> set (pg_lines p)"
  using assms by (auto simp: Page_line_def vec_get_def split: option.splits if_splits)

lemma line_bytes_row:
  assumes "page_layout p" and "line \<in> set (pg_lines p)"
  shows "line_bytes (pg_bytes p) line = Some (row_bytes (line_row (pg_bytes p) line))"
proof -
  have "line_end line \<le> length (pg_bytes p)" "length (pg_bytes p) \<le> usize_max"
    using assms by (auto simp: page_layout_def)
  thus ?thesis by (simp add: line_bytes_def line_row_def checked_add_def line_end_def)
qed

lemma tuple_slice_row:
  assumes "page_layout p"
  shows "Page_tuple_slice offset include_pending p =
    (case page_row offset p of None \<Rightarrow> None
     | Some row \<Rightarrow> if row_state row = Dead \<or> row_state row = Pending \<and> \<not> include_pending then None else Some (row_bytes row))"
proof (cases "Page_line offset p")
  case (Some line)
  thus ?thesis using line_bytes_row [OF assms] Page_line_cases [OF Some]
    by (auto simp: Page_tuple_slice_def page_row_line line_row_def)
qed (simp add: Page_tuple_slice_def page_row_line)

lemma tuple_slice_any_row:
  assumes "page_layout p"
  shows "Page_tuple_slice_any offset p = map_option row_bytes (page_row offset p)"
proof (cases "Page_line offset p")
  case (Some line)
  thus ?thesis using line_bytes_row [OF assms] Page_line_cases [OF Some]
    by (auto simp: Page_tuple_slice_any_def page_row_line)
qed (simp add: Page_tuple_slice_any_def page_row_line)

subsection \<open>Appending\<close>

lemma line_row_splice:
  assumes "line_end l \<le> n" "n \<le> length bytes"
  shows "line_row (take n bytes @ xs) l = line_row bytes l"
  using assms by (auto simp: line_row_def line_end_def drop_take min_def)

lemma line_row_new:
  assumes "n \<le> length bytes" "n < 2 ^ 32" "length tuple < 2 ^ 32"
  shows "line_row (take n bytes @ tuple @ xs) \<lparr>lp_offset = of_nat n, lp_len = of_nat (length tuple), lp_state = st,
    lp_xmin = 0, lp_cmin = 0, lp_xmax = 0\<rparr> = new_row st tuple"
  using assms by (simp add: line_row_def new_row_def unat_of_nat take_bit_nat_eq_self)


lemma append_tuple_cases:
  assumes "page_layout p"
  obtains (appended) p' where "appends tuple p"
      "Page_append_tuple_with_state tuple st p =
         (Some \<lparr>tid_block = pg_block p, tid_offset = of_nat (Suc (length (pg_lines p)))\<rparr>, p')"
      "p' = count_bytes st (\<lambda>n. saturating_add n (length tuple))
         (p\<lparr>pg_bytes := take (Page_aligned_used p) (pg_bytes p) @ tuple @ drop (Page_aligned_used p + length tuple) (pg_bytes p),
            pg_used := Page_aligned_used p + length tuple,
            pg_lines := pg_lines p @ [\<lparr>lp_offset = of_nat (Page_aligned_used p), lp_len = of_nat (length tuple), lp_state = st,
                           lp_xmin = 0, lp_cmin = 0, lp_xmax = 0\<rparr>]\<rparr>)"
  | (full) "\<not> appends tuple p" "Page_append_tuple_with_state tuple st p = (None, p)"
  | (large) "\<not> appends tuple p" "Page_aligned_used p + length tuple \<le> length (pg_bytes p)"
      "Page_append_tuple_with_state tuple st p =
         (None, p\<lparr>pg_bytes := take (Page_aligned_used p) (pg_bytes p) @ tuple @ drop (Page_aligned_used p + length tuple) (pg_bytes p),
            pg_used := Page_aligned_used p + length tuple\<rparr>)"
proof -
  have b: "length (pg_bytes p) \<le> usize_max" "length (pg_lines p) \<le> MAX_CTID_OFFSET" using assms by (auto simp: page_layout_def)
  show ?thesis
  proof (cases "Page_can_fit p (length tuple) \<and> Page_aligned_used p + length tuple \<le> length (pg_bytes p)")
    case False
    thus ?thesis using b by (intro full)
      (auto simp: appends_def Page_can_fit_def Page_append_tuple_with_state_def checked_add_def Let_def)
  next
    case True
    note h = True b
    have g: "\<not> (length tuple > Page_remaining p \<or> length (pg_lines p) \<ge> MAX_CTID_OFFSET)"
      "checked_add (Page_aligned_used p) (length tuple) = Some (Page_aligned_used p + length tuple)"
      "\<not> Page_aligned_used p + length tuple > length (pg_bytes p)" "\<not> Suc (length (pg_lines p)) \<ge> 2 ^ 16"
      using h by (auto simp: Page_can_fit_def checked_add_def MAX_CTID_OFFSET_def)
    show ?thesis
    proof (cases "Page_aligned_used p < 2 ^ 32 \<and> length tuple < 2 ^ 32")
      case True
      show ?thesis
      proof (rule appended [OF _ _ refl])
        show "appends tuple p" using True h by (simp add: appends_def)
      qed (unfold Page_append_tuple_with_state_def Let_def, use True g in simp)
    next
      case False
      hence "Page_aligned_used p \<ge> 2 ^ 32 \<or> length tuple \<ge> 2 ^ 32" by auto
      note e = this
      show ?thesis
      proof (rule large)
        show "\<not> appends tuple p" using False by (auto simp: appends_def)
        show "Page_aligned_used p + length tuple \<le> length (pg_bytes p)" using h by simp
      qed (unfold Page_append_tuple_with_state_def Let_def, use e g in simp)
    qed
  qed
qed

lemma appended_layout:
  assumes "page_layout p" "Page_aligned_used p + length tuple \<le> length (pg_bytes p)"
  shows "page_layout (p\<lparr>pg_bytes := take (Page_aligned_used p) (pg_bytes p) @ tuple @ drop (Page_aligned_used p + length tuple) (pg_bytes p),
            pg_used := Page_aligned_used p + length tuple\<rparr>)"
  using assms next_multiple_of_ge [of "pg_used p" DATUM_ALIGNMENT]
  by (fastforce simp: page_layout_def Page_aligned_used_def)

lemma appended_lines:
  assumes "page_layout p" "l \<in> set (pg_lines p)"
  shows "line_end l \<le> Page_aligned_used p"
  using assms next_multiple_of_ge [of "pg_used p" DATUM_ALIGNMENT] by (fastforce simp: page_layout_def Page_aligned_used_def)

lemma append_tuple_ok:
  assumes "page_ok p" shows "page_ok (snd (Page_append_tuple_with_state tuple st p))"
proof -
  have l: "page_layout p" and c: "page_counts p" using assms by (simp_all add: page_ok_def)
  show ?thesis using l
  proof (cases rule: append_tuple_cases [where tuple = tuple and st = st])
    case (appended p')
    have a: "Page_aligned_used p + length tuple \<le> length (pg_bytes p)" "Page_aligned_used p < 2 ^ 32" "length tuple < 2 ^ 32"
      "length (pg_lines p) < MAX_CTID_OFFSET"
      using appended(1) by (auto simp: appends_def Page_can_fit_def)
    have layout: "page_layout p'"
      using appended_layout [OF l a(1)] appended_lines [OF l] a
      by (fastforce simp: appended(3) page_layout_def sorted_wrt_append line_end_def unat_of_nat take_bit_nat_eq_self)
    have "counted_bytes st p + length tuple \<le> usize_max"
      using c state_bytes_used [OF l, of st] a l next_multiple_of_ge [of "pg_used p" DATUM_ALIGNMENT]
      by (simp add: page_counts_def page_layout_def Page_aligned_used_def)
    hence "page_counts p'"
      using c a by (simp add: appended(3) page_counts_def unat_of_nat take_bit_nat_eq_self)
    thus ?thesis using layout appended(2) by (simp add: page_ok_def)
  next
    case large
    thus ?thesis using appended_layout [OF l large(2)] c by (simp add: page_ok_def page_counts_def)
  qed (use assms in simp)
qed

lemma append_tuple_rows:
  assumes "page_layout p"
  shows "Page_rows (snd (Page_append_tuple_with_state tuple st p)) = Page_rows p @ (if appends tuple p then [new_row st tuple] else [])"
  using assms
proof (cases rule: append_tuple_cases [where tuple = tuple and st = st])
  case (appended p')
  have a: "Page_aligned_used p \<le> length (pg_bytes p)" "Page_aligned_used p < 2 ^ 32" "length tuple < 2 ^ 32"
    using appended(1) by (auto simp: appends_def)
  show ?thesis
    using appended(1) line_row_new [OF a] line_row_splice [OF appended_lines [OF assms] a(1)] by (simp add: appended(2,3) Page_rows_def)
next
  case large
  have a: "Page_aligned_used p \<le> length (pg_bytes p)" using large(2) by simp
  show ?thesis using large(1) line_row_splice [OF appended_lines [OF assms] a] by (simp add: large(3) Page_rows_def)
qed simp

lemma append_tuple_tid:
  assumes "page_layout p"
  shows "fst (Page_append_tuple_with_state tuple st p) =
    (if appends tuple p then Some \<lparr>tid_block = pg_block p, tid_offset = of_nat (Suc (length (pg_lines p)))\<rparr> else None)"
  using assms by (cases rule: append_tuple_cases [where tuple = tuple and st = st]) simp_all

subsection \<open>Changing states\<close>

lemma state_bytes_update:
  "i < length ls \<Longrightarrow> state_bytes st (ls[i := l]) + (if lp_state (ls ! i) = st then unat (lp_len (ls ! i)) else 0)
     = state_bytes st ls + (if lp_state l = st then unat (lp_len l) else 0)"
proof -
  assume i: "i < length ls"
  have "state_bytes st ls = state_bytes st (take i ls @ ls ! i # drop (Suc i) ls)"
    using i by (simp only: id_take_nth_drop [symmetric])
  thus ?thesis using i by (simp add: upd_conv_take_nth_drop)
qed

definition same_place :: "LinePointer \<Rightarrow> LinePointer \<Rightarrow> bool" where
  "same_place a b \<longleftrightarrow> lp_offset a = lp_offset b \<and> lp_len a = lp_len b"

lemma page_layout_lines:
  assumes "list_all2 same_place ls (pg_lines p)"
  shows "page_layout (p\<lparr>pg_lines := ls\<rparr>) = page_layout p"
proof -
  let ?pos = "map (\<lambda>l. (lp_offset l, lp_len l))"
  have pos: "?pos ls = ?pos (pg_lines p)"
    using assms by (induction rule: list_all2_induct) (auto simp: same_place_def)
  have len: "length ls = length (pg_lines p)" using assms by (rule list_all2_lengthD)
  have "page_layout q \<longleftrightarrow> pg_used q \<le> length (pg_bytes q) \<and> length (pg_bytes q) \<le> usize_max
     \<and> length (pg_lines q) \<le> MAX_CTID_OFFSET
     \<and> sorted_wrt (\<lambda>a b. unat (fst a) + unat (snd a) \<le> unat (fst b)) (?pos (pg_lines q))
     \<and> (\<forall>a \<in> set (?pos (pg_lines q)). unat (fst a) + unat (snd a) \<le> pg_used q)" for q
    by (simp add: page_layout_def sorted_wrt_map line_end_def)
  moreover have "pg_lines (p\<lparr>pg_lines := ls\<rparr>) = ls" "pg_used (p\<lparr>pg_lines := ls\<rparr>) = pg_used p"
    "pg_bytes (p\<lparr>pg_lines := ls\<rparr>) = pg_bytes p" by simp_all
  ultimately show ?thesis by (simp only: pos len)
qed

lemma list_all2_same_update:
  "i < length ls \<Longrightarrow> same_place l (ls ! i) \<Longrightarrow> list_all2 same_place (ls[i := l]) ls"
  by (auto simp: list_all2_conv_all_nth nth_list_update same_place_def)

lemma set_line_layout:
  assumes "\<And>l. same_place (f l) l"
  shows "page_layout (set_line offset f p) = page_layout p"
  by (auto simp: set_line_def page_layout_lines list_all2_same_update assms split: option.split)

lemma set_line_counted [simp]: "counted_bytes st (set_line offset f p) = counted_bytes st p"
  by (simp add: set_line_def split: option.split)

definition change_row :: "nat \<Rightarrow> (Row \<Rightarrow> Row) \<Rightarrow> Row list \<Rightarrow> Row list" where
  "change_row i f rows = (if i < length rows then rows[i := f (rows ! i)] else rows)"

lemma set_line_rows:
  assumes "\<And>l. line_row (pg_bytes p) (f l) = g (line_row (pg_bytes p) l)"
  shows "Page_rows (set_line offset f p) = (case line_index offset of None \<Rightarrow> Page_rows p | Some i \<Rightarrow> change_row i g (Page_rows p))"
  by (simp add: set_line_def change_row_def Page_rows_def map_update assms split: option.split)

lemma set_line_rest [simp]:
  "pg_block (set_line offset f p) = pg_block p" "pg_bytes (set_line offset f p) = pg_bytes p"
  "pg_used (set_line offset f p) = pg_used p" "length (pg_lines (set_line offset f p)) = length (pg_lines p)"
  by (simp_all add: set_line_def split: option.split)

lemma moved_ok:
  assumes ok: "page_ok p" and line: "Page_line offset p = Some line" and st: "st \<noteq> lp_state line"
  shows "page_ok (count_bytes st (\<lambda>n. saturating_add n (unat (lp_len line)))
    (count_bytes (lp_state line) (\<lambda>n. n - unat (lp_len line)) (set_line offset (\<lambda>l. l\<lparr>lp_state := st\<rparr>) p)))"
    (is "page_ok ?q")
proof -
  have l: "page_layout p" and c: "\<And>st. counted_bytes st p = state_bytes st (pg_lines p)"
    using ok by (simp_all add: page_ok_def page_counts_def)
  obtain i where i: "line_index offset = Some i" "i < length (pg_lines p)" "pg_lines p ! i = line" "line \<in> set (pg_lines p)"
    using line by (rule Page_line_cases)
  have q: "page_layout ?q" using l by (simp add: set_line_layout same_place_def)
  have lines: "pg_lines ?q = (pg_lines p)[i := line\<lparr>lp_state := st\<rparr>]" using i by (simp add: set_line_def)
  have upd: "state_bytes s (pg_lines ?q) + (if lp_state line = s then unat (lp_len line) else 0)
     = state_bytes s (pg_lines p) + (if st = s then unat (lp_len line) else 0)" for s
    using state_bytes_update [OF i(2), of s "line\<lparr>lp_state := st\<rparr>"] i(3) unfolding lines by (simp split: if_splits)
  have "state_bytes st (pg_lines ?q) \<le> usize_max"
    using state_bytes_used [OF q, of st] q unfolding page_layout_def by linarith
  hence "counted_bytes s ?q = state_bytes s (pg_lines ?q)" for s
    using upd [of s] upd [of st] st state_bytes_member [OF i(4)] by (auto simp: c)
  thus ?thesis using q by (simp add: page_ok_def page_counts_def)
qed

lemma mark_dead_ok: "page_ok p \<Longrightarrow> page_ok (snd (Page_mark_dead offset p))"
  and mark_live_ok: "page_ok p \<Longrightarrow> page_ok (snd (Page_mark_live offset p))"
  using moved_ok [of p offset _ Dead] moved_ok [of p offset _ Live]
  by (auto simp: Page_mark_dead_def Page_mark_live_def Let_def split: option.split)


lemma line_row_state [simp]: "line_row bs (l\<lparr>lp_state := st\<rparr>) = (line_row bs l)\<lparr>row_state := st\<rparr>"
  by (simp add: line_row_def)



lemma mark_dead_result:
  "Page_mark_dead offset p = (b, q) \<Longrightarrow> b = (\<exists>row. page_row offset p = Some row \<and> row_state row \<noteq> Dead)"
  and mark_live_result:
  "Page_mark_live offset p = (b, q) \<Longrightarrow> b = (\<exists>row. page_row offset p = Some row \<and> row_state row = Pending)"
  by (auto simp: Page_mark_dead_def Page_mark_live_def page_row_line line_row_def Let_def split: option.splits if_splits)

lemma mark_dead_rows:
  "Page_rows (snd (Page_mark_dead offset p)) =
    (case line_index offset of None \<Rightarrow> Page_rows p | Some i \<Rightarrow> change_row i (\<lambda>r. r\<lparr>row_state := Dead\<rparr>) (Page_rows p))"
proof (cases "Page_line offset p")
  case None
  thus ?thesis by (auto simp: Page_mark_dead_def Page_line_def vec_get_def change_row_def Page_rows_def split: option.splits if_splits)
next
  case (Some line)
  then obtain i where i: "line_index offset = Some i" "i < length (pg_lines p)" "pg_lines p ! i = line"
    by (rule Page_line_cases)
  show ?thesis
  proof (cases "lp_state line = Dead")
    case True
    hence "(line_row (pg_bytes p) line)\<lparr>row_state := Dead\<rparr> = line_row (pg_bytes p) line" by (simp add: line_row_def)
    thus ?thesis using True Some i by (simp add: Page_mark_dead_def change_row_def Page_rows_def flip: map_update) (metis list_update_id)
  next
    case False
    thus ?thesis using Some i set_line_rows [of p "\<lambda>l. l\<lparr>lp_state := Dead\<rparr>" "\<lambda>r. r\<lparr>row_state := Dead\<rparr>" offset]
      by (simp add: Page_mark_dead_def Let_def)
  qed
qed

lemma mark_live_rows:
  "Page_rows (snd (Page_mark_live offset p)) =
    (case line_index offset of None \<Rightarrow> Page_rows p
     | Some i \<Rightarrow> change_row i (\<lambda>r. if row_state r = Pending then r\<lparr>row_state := Live\<rparr> else r) (Page_rows p))"
proof (cases "Page_line offset p")
  case None
  thus ?thesis by (auto simp: Page_mark_live_def Page_line_def vec_get_def change_row_def Page_rows_def split: option.splits if_splits)
next
  case (Some line)
  then obtain i where i: "line_index offset = Some i" "i < length (pg_lines p)" "pg_lines p ! i = line"
    by (rule Page_line_cases)
  have st: "row_state (line_row (pg_bytes p) line) = lp_state line" by (simp add: line_row_def)
  show ?thesis
  proof (cases "lp_state line = Pending")
    case False
    thus ?thesis using Some i st by (simp add: Page_mark_live_def change_row_def Page_rows_def) (metis length_map list_update_id nth_map)
  next
    case True
    thus ?thesis using Some i st set_line_rows [of p "\<lambda>l. l\<lparr>lp_state := Live\<rparr>" "\<lambda>r. r\<lparr>row_state := Live\<rparr>" offset]
      by (simp add: Page_mark_live_def Let_def change_row_def Page_rows_def)
  qed
qed

subsection \<open>Recounting\<close>

lemma fold_count_bytes:
  assumes "\<forall>st. counted_bytes st p + state_bytes st ls \<le> usize_max"
  shows "counted_bytes st (fold (\<lambda>line. count_bytes (lp_state line) (\<lambda>n. saturating_add n (unat (lp_len line)))) ls p)
    = counted_bytes st p + state_bytes st ls"
  using assms
proof (induction ls arbitrary: p)
  case (Cons l ls)
  have "counted_bytes (lp_state l) p + unat (lp_len l) \<le> usize_max" using Cons.prems [rule_format, of "lp_state l"] by simp
  moreover from this have "counted_bytes st (count_bytes (lp_state l) (\<lambda>n. saturating_add n (unat (lp_len l))) p)
      + state_bytes st ls \<le> usize_max" for st
    using Cons.prems [rule_format, of st] by (auto simp: add.assoc)
  ultimately show ?case by (simp add: Cons.IH)
qed simp

lemma fold_count_rest [simp]:
  fixes f :: "LinePointer \<Rightarrow> nat \<Rightarrow> nat"
  shows "pg_block (fold (\<lambda>l. count_bytes (lp_state l) (f l)) ls p) = pg_block p"
    "pg_bytes (fold (\<lambda>l. count_bytes (lp_state l) (f l)) ls p) = pg_bytes p"
    "pg_used (fold (\<lambda>l. count_bytes (lp_state l) (f l)) ls p) = pg_used p"
    "pg_lines (fold (\<lambda>l. count_bytes (lp_state l) (f l)) ls p) = pg_lines p"
    "pg_epoch (fold (\<lambda>l. count_bytes (lp_state l) (f l)) ls p) = pg_epoch p"
    "pg_generation (fold (\<lambda>l. count_bytes (lp_state l) (f l)) ls p) = pg_generation p"
  by (induction ls arbitrary: p) simp_all

lemma recompute_rest [simp]:
  "pg_block (Page_recompute_tuple_bytes p) = pg_block p" "pg_bytes (Page_recompute_tuple_bytes p) = pg_bytes p"
  "pg_used (Page_recompute_tuple_bytes p) = pg_used p" "pg_lines (Page_recompute_tuple_bytes p) = pg_lines p"
  "pg_epoch (Page_recompute_tuple_bytes p) = pg_epoch p" "pg_generation (Page_recompute_tuple_bytes p) = pg_generation p"
  by (simp_all add: Page_recompute_tuple_bytes_def)

lemma recompute_rows [simp]: "Page_rows (Page_recompute_tuple_bytes p) = Page_rows p"
  by (simp add: Page_rows_def)

lemma recompute_ok: "page_layout p \<Longrightarrow> page_ok (Page_recompute_tuple_bytes p)"
proof -
  assume l: "page_layout p"
  have z: "counted_bytes st (p\<lparr>pg_pending_bytes := 0, pg_live_bytes := 0, pg_dead_bytes := 0\<rparr>) = 0" for st by (cases st) simp_all
  have "state_bytes st (pg_lines p) \<le> usize_max" for st using state_bytes_used [OF l, of st] l by (simp add: page_layout_def)
  hence "counted_bytes st (Page_recompute_tuple_bytes p) = state_bytes st (pg_lines p)" for st
    unfolding Page_recompute_tuple_bytes_def by (subst fold_count_bytes) (simp_all add: z)
  thus ?thesis using l by (simp add: page_ok_def page_counts_def page_layout_def)
qed


lemma recompute_id:
  assumes "page_ok p" shows "Page_recompute_tuple_bytes p = p"
proof (rule Page.equality)
  have "page_counts (Page_recompute_tuple_bytes p)" "page_counts p"
    using assms recompute_ok [of p] by (simp_all add: page_ok_def)
  hence c: "counted_bytes st (Page_recompute_tuple_bytes p) = counted_bytes st p" for st by (simp add: page_counts_def)
  show "pg_pending_bytes (Page_recompute_tuple_bytes p) = pg_pending_bytes p" using c [of Pending] by simp
  show "pg_live_bytes (Page_recompute_tuple_bytes p) = pg_live_bytes p" using c [of Live] by simp
  show "pg_dead_bytes (Page_recompute_tuple_bytes p) = pg_dead_bytes p" using c [of Dead] by simp
qed simp_all

lemma mark_all_dead_rows: "Page_rows (Page_mark_all_dead p) = map (\<lambda>r. r\<lparr>row_state := Dead\<rparr>) (Page_rows p)"
  by (simp add: Page_mark_all_dead_def) (simp add: Page_rows_def)

lemma mark_all_dead_ok: "page_ok p \<Longrightarrow> page_ok (Page_mark_all_dead p)"
  unfolding Page_mark_all_dead_def
  by (intro recompute_ok) (simp add: page_ok_def page_layout_lines list.rel_map list.rel_refl same_place_def)

lemma restore_ok: "page_ok p \<Longrightarrow> page_ok (Page_restore_to_preserving_tid_space c p)"
  unfolding Page_restore_to_preserving_tid_space_def Let_def
  by (intro recompute_ok, subst page_layout_lines)
    (auto simp: page_ok_def list_all2_conv_all_nth same_place_def nth_append min_def)

text \<open>The checkpoint of a page records no states, so restoring to it keeps those of the rows the
  page had and kills the rows appended since.\<close>

lemma restore_checkpoint_rows:
  assumes "Page_rows q = Page_rows p @ rows" "length (pg_lines p) \<le> length (pg_lines q)"
  shows "Page_rows (Page_restore_to_preserving_tid_space (Page_checkpoint p) q) = Page_rows p @ map (\<lambda>r. r\<lparr>row_state := Dead\<rparr>) rows"
proof -
  let ?n = "length (pg_lines p)"
  have "take ?n (Page_rows q) = Page_rows p" "drop ?n (Page_rows q) = rows"
    using assms(1) by (simp_all add: Page_rows_def)
  thus ?thesis using assms(2)
    by (simp add: Page_restore_to_preserving_tid_space_def Page_checkpoint_def Let_def min_def)
      (auto simp: Page_rows_def take_map drop_map)
qed

lemma Page_new_ok:
  assumes "min_capacity \<le> 2 ^ 62"
  shows "page_ok (Page_new block epoch generation min_capacity)"
proof -
  have "floorlog 2 (min_capacity - 1) \<le> 62"
    using assms by (intro floorlog_leI) auto
  hence "next_power_of_two min_capacity \<le> 2 ^ 62" unfolding next_power_of_two_def by (intro power_increasing) auto
  hence "max PAGE_SIZE (next_power_of_two min_capacity) \<le> usize_max" by (simp add: PAGE_SIZE_def usize_max_def)
  moreover have "counted_bytes st (Page_new block epoch generation min_capacity) = 0" for st by (cases st) (simp_all add: Page_new_def Let_def)
  ultimately show ?thesis by (simp add: page_ok_def page_layout_def page_counts_def Page_new_def Let_def)
qed

lemma Page_new_rest [simp]:
  "pg_block (Page_new block epoch generation c) = block" "pg_lines (Page_new block epoch generation c) = []"
  "Page_rows (Page_new block epoch generation c) = []"
  by (simp_all add: Page_new_def Page_rows_def Let_def)

text \<open>A page made for a tuple takes it.\<close>

lemma next_power_of_two_ge: "n \<le> next_power_of_two n"
proof (cases "n \<le> 1")
  case True thus ?thesis by (simp add: next_power_of_two_def floorlog_def)
next
  case False
  hence "n - 1 < 2 ^ floorlog 2 (n - 1)" by (intro floorlog_bounds [THEN conjunct2, of _ 2, simplified]) auto
  thus ?thesis by (simp add: next_power_of_two_def)
qed

lemma Page_new_appends: "length tuple < 2 ^ 32 \<Longrightarrow> appends tuple (Page_new block epoch generation (length tuple))"
  using next_power_of_two_ge [of "length tuple"]
  by (simp add: appends_def Page_can_fit_def Page_remaining_def Page_aligned_used_def next_multiple_of_def Page_new_def MAX_CTID_OFFSET_def Let_def)

subsection \<open>Tuple identifiers\<close>

lemma Tid_unpack_pack: "Tid_unpack (Tid_pack tid) = (if tid_offset tid = 0 then None else Some tid)"
proof -
  have "ucast (take_bit 16 (Tid_pack tid)) = tid_offset tid"
    by (intro bit_word_eqI) (auto simp: Tid_pack_def bit_simps)
  hence "ucast (Tid_pack tid AND 0xffff) = tid_offset tid" by (simp add: take_bit_eq_mask mask_eq_exp_minus_1)
  moreover have "ucast (drop_bit 16 (Tid_pack tid)) = tid_block tid"
    by (intro bit_word_eqI) (auto simp: Tid_pack_def bit_simps dest: bit_imp_le_length)
  ultimately show ?thesis by (simp add: Tid_unpack_def Let_def)
qed

end
