(* ===== verification/Storage2_Relation.thy ===== *)
theory Storage2_Relation
  imports Storage2_Page
begin

text \<open>
  Relations of the table storage, src/crates/fastpg-storage2/src/relation.rs: a vector of pages with
  the sets, redirects, indexes and counters kept beside it. A \<^verbatim>\<open>BTreeSet\<close> is a set, walked in
  ascending order where the code walks it; a \<^verbatim>\<open>HashMap\<close> is a map. The lemmas show that a relation is
  a map from tuple identifiers to rows, which each method changes at one place, and that the counters
  kept along the way are the ones \<^verbatim>\<open>recompute_tuple_stats\<close> would find.
\<close>

section \<open>Index keys\<close>

datatype IndexKeyPart = Null | ByValue nat | Bytes "u8 list"
datatype IndexKey = Single IndexKeyPart | Parts "IndexKeyPart list"

fun IndexKey_parts :: "IndexKeyPart list \<Rightarrow> IndexKey" where
  "IndexKey_parts [part] = Single part"
| "IndexKey_parts parts = Parts parts"

fun index_key_part_bytes :: "IndexKeyPart \<Rightarrow> nat" where
  "index_key_part_bytes Null = 1"
| "index_key_part_bytes (ByValue _) = 8"
| "index_key_part_bytes (Bytes bytes) = length bytes"

fun IndexKey_accounted_bytes :: "IndexKey \<Rightarrow> nat" where
  "IndexKey_accounted_bytes (Single part) = index_key_part_bytes part"
| "IndexKey_accounted_bytes (Parts parts) = sum_list (map index_key_part_bytes parts)"

section \<open>Relations\<close>

record RelationStorage =
  rs_pages :: "Page option list"
  rs_physical_blocks :: "u32 set"
  rs_primary_key_index :: "IndexKey \<rightharpoonup> Tid"
  rs_indexes :: "u32 \<rightharpoonup> (IndexKey \<rightharpoonup> Tid list)"
  rs_hot_redirects :: "Tid \<rightharpoonup> Tid"
  rs_hot_redirect_roots :: "Tid set"
  rs_hot_redirect_targets :: "Tid set"
  rs_hot_redirect_target_roots :: "Tid \<rightharpoonup> Tid"
  rs_update_redirects :: "Tid \<rightharpoonup> Tid"
  rs_row_delete_xids :: "Tid \<rightharpoonup> u32"
  rs_row_delete_cids :: "Tid \<rightharpoonup> u32"
  rs_live_tids :: "Tid set"
  rs_pending_reserved_tids :: "Tid set"
  rs_pending_reserved_blocks :: "u32 set"
  rs_appendable_blocks :: "u32 set"
  rs_next_block :: u32
  rs_append_hint :: "u32 option"
  rs_live_tuple_count :: nat
  rs_pending_tuple_count :: nat
  rs_dead_tuple_count :: nat
  rs_live_tuple_bytes :: nat
  rs_pending_tuple_bytes :: nat
  rs_dead_tuple_bytes :: nat
  rs_max_tuples_per_block :: "u16 option"

record RelationCheckpoint =
  rc_pages_len :: nat
  rc_next_block :: u32
  rc_append_hint :: "u32 option"
  rc_live_tuple_count :: nat
  rc_pending_tuple_count :: nat
  rc_dead_tuple_count :: nat
  rc_live_tuple_bytes :: nat
  rc_pending_tuple_bytes :: nat
  rc_dead_tuple_bytes :: nat
  rc_max_tuples_per_block :: "u16 option"

definition RelationStorage_default :: RelationStorage where
  "RelationStorage_default =
     \<lparr>rs_pages = [], rs_physical_blocks = {}, rs_primary_key_index = Map.empty, rs_indexes = Map.empty,
      rs_hot_redirects = Map.empty, rs_hot_redirect_roots = {}, rs_hot_redirect_targets = {},
      rs_hot_redirect_target_roots = Map.empty, rs_update_redirects = Map.empty, rs_row_delete_xids = Map.empty,
      rs_row_delete_cids = Map.empty, rs_live_tids = {}, rs_pending_reserved_tids = {}, rs_pending_reserved_blocks = {},
      rs_appendable_blocks = {}, rs_next_block = 0, rs_append_hint = None, rs_live_tuple_count = 0,
      rs_pending_tuple_count = 0, rs_dead_tuple_count = 0, rs_live_tuple_bytes = 0, rs_pending_tuple_bytes = 0,
      rs_dead_tuple_bytes = 0, rs_max_tuples_per_block = None\<rparr>"

definition Relation_checkpoint :: "RelationStorage \<Rightarrow> RelationCheckpoint" where
  "Relation_checkpoint r =
     \<lparr>rc_pages_len = length (rs_pages r), rc_next_block = rs_next_block r, rc_append_hint = rs_append_hint r,
      rc_live_tuple_count = rs_live_tuple_count r, rc_pending_tuple_count = rs_pending_tuple_count r,
      rc_dead_tuple_count = rs_dead_tuple_count r, rc_live_tuple_bytes = rs_live_tuple_bytes r,
      rc_pending_tuple_bytes = rs_pending_tuple_bytes r, rc_dead_tuple_bytes = rs_dead_tuple_bytes r,
      rc_max_tuples_per_block = rs_max_tuples_per_block r\<rparr>"

definition Relation_page :: "RelationStorage \<Rightarrow> u32 \<Rightarrow> Page option" where
  "Relation_page r block = Option.bind (vec_get (rs_pages r) (unat block)) id"

text \<open>\<^verbatim>\<open>page_mut\<close>: the changes made through it are those of the page at its place.\<close>

definition Relation_put_page :: "u32 \<Rightarrow> Page \<Rightarrow> RelationStorage \<Rightarrow> RelationStorage" where
  "Relation_put_page block page r = r\<lparr>rs_pages := (rs_pages r)[unat block := Some page]\<rparr>"

definition Relation_tuple_slice :: "RelationStorage \<Rightarrow> Tid \<Rightarrow> bool \<Rightarrow> u8 list option" where
  "Relation_tuple_slice r tid include_pending =
     Option.bind (Relation_page r (tid_block tid)) (Page_tuple_slice (tid_offset tid) include_pending)"

definition Relation_tuple_slice_any :: "RelationStorage \<Rightarrow> Tid \<Rightarrow> u8 list option" where
  "Relation_tuple_slice_any r tid = Option.bind (Relation_page r (tid_block tid)) (Page_tuple_slice_any (tid_offset tid))"

definition Relation_line_pointer :: "RelationStorage \<Rightarrow> Tid \<Rightarrow> LinePointer option" where
  "Relation_line_pointer r tid = Option.bind (Relation_page r (tid_block tid)) (Page_line (tid_offset tid))"

definition Relation_line_pointer_state :: "RelationStorage \<Rightarrow> Tid \<Rightarrow> LinePointerState option" where
  "Relation_line_pointer_state r tid = map_option lp_state (Relation_line_pointer r tid)"

text \<open>A change of one line pointer through \<^verbatim>\<open>line_pointer_mut\<close>; whether there is one.\<close>

definition Relation_line_pointer_mut :: "Tid \<Rightarrow> (LinePointer \<Rightarrow> LinePointer) \<Rightarrow> RelationStorage \<Rightarrow> bool \<times> RelationStorage" where
  "Relation_line_pointer_mut tid f r =
     (case Relation_page r (tid_block tid) of
        None \<Rightarrow> (False, r)
      | Some page \<Rightarrow>
          if Page_line (tid_offset tid) page = None then (False, r)
          else (True, Relation_put_page (tid_block tid) (set_line (tid_offset tid) f page) r))"

definition Relation_set_insert_metadata :: "Tid \<Rightarrow> u32 \<Rightarrow> u32 \<Rightarrow> RelationStorage \<Rightarrow> bool \<times> RelationStorage" where
  "Relation_set_insert_metadata tid xmin cmin = Relation_line_pointer_mut tid (\<lambda>line. line\<lparr>lp_xmin := xmin, lp_cmin := cmin\<rparr>)"

definition Relation_set_row_xmax :: "Tid \<Rightarrow> u32 \<Rightarrow> RelationStorage \<Rightarrow> bool \<times> RelationStorage" where
  "Relation_set_row_xmax tid xmax = Relation_line_pointer_mut tid (\<lambda>line. line\<lparr>lp_xmax := xmax\<rparr>)"

definition Relation_row_xmin :: "RelationStorage \<Rightarrow> Tid \<Rightarrow> u32 option" where
  "Relation_row_xmin r tid = map_option lp_xmin (Relation_line_pointer r tid)"
definition Relation_row_cmin :: "RelationStorage \<Rightarrow> Tid \<Rightarrow> u32 option" where
  "Relation_row_cmin r tid = map_option lp_cmin (Relation_line_pointer r tid)"
definition Relation_row_xmax :: "RelationStorage \<Rightarrow> Tid \<Rightarrow> u32 option" where
  "Relation_row_xmax r tid = map_option lp_xmax (Relation_line_pointer r tid)"

section \<open>Blocks that take more tuples\<close>

definition Relation_page_can_accept_tuple :: "RelationStorage \<Rightarrow> Page \<Rightarrow> nat \<Rightarrow> bool" where
  "Relation_page_can_accept_tuple r page tuple_len \<longleftrightarrow>
     Page_can_fit page tuple_len
     \<and> (case rs_max_tuples_per_block r of None \<Rightarrow> True | Some m \<Rightarrow> length (pg_lines page) < unat m)"

definition block_accepts :: "RelationStorage \<Rightarrow> nat \<Rightarrow> u32 \<Rightarrow> bool" where
  "block_accepts r tuple_len block \<longleftrightarrow>
     (case Relation_page r block of None \<Rightarrow> False | Some page \<Rightarrow> Relation_page_can_accept_tuple r page tuple_len)"

text \<open>\<^verbatim>\<open>iter().next_back()\<close> of an ordered set.\<close>

definition next_back :: "u32 set \<Rightarrow> u32 option" where
  "next_back blocks = (if blocks = {} then None else Some (Max blocks))"

definition Relation_refresh_appendable_block :: "u32 \<Rightarrow> RelationStorage \<Rightarrow> RelationStorage" where
  "Relation_refresh_appendable_block block r =
     (let blocks = (if block_accepts r 1 block then insert block (rs_appendable_blocks r) else rs_appendable_blocks r - {block})
      in r\<lparr>rs_appendable_blocks := blocks, rs_append_hint := next_back blocks\<rparr>)"

definition Relation_recompute_appendable_blocks :: "RelationStorage \<Rightarrow> RelationStorage" where
  "Relation_recompute_appendable_blocks r =
     (let blocks = Set.filter (block_accepts r 1) (rs_physical_blocks r)
      in r\<lparr>rs_appendable_blocks := blocks, rs_append_hint := next_back blocks\<rparr>)"

definition Relation_set_max_tuples_per_block :: "u16 \<Rightarrow> RelationStorage \<Rightarrow> RelationStorage" where
  "Relation_set_max_tuples_per_block max_tuples r =
     Relation_recompute_appendable_blocks
       (r\<lparr>rs_max_tuples_per_block := Some (max 1 (min max_tuples (of_nat MAX_CTID_OFFSET)))\<rparr>)"

definition Relation_insert_page :: "Page \<Rightarrow> RelationStorage \<Rightarrow> RelationStorage" where
  "Relation_insert_page page r =
     (let block = unat (pg_block page);
          pages = (if length (rs_pages r) \<le> block
                   then rs_pages r @ replicate (block + 1 - length (rs_pages r)) None else rs_pages r)
      in Relation_refresh_appendable_block (pg_block page)
           (r\<lparr>rs_pages := pages[block := Some page], rs_physical_blocks := insert (pg_block page) (rs_physical_blocks r)\<rparr>))"

definition Relation_mark_page_dead :: "u32 \<Rightarrow> RelationStorage \<Rightarrow> RelationStorage" where
  "Relation_mark_page_dead block r =
     Relation_refresh_appendable_block block
       (case Relation_page r block of None \<Rightarrow> r | Some page \<Rightarrow> Relation_put_page block (Page_mark_all_dead page) r)"

definition Relation_reserve_block :: "RelationStorage \<Rightarrow> u32 option \<times> RelationStorage" where
  "Relation_reserve_block r =
     (if rs_next_block r = - 1 then (None, r)
      else (Some (rs_next_block r), r\<lparr>rs_next_block := rs_next_block r + 1\<rparr>))"

section \<open>Tuples and counters\<close>

text \<open>The counters of tuples and of bytes, by state.\<close>

fun count_tuples :: "LinePointerState \<Rightarrow> (nat \<Rightarrow> nat) \<Rightarrow> (nat \<Rightarrow> nat) \<Rightarrow> RelationStorage \<Rightarrow> RelationStorage" where
  "count_tuples Pending f g r =
     r\<lparr>rs_pending_tuple_count := f (rs_pending_tuple_count r), rs_pending_tuple_bytes := g (rs_pending_tuple_bytes r)\<rparr>"
| "count_tuples Live f g r =
     r\<lparr>rs_live_tuple_count := f (rs_live_tuple_count r), rs_live_tuple_bytes := g (rs_live_tuple_bytes r)\<rparr>"
| "count_tuples Dead f g r =
     r\<lparr>rs_dead_tuple_count := f (rs_dead_tuple_count r), rs_dead_tuple_bytes := g (rs_dead_tuple_bytes r)\<rparr>"

definition Relation_mark_dead :: "Tid \<Rightarrow> RelationStorage \<Rightarrow> bool \<times> RelationStorage" where
  "Relation_mark_dead tid r =
     (case Relation_page r (tid_block tid) of
        None \<Rightarrow> (False, r)
      | Some page \<Rightarrow>
          case Page_line (tid_offset tid) page of
            None \<Rightarrow> (False, r)
          | Some line \<Rightarrow>
              let (marked, page) = Page_mark_dead (tid_offset tid) page;
                  r = Relation_put_page (tid_block tid) page r
              in if \<not> marked then (False, r)
                 else
                   let len = unat (lp_len line) in
                   case lp_state line of
                     Dead \<Rightarrow> (False, r)
                   | st \<Rightarrow>
                       let r = count_tuples st (\<lambda>n. n - 1) (\<lambda>n. n - len) r;
                           r = (if st = Live then r\<lparr>rs_live_tids := rs_live_tids r - {tid}\<rparr> else r)
                       in (True, count_tuples Dead (\<lambda>n. saturating_add n 1) (\<lambda>n. saturating_add n len) r))"

definition Relation_mark_live :: "Tid \<Rightarrow> RelationStorage \<Rightarrow> bool \<times> RelationStorage" where
  "Relation_mark_live tid r =
     (case Relation_page r (tid_block tid) of
        None \<Rightarrow> (False, r)
      | Some page \<Rightarrow>
          case Page_line (tid_offset tid) page of
            None \<Rightarrow> (False, r)
          | Some line \<Rightarrow>
              if lp_state line \<noteq> Pending then (False, r)
              else
                let (marked, page) = Page_mark_live (tid_offset tid) page;
                    r = Relation_put_page (tid_block tid) page r
                in if \<not> marked then (False, r)
                   else
                     let len = unat (lp_len line);
                         r = count_tuples Pending (\<lambda>n. n - 1) (\<lambda>n. n - len) r;
                         r = count_tuples Live (\<lambda>n. saturating_add n 1) (\<lambda>n. saturating_add n len) r
                     in (True, r\<lparr>rs_live_tids := insert tid (rs_live_tids r)\<rparr>))"

definition Relation_append_target_block :: "nat \<Rightarrow> u64 \<Rightarrow> u64 \<Rightarrow> RelationStorage \<Rightarrow> u32 option \<times> RelationStorage" where
  "Relation_append_target_block tuple_len epoch generation r =
     (if (case rs_append_hint r of None \<Rightarrow> False | Some block \<Rightarrow> block_accepts r tuple_len block)
      then (rs_append_hint r, r)
      else
        case List.find (block_accepts r tuple_len) (rev (sorted_list_of_set (rs_appendable_blocks r))) of
          Some block \<Rightarrow> (Some block, r\<lparr>rs_append_hint := Some block\<rparr>)
        | None \<Rightarrow>
            case Relation_reserve_block r of
              (None, r) \<Rightarrow> (None, r)
            | (Some block, r) \<Rightarrow> (Some block, Relation_insert_page (Page_new block epoch generation tuple_len) r))"

definition Relation_append_pending_tuple :: "u32 \<Rightarrow> u8 list \<Rightarrow> RelationStorage \<Rightarrow> Tid option \<times> RelationStorage" where
  "Relation_append_pending_tuple block tuple r =
     (case Relation_page r block of
        None \<Rightarrow> (None, r)
      | Some page \<Rightarrow>
          case Page_append_tuple_with_state tuple Pending page of
            (None, page) \<Rightarrow> (None, Relation_put_page block page r)
          | (Some tid, page) \<Rightarrow>
              let can_fit_more = Relation_page_can_accept_tuple r page 1;
                  r = Relation_put_page block page r;
                  r = count_tuples Pending (\<lambda>n. saturating_add n 1) (\<lambda>n. saturating_add n (length tuple)) r;
                  blocks = (if can_fit_more then insert block (rs_appendable_blocks r) else rs_appendable_blocks r - {block})
              in (Some tid, r\<lparr>rs_appendable_blocks := blocks, rs_append_hint := next_back blocks\<rparr>))"

definition recount_line :: "u32 \<Rightarrow> nat \<times> LinePointer \<Rightarrow> RelationStorage \<Rightarrow> RelationStorage" where
  "recount_line block il r =
     (case il of (index, line) \<Rightarrow>
        let r = count_tuples (lp_state line) (\<lambda>n. saturating_add n 1) (\<lambda>n. saturating_add n (unat (lp_len line))) r
        in if lp_state line = Live \<and> index + 1 < 2 ^ 16
           then r\<lparr>rs_live_tids := insert \<lparr>tid_block = block, tid_offset = of_nat (index + 1)\<rparr> (rs_live_tids r)\<rparr> else r)"

definition recount_page :: "Page option \<Rightarrow> RelationStorage \<Rightarrow> RelationStorage" where
  "recount_page po r =
     (case po of
        None \<Rightarrow> r
      | Some page \<Rightarrow>
          fold (recount_line (pg_block page)) (enumerate 0 (pg_lines page))
            (r\<lparr>rs_physical_blocks := insert (pg_block page) (rs_physical_blocks r)\<rparr>))"

definition Relation_recompute_tuple_stats :: "RelationStorage \<Rightarrow> RelationStorage" where
  "Relation_recompute_tuple_stats r =
     fold recount_page (rs_pages r)
       (r\<lparr>rs_live_tuple_count := 0, rs_pending_tuple_count := 0, rs_dead_tuple_count := 0,
          rs_live_tuple_bytes := 0, rs_pending_tuple_bytes := 0, rs_dead_tuple_bytes := 0,
          rs_live_tids := {}, rs_physical_blocks := {}\<rparr>)"

definition raised_next_block :: "RelationStorage \<Rightarrow> RelationCheckpoint \<Rightarrow> u32" where
  "raised_next_block r checkpoint =
     max (max (rs_next_block r) (rc_next_block checkpoint))
       (if length (rs_pages r) < 2 ^ 32 then of_nat (length (rs_pages r)) else - 1)"

definition Relation_restore_metadata_preserving_tid_space :: "RelationCheckpoint \<Rightarrow> RelationStorage \<Rightarrow> RelationStorage" where
  "Relation_restore_metadata_preserving_tid_space checkpoint r =
     Relation_recompute_tuple_stats (Relation_recompute_appendable_blocks
       (r\<lparr>rs_next_block := raised_next_block r checkpoint, rs_max_tuples_per_block := rc_max_tuples_per_block checkpoint\<rparr>))"

definition Relation_restore_rollback_metadata_preserving_tid_space ::
    "RelationCheckpoint \<Rightarrow> RelationStorage \<Rightarrow> RelationStorage" where
  "Relation_restore_rollback_metadata_preserving_tid_space checkpoint r =
     (let r = r\<lparr>rs_next_block := raised_next_block r checkpoint\<rparr> in
      if rs_max_tuples_per_block r \<noteq> rc_max_tuples_per_block checkpoint
      then Relation_recompute_appendable_blocks (r\<lparr>rs_max_tuples_per_block := rc_max_tuples_per_block checkpoint\<rparr>)
      else r)"

section \<open>Indexes and redirects\<close>

definition Relation_insert_index_entry :: "u32 \<Rightarrow> IndexKey \<Rightarrow> Tid \<Rightarrow> RelationStorage \<Rightarrow> RelationStorage" where
  "Relation_insert_index_entry index_relid key tid r =
     (let index = (case rs_indexes r index_relid of None \<Rightarrow> Map.empty | Some index \<Rightarrow> index);
          tids = (case index key of None \<Rightarrow> [] | Some tids \<Rightarrow> tids)
      in r\<lparr>rs_indexes := (rs_indexes r)(index_relid \<mapsto> index(key \<mapsto> if tid \<in> set tids then tids else tids @ [tid]))\<rparr>)"

definition Relation_insert_hot_redirect :: "Tid \<Rightarrow> Tid \<Rightarrow> RelationStorage \<Rightarrow> RelationStorage" where
  "Relation_insert_hot_redirect old_tid new_tid r =
     (let root_tid = (case rs_hot_redirect_target_roots r old_tid of None \<Rightarrow> old_tid | Some root_tid \<Rightarrow> root_tid);
          previous = rs_hot_redirects r old_tid;
          r = r\<lparr>rs_hot_redirects := (rs_hot_redirects r)(old_tid \<mapsto> new_tid)\<rparr>;
          r = (case previous of
                 None \<Rightarrow> r
               | Some previous_tid \<Rightarrow>
                   if previous_tid \<noteq> new_tid \<and> previous_tid \<notin> ran (rs_hot_redirects r)
                   then r\<lparr>rs_hot_redirect_targets := rs_hot_redirect_targets r - {previous_tid},
                          rs_hot_redirect_target_roots := (rs_hot_redirect_target_roots r)(previous_tid := None)\<rparr>
                   else r)
      in r\<lparr>rs_hot_redirect_roots := insert root_tid (rs_hot_redirect_roots r),
           rs_hot_redirect_targets := insert new_tid (rs_hot_redirect_targets r),
           rs_hot_redirect_target_roots := (rs_hot_redirect_target_roots r)(new_tid \<mapsto> root_tid)\<rparr>)"

definition Relation_is_hot_redirect_root :: "RelationStorage \<Rightarrow> Tid \<Rightarrow> bool" where
  "Relation_is_hot_redirect_root r tid \<longleftrightarrow> tid \<in> rs_hot_redirect_roots r"
definition Relation_is_hot_redirect_target :: "RelationStorage \<Rightarrow> Tid \<Rightarrow> bool" where
  "Relation_is_hot_redirect_target r tid \<longleftrightarrow> tid \<in> rs_hot_redirect_targets r"
definition Relation_hot_redirect_root_for_target :: "RelationStorage \<Rightarrow> Tid \<Rightarrow> Tid option" where
  "Relation_hot_redirect_root_for_target r tid = rs_hot_redirect_target_roots r tid"

definition Relation_page_count :: "RelationStorage \<Rightarrow> nat" where
  "Relation_page_count r = card (rs_physical_blocks r)"
definition Relation_block_count :: "RelationStorage \<Rightarrow> nat" where
  "Relation_block_count r = unat (rs_next_block r)"

section \<open>A relation as a map from tuple identifiers to rows\<close>

definition rel_row :: "RelationStorage \<Rightarrow> Tid \<rightharpoonup> Row" where
  "rel_row r tid = Option.bind (Relation_page r (tid_block tid)) (page_row (tid_offset tid))"

definition row_at :: "Tid \<Rightarrow> (Row \<Rightarrow> Row) \<Rightarrow> (Tid \<rightharpoonup> Row) \<Rightarrow> (Tid \<rightharpoonup> Row)" where
  "row_at tid g m = (\<lambda>t. if t = tid then map_option g (m t) else m t)"

definition state_count :: "LinePointerState \<Rightarrow> LinePointer list \<Rightarrow> nat" where
  "state_count st ls = length (filter (\<lambda>l. lp_state l = st) ls)"

definition sum_pages :: "(Page \<Rightarrow> nat) \<Rightarrow> RelationStorage \<Rightarrow> nat" where
  "sum_pages f r = sum_list (map (case_option 0 f) (rs_pages r))"

fun counted_tuples :: "LinePointerState \<Rightarrow> RelationStorage \<Rightarrow> nat \<times> nat" where
  "counted_tuples Pending r = (rs_pending_tuple_count r, rs_pending_tuple_bytes r)"
| "counted_tuples Live r = (rs_live_tuple_count r, rs_live_tuple_bytes r)"
| "counted_tuples Dead r = (rs_dead_tuple_count r, rs_dead_tuple_bytes r)"

text \<open>Each page lies at its block and is well formed, blocks are given out in order, and the pages fit
  into memory.\<close>

definition rel_pages_ok :: "RelationStorage \<Rightarrow> bool" where
  "rel_pages_ok r \<longleftrightarrow> (\<forall>block page. Relation_page r block = Some page \<longrightarrow> pg_block page = block \<and> page_ok page)
     \<and> length (rs_pages r) \<le> unat (rs_next_block r) \<and> sum_pages (\<lambda>p. length (pg_bytes p)) r \<le> usize_max"

definition rel_counts :: "RelationStorage \<Rightarrow> bool" where
  "rel_counts r \<longleftrightarrow> (\<forall>st. counted_tuples st r =
     (sum_pages (\<lambda>p. state_count st (pg_lines p)) r, sum_pages (\<lambda>p. state_bytes st (pg_lines p)) r))"

definition rel_sets :: "RelationStorage \<Rightarrow> bool" where
  "rel_sets r \<longleftrightarrow> rs_live_tids r = {tid. map_option row_state (rel_row r tid) = Some Live}
     \<and> rs_physical_blocks r = {block. Relation_page r block \<noteq> None}"

definition rel_ok :: "RelationStorage \<Rightarrow> bool" where
  "rel_ok r \<longleftrightarrow> rel_pages_ok r \<and> rel_counts r \<and> rel_sets r"

section \<open>Lemmas on pages of a relation\<close>

lemma state_count_simps [simp]:
  "state_count st [] = 0"
  "state_count st (l # ls) = (if lp_state l = st then 1 else 0) + state_count st ls"
  "state_count st (xs @ ys) = state_count st xs + state_count st ys"
  by (simp_all add: state_count_def)

lemma state_count_update:
  assumes "i < length ls"
  shows "state_count st (ls[i := l]) + (if lp_state (ls ! i) = st then 1 else 0)
     = state_count st ls + (if lp_state l = st then 1 else 0)"
proof -
  have "state_count st ls = state_count st (take i ls @ ls ! i # drop (Suc i) ls)"
    using assms by (simp only: id_take_nth_drop [symmetric])
  thus ?thesis using assms by (simp add: upd_conv_take_nth_drop)
qed

lemma line_index_inj: "line_index a = Some i \<Longrightarrow> line_index b = Some i \<Longrightarrow> a = b"
proof -
  assume "line_index a = Some i" "line_index b = Some i"
  hence "unat a - 1 = unat b - 1" "a \<noteq> 0" "b \<noteq> 0" by (auto simp: line_index_def split: if_splits)
  moreover from this have "0 < unat a" "0 < unat b" using unat_gt_0 by blast+
  ultimately have "unat a = unat b" by linarith
  thus ?thesis by (simp only: word_unat_eq_iff)
qed

lemma page_row_changed:
  assumes "Page_rows q = (case line_index off of None \<Rightarrow> Page_rows p | Some i \<Rightarrow> change_row i g (Page_rows p))"
  shows "page_row off' q = (if off' = off then map_option g (page_row off' p) else page_row off' p)"
proof (cases "line_index off")
  case None
  thus ?thesis using assms by (auto simp: page_row_def split: option.split)
next
  case (Some i)
  show ?thesis
  proof (cases "off' = off")
    case True
    thus ?thesis using Some assms by (simp add: page_row_def change_row_def vec_get_def)
  next
    case False
    hence "line_index off' \<noteq> Some i" using line_index_inj Some by blast
    thus ?thesis using False Some assms by (auto simp: page_row_def change_row_def vec_get_def split: option.split)
  qed
qed

lemma Relation_page_put:
  assumes "Relation_page r block = Some page"
  shows "Relation_page (Relation_put_page block page' r) b = (if b = block then Some page' else Relation_page r b)"
proof -
  have "unat block < length (rs_pages r)" using assms by (auto simp: Relation_page_def vec_get_def split: if_splits)
  thus ?thesis by (auto simp: Relation_page_def Relation_put_page_def vec_get_def word_unat_eq_iff)
qed

lemma rel_row_put:
  assumes "Relation_page r block = Some page"
  shows "rel_row (Relation_put_page block page' r) tid = (if tid_block tid = block then page_row (tid_offset tid) page' else rel_row r tid)"
  by (simp add: rel_row_def Relation_page_put [OF assms])

lemma sum_list_update_nat:
  fixes f :: "'a \<Rightarrow> nat"
  assumes "i < length xs"
  shows "sum_list (map f (xs[i := x])) + f (xs ! i) = sum_list (map f xs) + f x"
proof -
  have "sum_list (map f xs) = sum_list (map f (take i xs @ xs ! i # drop (Suc i) xs))"
    using assms by (simp only: id_take_nth_drop [symmetric])
  thus ?thesis using assms by (simp add: upd_conv_take_nth_drop)
qed

lemma sum_pages_put:
  assumes "Relation_page r block = Some page"
  shows "sum_pages f (Relation_put_page block page' r) + f page = sum_pages f r + f page'"
proof -
  have "unat block < length (rs_pages r)" "rs_pages r ! unat block = Some page"
    using assms by (auto simp: Relation_page_def vec_get_def split: if_splits)
  thus ?thesis using sum_list_update_nat [of "unat block" "rs_pages r" "case_option 0 f" "Some page'"]
    by (simp add: sum_pages_def Relation_put_page_def)
qed

lemma sum_pages_member:
  assumes "Relation_page r block = Some page" shows "f page \<le> sum_pages f r"
proof -
  have "Some page \<in> set (rs_pages r)" using assms by (auto simp: Relation_page_def vec_get_def in_set_conv_nth split: if_splits)
  hence "case_option 0 f (Some page) \<le> sum_list (map (case_option 0 f) (rs_pages r))"
    by (intro member_le_sum_list) (auto simp: image_iff intro: bexI [of _ "Some page"])
  thus ?thesis by (simp add: sum_pages_def)
qed

lemma Relation_page_at:
  assumes "i < length (rs_pages r)" "length (rs_pages r) \<le> 2 ^ 32"
  shows "Relation_page r (of_nat i) = rs_pages r ! i"
  using assms by (simp add: Relation_page_def vec_get_def unat_of_nat take_bit_nat_eq_self)

lemma sum_pages_mono:
  assumes "rel_pages_ok r" "\<And>p. page_ok p \<Longrightarrow> f p \<le> g p"
  shows "sum_pages f r \<le> sum_pages g r"
  unfolding sum_pages_def
proof (rule sum_list_mono)
  fix po assume "po \<in> set (rs_pages r)"
  then obtain i where i: "i < length (rs_pages r)" "po = rs_pages r ! i" by (auto simp: in_set_conv_nth)
  have "length (rs_pages r) \<le> 2 ^ 32" using assms(1) unsigned_less [of "rs_next_block r", where 'a = nat] by (simp add: rel_pages_ok_def)
  hence "Relation_page r (of_nat i) = po" using Relation_page_at i by simp
  thus "case_option 0 f po \<le> case_option 0 g po" using assms by (cases po) (auto simp: rel_pages_ok_def)
qed

lemma state_bytes_fit:
  assumes "rel_pages_ok r" shows "sum_pages (\<lambda>p. state_bytes st (pg_lines p)) r \<le> usize_max"
proof -
  have "state_bytes st (pg_lines p) \<le> length (pg_bytes p)" if "page_ok p" for p
  proof -
    have l: "page_layout p" using that by (simp add: page_ok_def)
    hence "pg_used p \<le> length (pg_bytes p)" by (simp add: page_layout_def)
    thus ?thesis using state_bytes_used [OF l, of st] by simp
  qed
  hence "sum_pages (\<lambda>p. state_bytes st (pg_lines p)) r \<le> sum_pages (\<lambda>p. length (pg_bytes p)) r"
    using assms by (intro sum_pages_mono)
  thus ?thesis using assms by (simp add: rel_pages_ok_def)
qed

lemma sum_list_le_const: "(\<And>x. x \<in> set xs \<Longrightarrow> f x \<le> c) \<Longrightarrow> sum_list (map f xs) \<le> length xs * (c :: nat)"
  by (induction xs) (auto simp: add_mono)

lemma state_count_fit:
  assumes "rel_pages_ok r" shows "sum_pages (\<lambda>p. state_count st (pg_lines p)) r \<le> usize_max"
proof -
  have "sum_pages (\<lambda>p. state_count st (pg_lines p)) r \<le> sum_pages (\<lambda>p. MAX_CTID_OFFSET) r"
    using assms by (rule sum_pages_mono)
      (auto simp: page_ok_def page_layout_def state_count_def intro: order_trans [OF length_filter_le])
  also have "\<dots> \<le> length (rs_pages r) * MAX_CTID_OFFSET"
    unfolding sum_pages_def by (rule sum_list_le_const) (auto split: option.split)
  also have "\<dots> \<le> 2 ^ 32 * MAX_CTID_OFFSET"
    using assms unsigned_less [of "rs_next_block r", where 'a = nat] by (intro mult_right_mono) (auto simp: rel_pages_ok_def)
  also have "\<dots> \<le> usize_max" by (simp add: MAX_CTID_OFFSET_def usize_max_def)
  finally show ?thesis .
qed

section \<open>Every method keeps the relation well formed\<close>

lemma pages_cong:
  assumes "rs_pages r' = rs_pages r"
  shows "Relation_page r' = Relation_page r" "rel_row r' = rel_row r" "sum_pages f r' = sum_pages f r"
proof -
  show p: "Relation_page r' = Relation_page r" using assms by (simp add: fun_eq_iff Relation_page_def)
  show "rel_row r' = rel_row r" by (simp add: fun_eq_iff rel_row_def p)
  show "sum_pages f r' = sum_pages f r" using assms by (simp add: sum_pages_def)
qed

lemma rel_ok_cong:
  assumes "rel_ok r" "rs_pages r' = rs_pages r" "unat (rs_next_block r) \<le> unat (rs_next_block r')"
    "\<And>st. counted_tuples st r' = counted_tuples st r" "rs_live_tids r' = rs_live_tids r" "rs_physical_blocks r' = rs_physical_blocks r"
  shows "rel_ok r'"
  using assms by (simp add: rel_ok_def rel_pages_ok_def rel_counts_def rel_sets_def pages_cong [OF assms(2)])

text \<open>One page is exchanged; the counters follow its lines.\<close>

lemma rel_pages_ok_put:
  assumes ok: "rel_pages_ok r" and page: "Relation_page r block = Some page"
    and page': "page_ok page'" "pg_block page' = block" "length (pg_bytes page') = length (pg_bytes page)"
    and r': "rs_pages r' = rs_pages (Relation_put_page block page' r)" "rs_next_block r' = rs_next_block r"
  shows "rel_pages_ok r'"
proof -
  note p = pages_cong [OF r'(1)] Relation_page_put [OF page] sum_pages_put [OF page]
  have sum: "sum_pages f r' + f page = sum_pages f r + f page'" for f using p by simp
  have pg: "Relation_page r' b = (if b = block then Some page' else Relation_page r b)" for b using p by simp
  have "length (rs_pages r') = length (rs_pages r)" using r'(1) by (simp add: Relation_put_page_def)
  thus ?thesis using ok page' r'(2) sum [of "\<lambda>p. length (pg_bytes p)"] by (simp add: rel_pages_ok_def pg)
qed

lemma rel_ok_put:
  assumes ok: "rel_ok r" and page: "Relation_page r block = Some page"
    and page': "page_ok page'" "pg_block page' = block" "length (pg_bytes page') = length (pg_bytes page)"
    and r': "rs_pages r' = rs_pages (Relation_put_page block page' r)" "rs_next_block r' = rs_next_block r"
      "rs_physical_blocks r' = rs_physical_blocks r"
    and counts: "\<And>st. fst (counted_tuples st r') + state_count st (pg_lines page) = fst (counted_tuples st r) + state_count st (pg_lines page')"
      "\<And>st. snd (counted_tuples st r') + state_bytes st (pg_lines page) = snd (counted_tuples st r) + state_bytes st (pg_lines page')"
    and live: "rs_live_tids r' = {tid. map_option row_state (rel_row r' tid) = Some Live}"
  shows "rel_ok r'"
proof -
  note p = pages_cong [OF r'(1)] Relation_page_put [OF page] sum_pages_put [OF page]
  have sum: "sum_pages f r' + f page = sum_pages f r + f page'" for f using p by simp
  have "rel_pages_ok r'" using ok by (intro rel_pages_ok_put [OF _ page page' r'(1,2)]) (simp add: rel_ok_def)
  moreover have "counted_tuples st r' = (sum_pages (\<lambda>p. state_count st (pg_lines p)) r', sum_pages (\<lambda>p. state_bytes st (pg_lines p)) r')" for st
  proof -
    have "fst (counted_tuples st r) = sum_pages (\<lambda>p. state_count st (pg_lines p)) r"
      "snd (counted_tuples st r) = sum_pages (\<lambda>p. state_bytes st (pg_lines p)) r"
      using ok by (simp_all add: rel_ok_def rel_counts_def)
    hence "fst (counted_tuples st r') = sum_pages (\<lambda>p. state_count st (pg_lines p)) r'"
      "snd (counted_tuples st r') = sum_pages (\<lambda>p. state_bytes st (pg_lines p)) r'"
      using counts(1) [of st] counts(2) [of st] sum [of "\<lambda>p. state_count st (pg_lines p)"] sum [of "\<lambda>p. state_bytes st (pg_lines p)"] by simp_all
    thus ?thesis by (simp add: prod_eq_iff)
  qed
  moreover have "rs_physical_blocks r' = {b. Relation_page r' b \<noteq> None}"
    using ok page r'(3) p(1) by (auto simp: rel_ok_def rel_sets_def Relation_page_put [OF page])
  ultimately show ?thesis using live by (simp add: rel_ok_def rel_counts_def rel_sets_def)
qed

lemma counted_count_tuples [simp]:
  "counted_tuples st (count_tuples st' f g r) = (if st = st' then (f (fst (counted_tuples st r)), g (snd (counted_tuples st r))) else counted_tuples st r)"
  by (cases st; cases st') auto

lemma count_tuples_rest [simp]:
  "rs_pages (count_tuples st f g r) = rs_pages r" "rs_next_block (count_tuples st f g r) = rs_next_block r"
  "rs_physical_blocks (count_tuples st f g r) = rs_physical_blocks r" "rs_live_tids (count_tuples st f g r) = rs_live_tids r"
  "rs_appendable_blocks (count_tuples st f g r) = rs_appendable_blocks r"
  by (cases st; simp)+

declare count_tuples.simps [simp del]

lemma counted_tuples_rest [simp]:
  "counted_tuples st (r\<lparr>rs_live_tids := x\<rparr>) = counted_tuples st r" "counted_tuples st (r\<lparr>rs_pages := y\<rparr>) = counted_tuples st r"
  "counted_tuples st (r\<lparr>rs_appendable_blocks := z\<rparr>) = counted_tuples st r" "counted_tuples st (r\<lparr>rs_append_hint := h\<rparr>) = counted_tuples st r"
  "counted_tuples st (r\<lparr>rs_physical_blocks := z\<rparr>) = counted_tuples st r" "counted_tuples st (r\<lparr>rs_next_block := n\<rparr>) = counted_tuples st r"
  "counted_tuples st (r\<lparr>rs_max_tuples_per_block := m\<rparr>) = counted_tuples st r"
  by (cases st; simp)+

declare counted_tuples.simps [simp del]

lemma put_page_rest [simp]:
  "rs_next_block (Relation_put_page b p r) = rs_next_block r" "rs_physical_blocks (Relation_put_page b p r) = rs_physical_blocks r"
  "rs_live_tids (Relation_put_page b p r) = rs_live_tids r" "counted_tuples st (Relation_put_page b p r) = counted_tuples st r"
  "rs_appendable_blocks (Relation_put_page b p r) = rs_appendable_blocks r"
  by (simp_all add: Relation_put_page_def)

lemma rel_okD:
  assumes "rel_ok r"
  shows "Relation_page r block = Some page \<Longrightarrow> page_ok page" "Relation_page r block = Some page \<Longrightarrow> pg_block page = block"
    "tid \<in> rs_live_tids r \<longleftrightarrow> map_option row_state (rel_row r tid) = Some Live"
    "fst (counted_tuples st r) = sum_pages (\<lambda>p. state_count st (pg_lines p)) r"
    "snd (counted_tuples st r) = sum_pages (\<lambda>p. state_bytes st (pg_lines p)) r"
  using assms by (auto simp: rel_ok_def rel_pages_ok_def rel_counts_def rel_sets_def)

lemma count_fits:
  assumes "rel_ok r" shows "fst (counted_tuples st r) \<le> usize_max" "snd (counted_tuples st r) \<le> usize_max"
  using assms state_count_fit state_bytes_fit by (auto simp: rel_ok_def rel_counts_def)

lemma set_line_counts:
  assumes "Page_line off p = Some line"
  shows "state_count s (pg_lines (set_line off f p)) + (if lp_state line = s then 1 else 0)
      = state_count s (pg_lines p) + (if lp_state (f line) = s then 1 else 0)"
    "state_bytes s (pg_lines (set_line off f p)) + (if lp_state line = s then unat (lp_len line) else 0)
      = state_bytes s (pg_lines p) + (if lp_state (f line) = s then unat (lp_len (f line)) else 0)"
proof -
  obtain i where i: "line_index off = Some i" "i < length (pg_lines p)" "pg_lines p ! i = line"
    using assms by (rule Page_line_cases)
  hence l: "pg_lines (set_line off f p) = (pg_lines p)[i := f line]" by (simp add: set_line_def)
  show "state_count s (pg_lines (set_line off f p)) + (if lp_state line = s then 1 else 0)
      = state_count s (pg_lines p) + (if lp_state (f line) = s then 1 else 0)"
    unfolding l using state_count_update [OF i(2), of s "f line"] i(3) by simp
  show "state_bytes s (pg_lines (set_line off f p)) + (if lp_state line = s then unat (lp_len line) else 0)
      = state_bytes s (pg_lines p) + (if lp_state (f line) = s then unat (lp_len (f line)) else 0)"
    using state_bytes_update [OF i(2), of s "f line"] unfolding l i(3) .
qed

lemma Page_mark_dead_line:
  assumes "Page_line off p = Some line" "lp_state line \<noteq> Dead"
  obtains q where "Page_mark_dead off p = (True, q)" "pg_lines q = pg_lines (set_line off (\<lambda>l. l\<lparr>lp_state := Dead\<rparr>) p)"
    "pg_block q = pg_block p" "pg_bytes q = pg_bytes p"
  using assms by (simp add: Page_mark_dead_def Let_def)

lemma Page_mark_live_line:
  assumes "Page_line off p = Some line" "lp_state line = Pending"
  obtains q where "Page_mark_live off p = (True, q)" "pg_lines q = pg_lines (set_line off (\<lambda>l. l\<lparr>lp_state := Live\<rparr>) p)"
    "pg_block q = pg_block p" "pg_bytes q = pg_bytes p"
  using assms by (simp add: Page_mark_live_def Let_def)

lemma row_at_same: "map_option g (m tid) = m tid \<Longrightarrow> row_at tid g m = m"
  by (auto simp: row_at_def)

lemma Relation_put_same: "Relation_page r b = Some p \<Longrightarrow> Relation_put_page b p r = r"
  by (auto simp: Relation_put_page_def Relation_page_def vec_get_def split: if_splits intro!: RelationStorage.equality)
    (metis list_update_id)

lemma line_cases [case_names none page line]:
  assumes "Relation_page r (tid_block tid) = None \<Longrightarrow> rel_row r tid = None \<Longrightarrow> thesis"
    "\<And>page. Relation_page r (tid_block tid) = Some page \<Longrightarrow> Page_line (tid_offset tid) page = None \<Longrightarrow> rel_row r tid = None \<Longrightarrow> thesis"
    "\<And>page line. Relation_page r (tid_block tid) = Some page \<Longrightarrow> Page_line (tid_offset tid) page = Some line
       \<Longrightarrow> rel_row r tid = Some (line_row (pg_bytes page) line) \<Longrightarrow> thesis"
  shows thesis
  using assms by (cases "Relation_page r (tid_block tid)"; cases "Page_line (tid_offset tid) (the (Relation_page r (tid_block tid)))")
    (auto simp: rel_row_def page_row_line)

lemma rel_row_change:
  assumes page: "Relation_page r (tid_block tid) = Some page"
    and q: "Page_rows q = (case line_index (tid_offset tid) of None \<Rightarrow> Page_rows page | Some i \<Rightarrow> change_row i g (Page_rows page))"
    and r': "rs_pages r' = rs_pages (Relation_put_page (tid_block tid) q r)"
  shows "rel_row r' = row_at tid g (rel_row r)"
proof
  fix t
  show "rel_row r' t = row_at tid g (rel_row r) t"
    using page_row_changed [OF q, of "tid_offset t"] pages_cong(2) [OF r']
    by (auto simp: row_at_def rel_row_put [OF page]) (auto simp: rel_row_def page intro: Tid.equality)
qed



text \<open>A row of one state gets another: pages, counters and the set of live rows together.\<close>

lemma rel_ok_mark:
  assumes ok: "rel_ok r" and page: "Relation_page r (tid_block tid) = Some page"
    and line: "Page_line (tid_offset tid) page = Some line" and st: "st \<noteq> lp_state line"
    and q: "page_ok q" "pg_lines q = pg_lines (set_line (tid_offset tid) (\<lambda>l. l\<lparr>lp_state := st\<rparr>) page)"
      "pg_block q = pg_block page" "pg_bytes q = pg_bytes page"
    and r': "rs_pages r' = rs_pages (Relation_put_page (tid_block tid) q r)" "rs_next_block r' = rs_next_block r"
      "rs_physical_blocks r' = rs_physical_blocks r"
    and counts: "\<And>s. counted_tuples s r' =
      (if s = lp_state line then (fst (counted_tuples s r) - 1, snd (counted_tuples s r) - unat (lp_len line))
       else if s = st then (saturating_add (fst (counted_tuples s r)) 1, saturating_add (snd (counted_tuples s r)) (unat (lp_len line)))
       else counted_tuples s r)"
    and live: "rs_live_tids r' = (if st = Live then insert tid (rs_live_tids r) else rs_live_tids r - {tid})"
  shows "rel_ok r'" "rel_row r' = row_at tid (\<lambda>row. row\<lparr>row_state := st\<rparr>) (rel_row r)"
proof -
  show row: "rel_row r' = row_at tid (\<lambda>row. row\<lparr>row_state := st\<rparr>) (rel_row r)"
    using q set_line_rows [of page "\<lambda>l. l\<lparr>lp_state := st\<rparr>" "\<lambda>row. row\<lparr>row_state := st\<rparr>" "tid_offset tid"]
    by (intro rel_row_change [OF page _ r'(1)]) (simp add: Page_rows_def)
  have rowline: "rel_row r tid = Some (line_row (pg_bytes page) line)" using page line by (simp add: rel_row_def page_row_line)
  show "rel_ok r'"
  proof (rule rel_ok_put [OF ok page q(1)])
    show "pg_block q = tid_block tid" "length (pg_bytes q) = length (pg_bytes page)" using q rel_okD(2) [OF ok page] by simp_all
    have ok': "rel_pages_ok r'" using ok q rel_okD(2) [OF ok page]
      by (intro rel_pages_ok_put [OF _ page _ _ _ r'(1,2)]) (simp_all add: rel_ok_def)
    note moved = set_line_counts [OF line, of _ "\<lambda>l. l\<lparr>lp_state := st\<rparr>", simplified, folded q(2)]
    have member: "state_count s (pg_lines page) \<le> fst (counted_tuples s r)" "state_bytes s (pg_lines page) \<le> snd (counted_tuples s r)" for s
      using sum_pages_member [OF page, of "\<lambda>p. state_count s (pg_lines p)"]
        sum_pages_member [OF page, of "\<lambda>p. state_bytes s (pg_lines p)"] rel_okD(4,5) [OF ok, of s] by simp_all
    have fit: "fst (counted_tuples s r) + state_count s (pg_lines q) \<le> usize_max + state_count s (pg_lines page)"
      "snd (counted_tuples s r) + state_bytes s (pg_lines q) \<le> usize_max + state_bytes s (pg_lines page)" for s
      using state_count_fit [OF ok', of s] state_bytes_fit [OF ok', of s] sum_pages_put [OF page, of "\<lambda>p. state_count s (pg_lines p)" q]
        sum_pages_put [OF page, of "\<lambda>p. state_bytes s (pg_lines p)" q] rel_okD(4,5) [OF ok, of s] pages_cong(3) [OF r'(1)] by simp_all
    show "fst (counted_tuples s r') + state_count s (pg_lines page) = fst (counted_tuples s r) + state_count s (pg_lines q)" for s
      using moved(1) [of s] member(1) [of s] fit(1) [of s] st by (auto simp: counts split: if_splits)
    show "snd (counted_tuples s r') + state_bytes s (pg_lines page) = snd (counted_tuples s r) + state_bytes s (pg_lines q)" for s
      using moved(2) [of s] member(2) [of s] fit(2) [of s] st by (auto simp: counts split: if_splits)
    show "rs_live_tids r' = {tid. map_option row_state (rel_row r' tid) = Some Live}"
      using rel_okD(3) [OF ok] rowline unfolding row live by (auto simp: row_at_def option.map_comp comp_def split: if_splits)
  qed (use r' in simp_all)
qed

lemma line_row_same: "lp_state line = st \<Longrightarrow> (line_row bs line)\<lparr>row_state := st\<rparr> = line_row bs line"
  by (simp add: line_row_def)

lemma row_state_line [simp]: "row_state (line_row bs line) = lp_state line"
  by (simp add: line_row_def)

lemma Relation_mark_dead_ok:
  assumes ok: "rel_ok r"
  shows "rel_ok (snd (Relation_mark_dead tid r))
    \<and> rel_row (snd (Relation_mark_dead tid r)) = row_at tid (\<lambda>row. row\<lparr>row_state := Dead\<rparr>) (rel_row r)
    \<and> fst (Relation_mark_dead tid r) = (\<exists>row. rel_row r tid = Some row \<and> row_state row \<noteq> Dead)"
proof (cases rule: line_cases [of r tid])
  case (line page l)
  show ?thesis
  proof (cases "lp_state l = Dead")
    case True
    hence "Page_mark_dead (tid_offset tid) page = (False, page)" using line by (simp add: Page_mark_dead_def)
    thus ?thesis using True line ok
      by (simp add: Relation_mark_dead_def Relation_put_same row_at_same line_row_same)
  next
    case False
    obtain q where q: "Page_mark_dead (tid_offset tid) page = (True, q)"
        "pg_lines q = pg_lines (set_line (tid_offset tid) (\<lambda>l. l\<lparr>lp_state := Dead\<rparr>) page)"
        "pg_block q = pg_block page" "pg_bytes q = pg_bytes page"
      using line(2) False by (rule Page_mark_dead_line)
    have qok: "page_ok q" using mark_dead_ok [OF rel_okD(1) [OF ok line(1)], of "tid_offset tid"] q(1) by simp
    let ?r = "Relation_put_page (tid_block tid) q r" and ?len = "unat (lp_len l)"
    let ?r' = "count_tuples (lp_state l) (\<lambda>n. n - 1) (\<lambda>n. n - ?len) ?r"
    let ?r'' = "count_tuples Dead (\<lambda>n. saturating_add n 1) (\<lambda>n. saturating_add n ?len)
      (if lp_state l = Live then ?r'\<lparr>rs_live_tids := rs_live_tids ?r' - {tid}\<rparr> else ?r')"
    have e: "Relation_mark_dead tid r = (True, ?r'')"
      using line(1,2) q(1) False by (cases "lp_state l") (simp_all add: Relation_mark_dead_def Let_def)
    have live: "rs_live_tids ?r'' = (if Dead = Live then insert tid (rs_live_tids r) else rs_live_tids r - {tid})"
      using rel_okD(3) [OF ok, of tid] line(3) by auto
    note mark = rel_ok_mark [OF ok line(1,2) False [symmetric] qok q(2-4), of ?r'']
    have c: "counted_tuples s ?r'' =
      (if s = lp_state l then (fst (counted_tuples s r) - 1, snd (counted_tuples s r) - ?len)
       else if s = Dead then (saturating_add (fst (counted_tuples s r)) 1, saturating_add (snd (counted_tuples s r)) ?len)
       else counted_tuples s r)" for s
      using False by simp
    have "rel_ok ?r''" by (rule mark(1) [OF _ _ _ c live]) simp_all
    moreover have "rel_row ?r'' = row_at tid (\<lambda>row. row\<lparr>row_state := Dead\<rparr>) (rel_row r)" by (rule mark(2) [OF _ _ _ c live]) simp_all
    ultimately show ?thesis using line(3) False unfolding e by simp
  qed
qed (use ok in \<open>simp_all add: Relation_mark_dead_def row_at_same\<close>)

lemma Relation_mark_live_ok:
  assumes ok: "rel_ok r"
  shows "rel_ok (snd (Relation_mark_live tid r))
    \<and> rel_row (snd (Relation_mark_live tid r)) =
        row_at tid (\<lambda>row. if row_state row = Pending then row\<lparr>row_state := Live\<rparr> else row) (rel_row r)
    \<and> fst (Relation_mark_live tid r) = (map_option row_state (rel_row r tid) = Some Pending)"
proof (cases rule: line_cases [of r tid])
  case (line page l)
  show ?thesis
  proof (cases "lp_state l = Pending")
    case False
    thus ?thesis using line ok by (simp add: Relation_mark_live_def row_at_same)
  next
    case True
    obtain q where q: "Page_mark_live (tid_offset tid) page = (True, q)"
        "pg_lines q = pg_lines (set_line (tid_offset tid) (\<lambda>l. l\<lparr>lp_state := Live\<rparr>) page)"
        "pg_block q = pg_block page" "pg_bytes q = pg_bytes page"
      using line(2) True by (rule Page_mark_live_line)
    have qok: "page_ok q" using mark_live_ok [OF rel_okD(1) [OF ok line(1)], of "tid_offset tid"] q(1) by simp
    let ?r = "Relation_put_page (tid_block tid) q r" and ?len = "unat (lp_len l)"
    let ?r' = "count_tuples Live (\<lambda>n. saturating_add n 1) (\<lambda>n. saturating_add n ?len)
      (count_tuples Pending (\<lambda>n. n - 1) (\<lambda>n. n - ?len) ?r)"
    let ?r'' = "?r'\<lparr>rs_live_tids := insert tid (rs_live_tids ?r')\<rparr>"
    have e: "Relation_mark_live tid r = (True, ?r'')"
      using line(1,2) q(1) True by (simp add: Relation_mark_live_def Let_def)
    have live: "rs_live_tids ?r'' = (if Live = Live then insert tid (rs_live_tids r) else rs_live_tids r - {tid})" by simp
    have ne: "Live \<noteq> lp_state l" using True by simp
    note mark = rel_ok_mark [OF ok line(1,2) ne qok q(2-4), of ?r'']
    have c: "counted_tuples s ?r'' =
      (if s = lp_state l then (fst (counted_tuples s r) - 1, snd (counted_tuples s r) - ?len)
       else if s = Live then (saturating_add (fst (counted_tuples s r)) 1, saturating_add (snd (counted_tuples s r)) ?len)
       else counted_tuples s r)" for s
      using True by simp
    have "rel_ok ?r''" by (rule mark(1) [OF _ _ _ c live]) simp_all
    moreover have "rel_row ?r'' = row_at tid (\<lambda>row. row\<lparr>row_state := Live\<rparr>) (rel_row r)" by (rule mark(2) [OF _ _ _ c live]) simp_all
    ultimately show ?thesis using line(3) True unfolding e by (auto simp: row_at_def fun_eq_iff)
  qed
qed (use ok in \<open>simp_all add: Relation_mark_live_def row_at_same\<close>)

lemma append_tuple_bytes:
  assumes "page_layout p"
  shows "length (pg_bytes (snd (Page_append_tuple_with_state tuple st p))) = length (pg_bytes p)"
    "pg_block (snd (Page_append_tuple_with_state tuple st p)) = pg_block p"
  using assms by (cases rule: append_tuple_cases [where tuple = tuple and st = st]; auto simp: appends_def)+

lemma append_tuple_counts:
  assumes "page_layout p"
  shows "state_count s (pg_lines (snd (Page_append_tuple_with_state tuple st p))) = state_count s (pg_lines p) + (if appends tuple p \<and> s = st then 1 else 0)"
    "state_bytes s (pg_lines (snd (Page_append_tuple_with_state tuple st p))) = state_bytes s (pg_lines p) + (if appends tuple p \<and> s = st then length tuple else 0)"
  using assms by (cases rule: append_tuple_cases [where tuple = tuple and st = st];
    auto simp: appends_def unat_of_nat take_bit_nat_eq_self)+

lemma page_row_append:
  assumes "Page_rows q = Page_rows p @ [row]" "length (pg_lines p) < MAX_CTID_OFFSET"
  shows "page_row off q = (if off = of_nat (Suc (length (pg_lines p))) then Some row else page_row off p)"
proof -
  have n: "unat (of_nat (Suc (length (pg_lines p))) :: u16) = Suc (length (pg_lines p))"
    using assms(2) by (simp add: unat_of_nat take_bit_nat_eq_self MAX_CTID_OFFSET_def del: of_nat_Suc)
  have len: "length (Page_rows p) = length (pg_lines p)" by (simp add: Page_rows_def)
  show ?thesis
  proof (cases "off = 0")
    case True
    hence "off \<noteq> of_nat (Suc (length (pg_lines p)))" using n by auto
    thus ?thesis using True by (simp add: page_row_def line_index_def)
  next
    case False
    hence "0 < unat off" using unat_gt_0 by blast
    moreover have "off = of_nat (Suc (length (pg_lines p))) \<longleftrightarrow> unat off = Suc (length (pg_lines p))" using n by (metis word_unat_eq_iff)
    ultimately show ?thesis using False assms(1) len by (auto simp: page_row_def line_index_def vec_get_def nth_append)
  qed
qed

lemma page_row_beyond:
  assumes "length (pg_lines p) < MAX_CTID_OFFSET"
  shows "page_row (of_nat (Suc (length (pg_lines p)))) p = None"
proof -
  have "unat (of_nat (Suc (length (pg_lines p))) :: u16) = Suc (length (pg_lines p))"
    using assms by (simp add: unat_of_nat take_bit_nat_eq_self MAX_CTID_OFFSET_def del: of_nat_Suc)
  thus ?thesis by (auto simp: page_row_def line_index_def vec_get_def Page_rows_def split: if_splits)
qed

definition rel_appends :: "u32 \<Rightarrow> u8 list \<Rightarrow> RelationStorage \<Rightarrow> bool" where
  "rel_appends block tuple r \<longleftrightarrow> (case Relation_page r block of None \<Rightarrow> False | Some page \<Rightarrow> appends tuple page)"

lemma Relation_append_pages:
  assumes "Relation_page r block = Some page"
  shows "rs_pages (snd (Relation_append_pending_tuple block tuple r)) =
      rs_pages (Relation_put_page block (snd (Page_append_tuple_with_state tuple Pending page)) r)"
    "fst (Relation_append_pending_tuple block tuple r) = fst (Page_append_tuple_with_state tuple Pending page)"
  using assms by (auto simp: Relation_append_pending_tuple_def Let_def split: prod.split option.split)

text \<open>An append either returns an identifier no row had and adds the pending row there, or leaves
  every row as it was.\<close>

lemma Relation_append_rows:
  assumes ok: "rel_pages_ok r"
  shows "case fst (Relation_append_pending_tuple block tuple r) of
      None \<Rightarrow> \<not> rel_appends block tuple r \<and> rel_row (snd (Relation_append_pending_tuple block tuple r)) = rel_row r
    | Some tid \<Rightarrow> rel_appends block tuple r \<and> tid_block tid = block \<and> rel_row r tid = None
        \<and> rel_row (snd (Relation_append_pending_tuple block tuple r)) = (rel_row r)(tid \<mapsto> new_row Pending tuple)"
proof (cases "Relation_page r block")
  case None
  thus ?thesis by (simp add: Relation_append_pending_tuple_def rel_appends_def)
next
  case (Some page)
  have l: "page_layout page" and block: "pg_block page = block" using ok Some by (simp_all add: rel_pages_ok_def page_ok_def)
  note a = Relation_append_pages [OF Some, of tuple]
  let ?q = "snd (Page_append_tuple_with_state tuple Pending page)" and ?off = "of_nat (Suc (length (pg_lines page))) :: u16"
  have row: "rel_row (snd (Relation_append_pending_tuple block tuple r)) t =
      (if tid_block t = block then page_row (tid_offset t) ?q else rel_row r t)" for t
    using pages_cong(2) [OF a(1)] rel_row_put [OF Some] by simp
  have old: "tid_block t = block \<Longrightarrow> rel_row r t = page_row (tid_offset t) page" for t using Some by (simp add: rel_row_def)
  show ?thesis
  proof (cases "appends tuple page")
    case True
    hence n: "length (pg_lines page) < MAX_CTID_OFFSET" by (simp add: appends_def Page_can_fit_def)
    have "Page_rows ?q = Page_rows page @ [new_row Pending tuple]" using append_tuple_rows [OF l] True by simp
    note new = page_row_append [OF this n]
    let ?tid = "\<lparr>tid_block = block, tid_offset = ?off\<rparr>"
    have "rel_row (snd (Relation_append_pending_tuple block tuple r)) = (rel_row r)(?tid \<mapsto> new_row Pending tuple)"
      using old by (auto simp: fun_eq_iff row new intro: Tid.equality)
    moreover have "rel_row r ?tid = None" using old [of ?tid] page_row_beyond [OF n] by simp
    ultimately show ?thesis using True Some block append_tuple_tid [OF l, of tuple Pending] by (simp add: a(2) rel_appends_def)
  next
    case False
    hence "page_row off ?q = page_row off page" for off using append_tuple_rows [OF l, of tuple Pending]
      by (simp add: page_row_def split: option.split)
    hence "rel_row (snd (Relation_append_pending_tuple block tuple r)) = rel_row r" using old by (auto simp: fun_eq_iff row)
    thus ?thesis using False Some append_tuple_tid [OF l, of tuple Pending] by (simp add: a(2) rel_appends_def)
  qed
qed

lemma Relation_append_ok:
  assumes ok: "rel_ok r"
  shows "rel_ok (snd (Relation_append_pending_tuple block tuple r))"
proof (cases "Relation_page r block")
  case None
  thus ?thesis using ok by (simp add: Relation_append_pending_tuple_def)
next
  case (Some page)
  note p = rel_okD(1,2) [OF ok Some]
  have l: "page_layout page" using p by (simp add: page_ok_def)
  let ?a = "Page_append_tuple_with_state tuple Pending page"
  let ?q = "snd ?a" and ?r = "snd (Relation_append_pending_tuple block tuple r)"
  have tid: "fst ?a \<noteq> None \<longleftrightarrow> appends tuple page" using append_tuple_tid [OF l] by simp
  have r': "rs_pages ?r = rs_pages (Relation_put_page block ?q r)" "rs_next_block ?r = rs_next_block r"
    "rs_physical_blocks ?r = rs_physical_blocks r" "rs_live_tids ?r = rs_live_tids r"
    using Some by (auto simp: Relation_append_pending_tuple_def Let_def split: prod.split option.split)
  have c: "counted_tuples s ?r = (if appends tuple page \<and> s = Pending
      then (saturating_add (fst (counted_tuples s r)) 1, saturating_add (snd (counted_tuples s r)) (length tuple)) else counted_tuples s r)" for s
    using Some tid by (auto simp: Relation_append_pending_tuple_def Let_def split: prod.split option.split)
  have q: "page_ok ?q" "pg_block ?q = block" "length (pg_bytes ?q) = length (pg_bytes page)"
    using append_tuple_ok p append_tuple_bytes [OF l] by simp_all
  have ok': "rel_pages_ok ?r" using ok by (intro rel_pages_ok_put [OF _ Some q r'(1,2)]) (simp add: rel_ok_def)
  have fit: "fst (counted_tuples s r) + state_count s (pg_lines ?q) \<le> usize_max + state_count s (pg_lines page)"
    "snd (counted_tuples s r) + state_bytes s (pg_lines ?q) \<le> usize_max + state_bytes s (pg_lines page)" for s
    using state_count_fit [OF ok', of s] state_bytes_fit [OF ok', of s] sum_pages_put [OF Some, of "\<lambda>p. state_count s (pg_lines p)" ?q]
      sum_pages_put [OF Some, of "\<lambda>p. state_bytes s (pg_lines p)" ?q] rel_okD(4,5) [OF ok, of s] pages_cong(3) [OF r'(1)] by simp_all
  have live: "map_option row_state (rel_row ?r t) = Some Live \<longleftrightarrow> map_option row_state (rel_row r t) = Some Live" for t
    using Relation_append_rows [of r block tuple] ok by (auto simp: rel_ok_def new_row_def split: option.splits)
  show ?thesis
    using fit [of Pending] append_tuple_counts [OF l, of _ tuple Pending] live r' rel_okD(3) [OF ok]
    by (intro rel_ok_put [OF ok Some q r'(1-3)]) (auto simp: c)
qed

subsection \<open>Blocks\<close>

lemma refresh_rest [simp]:
  "rs_pages (Relation_refresh_appendable_block b r) = rs_pages r" "rs_next_block (Relation_refresh_appendable_block b r) = rs_next_block r"
  "rs_physical_blocks (Relation_refresh_appendable_block b r) = rs_physical_blocks r"
  "rs_live_tids (Relation_refresh_appendable_block b r) = rs_live_tids r"
  "counted_tuples st (Relation_refresh_appendable_block b r) = counted_tuples st r"
  "rs_max_tuples_per_block (Relation_refresh_appendable_block b r) = rs_max_tuples_per_block r"
  by (simp_all add: Relation_refresh_appendable_block_def Let_def)

lemma insert_page_pages:
  "rs_pages (Relation_insert_page page r) =
    (rs_pages r @ replicate (unat (pg_block page) + 1 - length (rs_pages r)) None)[unat (pg_block page) := Some page]"
  by (simp add: Relation_insert_page_def Let_def)

lemma Relation_page_insert:
  "Relation_page (Relation_insert_page page r) block = (if block = pg_block page then Some page else Relation_page r block)"
  by (auto simp: Relation_page_def insert_page_pages vec_get_def nth_append word_unat_eq_iff)

lemma sum_list_replicate_None [simp]: "sum_list (map (case_option 0 f) (replicate n None)) = (0 :: nat)"
  by (induction n) auto

lemma sum_pages_insert:
  assumes "Relation_page r (pg_block page) = None"
  shows "sum_pages f (Relation_insert_page page r) = sum_pages f r + f page"
proof -
  let ?b = "unat (pg_block page)"
  let ?ps = "rs_pages r @ replicate (?b + 1 - length (rs_pages r)) None"
  have b: "?b < length ?ps" "?ps ! ?b = None"
    using assms by (auto simp: Relation_page_def vec_get_def nth_append split: if_splits)
  show ?thesis using sum_list_update_nat [OF b(1), of "case_option 0 f" "Some page"] unfolding b(2)
    by (simp add: sum_pages_def insert_page_pages)
qed

text \<open>A page without tuples at a free block changes no row and no counter.\<close>

lemma insert_empty_page_ok:
  assumes ok: "rel_ok r" and free: "Relation_page r (pg_block page) = None" and page: "page_ok page" "pg_lines page = []"
    and nxt: "unat (pg_block page) < unat (rs_next_block r)"
    and fit: "sum_pages (\<lambda>p. length (pg_bytes p)) (Relation_insert_page page r) \<le> usize_max"
  shows "rel_ok (Relation_insert_page page r)" "rel_row (Relation_insert_page page r) = rel_row r"
proof -
  let ?r = "Relation_insert_page page r"
  have none: "page_row off page = None" for off using page(2) by (auto simp: page_row_def Page_rows_def vec_get_def split: option.split)
  show row: "rel_row ?r = rel_row r" using free by (auto simp: fun_eq_iff rel_row_def Relation_page_insert none)
  have rest: "counted_tuples st ?r = counted_tuples st r" "rs_live_tids ?r = rs_live_tids r" "rs_next_block ?r = rs_next_block r"
    "rs_physical_blocks ?r = insert (pg_block page) (rs_physical_blocks r)" for st
    by (simp_all add: Relation_insert_page_def Let_def)
  have "length (rs_pages ?r) \<le> unat (rs_next_block ?r)"
    using ok nxt by (auto simp: insert_page_pages rest rel_ok_def rel_pages_ok_def)
  thus "rel_ok ?r" using ok page fit
    by (auto simp: rel_ok_def rel_pages_ok_def rel_counts_def rel_sets_def row rest Relation_page_insert sum_pages_insert [OF free])
qed

lemma find_accepting: "List.find P xs = Some b \<Longrightarrow> P b"
  by (auto simp: find_Some_iff)

lemma append_target_cases:
  obtains (hint) block where "Relation_append_target_block len e g r = (Some block, r)" "block_accepts r len block"
  | (found) block where "Relation_append_target_block len e g r = (Some block, r\<lparr>rs_append_hint := Some block\<rparr>)" "block_accepts r len block"
  | (exhausted) "Relation_append_target_block len e g r = (None, r)" "rs_next_block r = - 1"
  | (fresh) "rs_next_block r \<noteq> - 1" "Relation_append_target_block len e g r =
      (Some (rs_next_block r), Relation_insert_page (Page_new (rs_next_block r) e g len) (r\<lparr>rs_next_block := rs_next_block r + 1\<rparr>))"
proof (cases "case rs_append_hint r of None \<Rightarrow> False | Some block \<Rightarrow> block_accepts r len block")
  case True
  then obtain block where "rs_append_hint r = Some block" "block_accepts r len block" by (auto split: option.splits)
  thus ?thesis by (intro hint) (simp_all add: Relation_append_target_block_def)
next
  case False
  note no = False
  show ?thesis
  proof (cases "List.find (block_accepts r len) (rev (sorted_list_of_set (rs_appendable_blocks r)))")
    case (Some block)
    have "Relation_append_target_block len e g r = (Some block, r\<lparr>rs_append_hint := Some block\<rparr>)"
      unfolding Relation_append_target_block_def if_not_P [OF no] Some by simp
    thus ?thesis using find_accepting [OF Some] by (rule found)
  next
    case None
    have e: "Relation_append_target_block len e g r = (case Relation_reserve_block r of
              (None, r) \<Rightarrow> (None, r)
            | (Some block, r) \<Rightarrow> (Some block, Relation_insert_page (Page_new block e g len) r))"
      unfolding Relation_append_target_block_def if_not_P [OF no] None by simp
    show ?thesis
      by (cases "rs_next_block r = - 1") (auto simp: e Relation_reserve_block_def intro: exhausted fresh)
  qed
qed

lemma unat_Suc_next: "(n :: u32) \<noteq> - 1 \<Longrightarrow> unat (n + 1) = Suc (unat n)"
  by (metis Suc_eq_plus1 add.commute add_eq_0_iff word_unat_eq_iff unatSuc)

text \<open>Choosing a block changes no row; the block chosen takes the tuple.\<close>

lemma append_target_ok:
  assumes ok: "rel_ok r" and len: "len \<le> 2 ^ 62"
    and fit: "sum_pages (\<lambda>p. length (pg_bytes p)) (snd (Relation_append_target_block len e g r)) \<le> usize_max"
  shows "rel_ok (snd (Relation_append_target_block len e g r)) \<and> rel_row (snd (Relation_append_target_block len e g r)) = rel_row r"
proof (cases rule: append_target_cases [of len e g r])
  case (found block)
  thus ?thesis using ok by (auto intro: rel_ok_cong pages_cong(2))
next
  case fresh
  let ?r = "r\<lparr>rs_next_block := rs_next_block r + 1\<rparr>"
  have n: "unat (rs_next_block ?r) = Suc (unat (rs_next_block r))" using fresh(1) unat_Suc_next by simp
  have r: "rel_ok ?r" using ok n by (intro rel_ok_cong [OF ok]) simp_all
  have "length (rs_pages r) \<le> unat (rs_next_block r)" using ok by (simp add: rel_ok_def rel_pages_ok_def)
  hence free: "Relation_page ?r (rs_next_block r) = None" by (simp add: Relation_page_def vec_get_def)
  show ?thesis
    using insert_empty_page_ok [OF r, of "Page_new (rs_next_block r) e g len"] free Page_new_ok [OF len] n fit fresh(2)
    by (simp add: pages_cong(2) [of ?r r])
qed (use ok in simp_all)

subsection \<open>Recounting\<close>

lemma saturating_add_add: "saturating_add (saturating_add a b) c = saturating_add a (b + c)"
  by (simp add: saturating_add_def min_def)

lemma saturating_add_le [simp]: "saturating_add a b \<le> usize_max"
  by (simp add: saturating_add_def)

lemma saturating_add_0: "a \<le> usize_max \<Longrightarrow> saturating_add a 0 = a"
  by (simp add: saturating_add_def)

definition counts_bounded :: "RelationStorage \<Rightarrow> bool" where
  "counts_bounded r \<longleftrightarrow> (\<forall>st. fst (counted_tuples st r) \<le> usize_max \<and> snd (counted_tuples st r) \<le> usize_max)"

lemma recount_line_counted:
  "counted_tuples st (recount_line b (i, l) r) = (if st = lp_state l
     then (saturating_add (fst (counted_tuples st r)) 1, saturating_add (snd (counted_tuples st r)) (unat (lp_len l))) else counted_tuples st r)"
  by (simp add: recount_line_def Let_def)

lemma recount_line_rest [simp]:
  "rs_pages (recount_line b il r) = rs_pages r" "rs_next_block (recount_line b il r) = rs_next_block r"
  "rs_physical_blocks (recount_line b il r) = rs_physical_blocks r"
  by (simp_all add: recount_line_def Let_def split: prod.split)

lemma recount_line_live:
  "rs_live_tids (recount_line b (i, l) r) = rs_live_tids r \<union>
    {t. tid_block t = b \<and> lp_state l = Live \<and> i + 1 < 2 ^ 16 \<and> tid_offset t = of_nat (i + 1)}"
  by (auto simp: recount_line_def Let_def intro: Tid.equality)

lemma recount_lines:
  assumes "counts_bounded r"
  shows "counted_tuples st (fold (recount_line b) (enumerate k ls) r) =
      (saturating_add (fst (counted_tuples st r)) (state_count st ls), saturating_add (snd (counted_tuples st r)) (state_bytes st ls))"
    "rs_pages (fold (recount_line b) (enumerate k ls) r) = rs_pages r"
    "rs_next_block (fold (recount_line b) (enumerate k ls) r) = rs_next_block r"
    "rs_physical_blocks (fold (recount_line b) (enumerate k ls) r) = rs_physical_blocks r"
    "rs_live_tids (fold (recount_line b) (enumerate k ls) r) = rs_live_tids r \<union>
      {t. tid_block t = b \<and> (\<exists>i < length ls. lp_state (ls ! i) = Live \<and> k + i + 1 < 2 ^ 16 \<and> tid_offset t = of_nat (k + i + 1))}"
  using assms
proof (induction ls arbitrary: r k)
  case Nil
  { case 1 thus ?case by (simp add: counts_bounded_def saturating_add_0) }
next
  case (Cons l ls)
  have bounded: "counts_bounded r \<Longrightarrow> counts_bounded (recount_line b (k, l) r)" for r k
    by (simp add: counts_bounded_def recount_line_counted)
  { case 1 show ?case using Cons.IH(1) [OF bounded [OF 1], of "Suc k"] by (auto simp: recount_line_counted saturating_add_add) }
  { case 2 thus ?case using Cons.IH(2) [OF bounded] by simp }
  { case 3 thus ?case using Cons.IH(3) [OF bounded] by simp }
  { case 4 thus ?case using Cons.IH(4) [OF bounded] by simp }
  { case 5
    let ?P = "\<lambda>m line t. lp_state line = Live \<and> m + 1 < 2 ^ 16 \<and> tid_offset t = of_nat (m + 1)"
    have split: "(\<exists>i < length (l # ls). ?P (k + i) ((l # ls) ! i) t) \<longleftrightarrow> ?P k l t \<or> (\<exists>i < length ls. ?P (Suc k + i) (ls ! i) t)" for t
      by (auto simp: less_Suc_eq_0_disj simp del: of_nat_Suc of_nat_add)
    show ?case unfolding split enumerate_simps fold_simps Cons.IH(5) [OF bounded [OF 5]] recount_line_live by blast
  }
qed simp_all

lemma recount_page_simps:
  assumes "counts_bounded r"
  shows "counted_tuples st (recount_page po r) =
      (saturating_add (fst (counted_tuples st r)) (case_option 0 (\<lambda>p. state_count st (pg_lines p)) po),
       saturating_add (snd (counted_tuples st r)) (case_option 0 (\<lambda>p. state_bytes st (pg_lines p)) po))"
    "rs_pages (recount_page po r) = rs_pages r" "rs_next_block (recount_page po r) = rs_next_block r"
    "rs_physical_blocks (recount_page po r) = rs_physical_blocks r \<union> case_option {} (\<lambda>p. {pg_block p}) po"
    "rs_live_tids (recount_page po r) = rs_live_tids r \<union> case_option {} (\<lambda>p. {t. tid_block t = pg_block p \<and>
      (\<exists>i < length (pg_lines p). lp_state (pg_lines p ! i) = Live \<and> i + 1 < 2 ^ 16 \<and> tid_offset t = of_nat (i + 1))}) po"
proof -
  let ?r = "\<lambda>p. r\<lparr>rs_physical_blocks := insert (pg_block p) (rs_physical_blocks r)\<rparr>"
  have b: "counts_bounded (?r p)" for p using assms by (simp add: counts_bounded_def)
  note l = recount_lines [OF b, where k = 0]
  show "counted_tuples st (recount_page po r) =
      (saturating_add (fst (counted_tuples st r)) (case_option 0 (\<lambda>p. state_count st (pg_lines p)) po),
       saturating_add (snd (counted_tuples st r)) (case_option 0 (\<lambda>p. state_bytes st (pg_lines p)) po))"
    using assms by (cases po) (simp_all add: recount_page_def l counts_bounded_def saturating_add_0)
  show "rs_pages (recount_page po r) = rs_pages r" "rs_next_block (recount_page po r) = rs_next_block r"
    "rs_physical_blocks (recount_page po r) = rs_physical_blocks r \<union> case_option {} (\<lambda>p. {pg_block p}) po"
    by (cases po; simp add: recount_page_def l)+
  show "rs_live_tids (recount_page po r) = rs_live_tids r \<union> case_option {} (\<lambda>p. {t. tid_block t = pg_block p \<and>
      (\<exists>i < length (pg_lines p). lp_state (pg_lines p ! i) = Live \<and> i + 1 < 2 ^ 16 \<and> tid_offset t = of_nat (i + 1))}) po"
    by (cases po) (simp_all add: recount_page_def l)
qed


lemma recount_pages:
  assumes "counts_bounded r"
  shows "counted_tuples st (fold recount_page ps r) =
      (saturating_add (fst (counted_tuples st r)) (sum_list (map (case_option 0 (\<lambda>p. state_count st (pg_lines p))) ps)),
       saturating_add (snd (counted_tuples st r)) (sum_list (map (case_option 0 (\<lambda>p. state_bytes st (pg_lines p))) ps)))"
    "rs_pages (fold recount_page ps r) = rs_pages r" "rs_next_block (fold recount_page ps r) = rs_next_block r"
    "rs_physical_blocks (fold recount_page ps r) = rs_physical_blocks r \<union> {b. \<exists>p. Some p \<in> set ps \<and> b = pg_block p}"
    "rs_live_tids (fold recount_page ps r) = rs_live_tids r \<union> {t. \<exists>p. Some p \<in> set ps \<and> tid_block t = pg_block p \<and>
      (\<exists>i < length (pg_lines p). lp_state (pg_lines p ! i) = Live \<and> i + 1 < 2 ^ 16 \<and> tid_offset t = of_nat (i + 1))}"
  using assms
proof (induction ps arbitrary: r)
  case Nil
  { case 1 thus ?case by (simp add: counts_bounded_def saturating_add_0) }
next
  case (Cons po ps)
  note p = recount_page_simps [where po = po]
  have bounded: "counts_bounded r \<Longrightarrow> counts_bounded (recount_page po r)" for r using p(1) [of r] by (simp add: counts_bounded_def)
  { case 1 show ?case using Cons.IH(1) [OF bounded [OF 1]] p(1) [OF 1] by (simp add: saturating_add_add) }
  { case 2 show ?case using Cons.IH(2) [OF bounded [OF 2]] p(2) [OF 2] by simp }
  { case 3 show ?case using Cons.IH(3) [OF bounded [OF 3]] p(3) [OF 3] by simp }
  { case 4 show ?case using Cons.IH(4) [OF bounded [OF 4]] p(4) [OF 4] by (cases po) auto }
  { case 5 show ?case using Cons.IH(5) [OF bounded [OF 5]] p(5) [OF 5] by (cases po) auto }
qed simp_all

lemma page_live:
  assumes "page_ok p"
  shows "map_option row_state (page_row off p) = Some Live \<longleftrightarrow>
    (\<exists>i < length (pg_lines p). lp_state (pg_lines p ! i) = Live \<and> i + 1 < 2 ^ 16 \<and> off = of_nat (i + 1))"
proof
  assume "map_option row_state (page_row off p) = Some Live"
  then obtain line where line: "Page_line off p = Some line" "lp_state line = Live" by (auto simp: page_row_line)
  then obtain i where i: "line_index off = Some i" "i < length (pg_lines p)" "pg_lines p ! i = line" by (blast elim: Page_line_cases)
  hence "off \<noteq> 0" "i = unat off - 1" by (auto simp: line_index_def split: if_splits)
  hence "i + 1 = unat off" using unat_gt_0 [of off] by simp
  hence "off = of_nat (i + 1)" "i + 1 < 2 ^ 16" using unsigned_less [of off, where 'a = nat] by simp_all
  thus "\<exists>i < length (pg_lines p). lp_state (pg_lines p ! i) = Live \<and> i + 1 < 2 ^ 16 \<and> off = of_nat (i + 1)"
    using i line by blast
next
  assume "\<exists>i < length (pg_lines p). lp_state (pg_lines p ! i) = Live \<and> i + 1 < 2 ^ 16 \<and> off = of_nat (i + 1)"
  then obtain i where i: "i < length (pg_lines p)" "lp_state (pg_lines p ! i) = Live" "i + 1 < 2 ^ 16" "off = of_nat (i + 1)" by blast
  have "unat off = i + 1" using i(3,4) by (simp add: unat_of_nat take_bit_nat_eq_self del: of_nat_add of_nat_Suc)
  hence "line_index off = Some i" by (auto simp: line_index_def)
  thus "map_option row_state (page_row off p) = Some Live" using i by (simp add: page_row_line Page_line_def vec_get_def)
qed

lemma pages_set:
  assumes "rel_pages_ok r"
  shows "Some p \<in> set (rs_pages r) \<longleftrightarrow> Relation_page r (pg_block p) = Some p"
proof
  assume "Some p \<in> set (rs_pages r)"
  then obtain i where i: "i < length (rs_pages r)" "rs_pages r ! i = Some p" by (auto simp: in_set_conv_nth)
  have "length (rs_pages r) \<le> 2 ^ 32" using assms unsigned_less [of "rs_next_block r", where 'a = nat] by (simp add: rel_pages_ok_def)
  hence "Relation_page r (of_nat i) = Some p" using Relation_page_at i by simp
  thus "Relation_page r (pg_block p) = Some p" using assms by (auto simp: rel_pages_ok_def)
qed (auto simp: Relation_page_def vec_get_def in_set_conv_nth split: if_splits)

text \<open>What \<^verbatim>\<open>recompute_tuple_stats\<close> establishes from any counters and sets.\<close>

lemma recompute_tuple_stats_ok:
  assumes pages: "rel_pages_ok r" shows "rel_ok (Relation_recompute_tuple_stats r)"
proof -
  let ?z = "r\<lparr>rs_live_tuple_count := 0, rs_pending_tuple_count := 0, rs_dead_tuple_count := 0,
          rs_live_tuple_bytes := 0, rs_pending_tuple_bytes := 0, rs_dead_tuple_bytes := 0, rs_live_tids := {}, rs_physical_blocks := {}\<rparr>"
  let ?r = "Relation_recompute_tuple_stats r"
  have z: "counted_tuples st ?z = (0, 0)" for st by (cases st) (simp_all add: counted_tuples.simps)
  hence b: "counts_bounded ?z" by (simp add: counts_bounded_def)
  note f = recount_pages [OF b, where ps = "rs_pages r", folded Relation_recompute_tuple_stats_def, unfolded z]
  have p: "rs_pages ?r = rs_pages r" "rs_next_block ?r = rs_next_block r" using f(2,3) by simp_all
  note cong = pages_cong [OF p(1)]
  have counts: "rel_counts ?r"
    using f(1) state_count_fit [OF pages] state_bytes_fit [OF pages] by (simp add: rel_counts_def p(1) sum_pages_def)
  have at: "Some p \<in> set (rs_pages r) \<and> b = pg_block p \<longleftrightarrow> Relation_page r b = Some p" for p b
    using pages_set [OF pages, of p] pages by (auto simp: rel_pages_ok_def)
  have "tid \<in> rs_live_tids ?r \<longleftrightarrow> map_option row_state (rel_row ?r tid) = Some Live" for tid
  proof -
    have "tid \<in> rs_live_tids ?r \<longleftrightarrow> (\<exists>p. Relation_page r (tid_block tid) = Some p \<and> map_option row_state (page_row (tid_offset tid) p) = Some Live)"
    proof -
      have "page_ok p" if "Relation_page r b = Some p" for p b using that pages by (simp add: rel_pages_ok_def)
      hence live: "Relation_page r b = Some p \<and> map_option row_state (page_row off p) = Some Live \<longleftrightarrow> (Some p \<in> set (rs_pages r) \<and> b = pg_block p)
        \<and> (\<exists>i < length (pg_lines p). lp_state (pg_lines p ! i) = Live \<and> i + 1 < 2 ^ 16 \<and> off = of_nat (i + 1))" for p b off
        unfolding at using page_live [of p off] by blast
      show ?thesis unfolding f(5) live by simp
    qed
    thus ?thesis by (auto simp: cong rel_row_def bind_eq_Some_conv)
  qed
  moreover have "rs_physical_blocks ?r = {b. Relation_page ?r b \<noteq> None}"
    unfolding cong f(4) at by auto
  ultimately show ?thesis using pages counts p by (auto simp: rel_ok_def rel_sets_def rel_pages_ok_def cong)
qed


definition stats_cleared :: "RelationStorage \<Rightarrow> RelationStorage" where
  "stats_cleared r = r\<lparr>rs_live_tuple_count := 0, rs_pending_tuple_count := 0, rs_dead_tuple_count := 0,
     rs_live_tuple_bytes := 0, rs_pending_tuple_bytes := 0, rs_dead_tuple_bytes := 0, rs_live_tids := {}, rs_physical_blocks := {}\<rparr>"

lemma stats_cleared_count: "stats_cleared (count_tuples st f g r) = stats_cleared r"
  by (cases st) (simp_all add: stats_cleared_def count_tuples.simps)

lemma stats_cleared_recount: "stats_cleared (Relation_recompute_tuple_stats r) = stats_cleared r"
proof -
  have sets: "stats_cleared (r\<lparr>rs_live_tids := x\<rparr>) = stats_cleared r" "stats_cleared (r\<lparr>rs_physical_blocks := y\<rparr>) = stats_cleared r" for r x y
    by (simp_all add: stats_cleared_def)
  have line: "stats_cleared (recount_line b il r) = stats_cleared r" for b il r
    by (cases il) (simp add: recount_line_def Let_def sets stats_cleared_count)
  hence "stats_cleared (fold (recount_line b) ils r) = stats_cleared r" for b ils r by (induction ils arbitrary: r) simp_all
  hence "stats_cleared (recount_page po r) = stats_cleared r" for po r by (simp add: recount_page_def sets split: option.split)
  hence "stats_cleared (fold recount_page ps r) = stats_cleared r" for ps r by (induction ps arbitrary: r) simp_all
  thus ?thesis by (simp add: Relation_recompute_tuple_stats_def) (simp add: stats_cleared_def)
qed

lemma stats_equal:
  assumes "stats_cleared a = stats_cleared b" "\<And>st. counted_tuples st a = counted_tuples st b"
    "rs_live_tids a = rs_live_tids b" "rs_physical_blocks a = rs_physical_blocks b"
  shows "a = b"
  using assms(1,3,4) assms(2) [of Pending] assms(2) [of Live] assms(2) [of Dead]
  by (cases a, cases b) (simp add: stats_cleared_def counted_tuples.simps)

text \<open>The counters and sets of a well formed relation are the ones a recount finds.\<close>

lemma recompute_tuple_stats_id:
  assumes "rel_ok r" shows "Relation_recompute_tuple_stats r = r"
proof -
  let ?r = "Relation_recompute_tuple_stats r"
  have ok: "rel_ok ?r" using assms by (intro recompute_tuple_stats_ok) (simp add: rel_ok_def)
  have p: "rs_pages ?r = rs_pages r" using arg_cong [OF stats_cleared_recount [of r], of rs_pages] by (simp add: stats_cleared_def)
  note cong = pages_cong [OF p]
  have c: "rel_counts ?r" "rel_counts r" "rel_sets ?r" "rel_sets r" using assms ok by (simp_all add: rel_ok_def)
  show ?thesis
  proof (rule stats_equal)
    show "counted_tuples st ?r = counted_tuples st r" for st using c(1,2) unfolding rel_counts_def cong by simp
    show "rs_live_tids ?r = rs_live_tids r" "rs_physical_blocks ?r = rs_physical_blocks r" using c(3,4) unfolding rel_sets_def cong by simp_all
  qed (rule stats_cleared_recount)
qed

subsection \<open>Metadata\<close>

lemma line_pointer_mut_ok:
  assumes ok: "rel_ok r" and f: "\<And>l. same_place (f l) l" "\<And>l. lp_state (f l) = lp_state l"
    and g: "\<And>bs l. line_row bs (f l) = g (line_row bs l)"
  shows "rel_ok (snd (Relation_line_pointer_mut tid f r)) \<and> rel_row (snd (Relation_line_pointer_mut tid f r)) = row_at tid g (rel_row r)
    \<and> fst (Relation_line_pointer_mut tid f r) = (rel_row r tid \<noteq> None)"
proof (cases rule: line_cases [of r tid])
  case (line page l)
  let ?q = "set_line (tid_offset tid) f page" and ?r = "Relation_put_page (tid_block tid) (set_line (tid_offset tid) f page) r"
  have e: "Relation_line_pointer_mut tid f r = (True, ?r)" using line by (simp add: Relation_line_pointer_mut_def)
  have row: "rel_row ?r = row_at tid g (rel_row r)" using set_line_rows [of page f g, OF g] by (intro rel_row_change [OF line(1)]) simp_all
  have eq: "state_count s (pg_lines ?q) = state_count s (pg_lines page)" "state_bytes s (pg_lines ?q) = state_bytes s (pg_lines page)" for s
    using set_line_counts [OF line(2), of s f] f by (auto simp: same_place_def split: if_splits)
  have p: "page_ok page" "pg_block page = tid_block tid" using rel_okD(1,2) [OF ok line(1)] by simp_all
  have q: "page_ok ?q" using p eq set_line_layout [of f, OF f(1)] by (simp add: page_ok_def page_counts_def)
  have st: "row_state (g (line_row (pg_bytes page) l)) = lp_state l" using g [of "pg_bytes page" l] f(2) row_state_line by metis
  have "rs_live_tids r = {t. map_option row_state (rel_row ?r t) = Some Live}"
    using rel_okD(3) [OF ok] line(3) st by (auto simp: row row_at_def)
  thus ?thesis using rel_ok_put [OF ok line(1) q, of ?r] eq p row e line(3) by simp
qed (use ok in \<open>simp_all add: Relation_line_pointer_mut_def row_at_same\<close>)

lemma set_insert_metadata_ok:
  assumes "rel_ok r"
  shows "rel_ok (snd (Relation_set_insert_metadata tid xmin cmin r))
    \<and> rel_row (snd (Relation_set_insert_metadata tid xmin cmin r)) = row_at tid (\<lambda>row. row\<lparr>row_xmin := xmin, row_cmin := cmin\<rparr>) (rel_row r)
    \<and> fst (Relation_set_insert_metadata tid xmin cmin r) = (rel_row r tid \<noteq> None)"
  unfolding Relation_set_insert_metadata_def using assms by (intro line_pointer_mut_ok) (simp_all add: same_place_def line_row_def)

lemma set_row_xmax_ok:
  assumes "rel_ok r"
  shows "rel_ok (snd (Relation_set_row_xmax tid xmax r))
    \<and> rel_row (snd (Relation_set_row_xmax tid xmax r)) = row_at tid (\<lambda>row. row\<lparr>row_xmax := xmax\<rparr>) (rel_row r)
    \<and> fst (Relation_set_row_xmax tid xmax r) = (rel_row r tid \<noteq> None)"
  unfolding Relation_set_row_xmax_def using assms by (intro line_pointer_mut_ok) (simp_all add: same_place_def line_row_def)

lemma raised_next_block_ge: "rel_ok r \<Longrightarrow> unat (rs_next_block r) \<le> unat (raised_next_block r c)"
  unfolding raised_next_block_def word_le_nat_alt [symmetric] by (simp add: le_max_iff_disj)

lemma recompute_appendable_rest [simp]:
  "rs_pages (Relation_recompute_appendable_blocks r) = rs_pages r" "rs_next_block (Relation_recompute_appendable_blocks r) = rs_next_block r"
  "rs_physical_blocks (Relation_recompute_appendable_blocks r) = rs_physical_blocks r"
  "rs_live_tids (Relation_recompute_appendable_blocks r) = rs_live_tids r"
  "counted_tuples st (Relation_recompute_appendable_blocks r) = counted_tuples st r"
  by (simp_all add: Relation_recompute_appendable_blocks_def Let_def)

lemma restore_metadata_ok:
  assumes "rel_ok r"
  shows "rel_ok (Relation_restore_metadata_preserving_tid_space c r)"
    "rel_ok (Relation_restore_rollback_metadata_preserving_tid_space c r)"
    "rel_row (Relation_restore_rollback_metadata_preserving_tid_space c r) = rel_row r"
    "rel_ok (Relation_set_max_tuples_per_block m r)"
proof -
  let ?r = "Relation_recompute_appendable_blocks (r\<lparr>rs_next_block := raised_next_block r c, rs_max_tuples_per_block := rc_max_tuples_per_block c\<rparr>)"
  have "rel_ok ?r" using raised_next_block_ge [OF assms, of c] by (intro rel_ok_cong [OF assms]) simp_all
  thus "rel_ok (Relation_restore_metadata_preserving_tid_space c r)"
    by (simp add: Relation_restore_metadata_preserving_tid_space_def recompute_tuple_stats_id)
  show "rel_ok (Relation_restore_rollback_metadata_preserving_tid_space c r)"
    using raised_next_block_ge [OF assms, of c]
    by (intro rel_ok_cong [OF assms]) (simp_all add: Relation_restore_rollback_metadata_preserving_tid_space_def Let_def)
  show "rel_row (Relation_restore_rollback_metadata_preserving_tid_space c r) = rel_row r"
    by (intro pages_cong(2)) (simp add: Relation_restore_rollback_metadata_preserving_tid_space_def Let_def)
  show "rel_ok (Relation_set_max_tuples_per_block m r)"
    by (intro rel_ok_cong [OF assms]) (simp_all add: Relation_set_max_tuples_per_block_def)
qed

lemma redirect_index_rest:
  "rs_pages (Relation_insert_hot_redirect a b r) = rs_pages r" "rs_pages (Relation_insert_index_entry i k t r) = rs_pages r"
  "rel_ok r \<Longrightarrow> rel_ok (Relation_insert_hot_redirect a b r)" "rel_ok r \<Longrightarrow> rel_ok (Relation_insert_index_entry i k t r)"
proof -
  have c: "counted_tuples st (r\<lparr>rs_hot_redirects := x, rs_hot_redirect_roots := y, rs_hot_redirect_targets := z, rs_hot_redirect_target_roots := w\<rparr>)
    = counted_tuples st r" "counted_tuples st (r\<lparr>rs_indexes := v\<rparr>) = counted_tuples st r" for st r x y z w v
    by (cases st; simp add: counted_tuples.simps)+
  have e: "\<exists>x y z w. Relation_insert_hot_redirect a b r =
      r\<lparr>rs_hot_redirects := x, rs_hot_redirect_roots := y, rs_hot_redirect_targets := z, rs_hot_redirect_target_roots := w\<rparr>"
    unfolding Relation_insert_hot_redirect_def Let_def by (auto split: option.split intro!: RelationStorage.equality exI)
  show "rs_pages (Relation_insert_hot_redirect a b r) = rs_pages r" "rs_pages (Relation_insert_index_entry i k t r) = rs_pages r"
    using e by (auto simp: Relation_insert_index_entry_def Let_def)
  show "rel_ok (Relation_insert_hot_redirect a b r)" if "rel_ok r" using e c(1) that by (auto intro!: rel_ok_cong [OF that])
  show "rel_ok (Relation_insert_index_entry i k t r)" if "rel_ok r"
    using c(2) by (intro rel_ok_cong [OF that]) (simp_all add: Relation_insert_index_entry_def Let_def)
qed

subsection \<open>Rows without counters\<close>

text \<open>The rows and the layout do not depend on the counters: these hold also of a relation whose
  counters have drifted.\<close>

lemma changed_page:
  assumes ok: "rel_pages_ok r" and page: "Relation_page r (tid_block tid) = Some page" and q: "page_ok q" "pg_block q = pg_block page" "pg_bytes q = pg_bytes page"
    and rows: "Page_rows q = (case line_index (tid_offset tid) of None \<Rightarrow> Page_rows page | Some i \<Rightarrow> change_row i g (Page_rows page))"
    and r': "rs_pages r' = rs_pages (Relation_put_page (tid_block tid) q r)" "rs_next_block r' = rs_next_block r"
  shows "rel_pages_ok r' \<and> rel_row r' = row_at tid g (rel_row r)"
proof
  have "pg_block page = tid_block tid" using ok page by (simp add: rel_pages_ok_def)
  thus "rel_pages_ok r'" using q by (intro rel_pages_ok_put [OF ok page q(1) _ _ r']) simp_all
  show "rel_row r' = row_at tid g (rel_row r)" by (rule rel_row_change [OF page rows r'(1)])
qed

lemma absent_page: "Relation_page r (tid_block tid) = None \<Longrightarrow> row_at tid g (rel_row r) = rel_row r"
  by (rule row_at_same) (simp add: rel_row_def)

lemma mark_dead_pages:
  assumes ok: "rel_pages_ok r"
  shows "rel_pages_ok (snd (Relation_mark_dead tid r)) \<and> rel_row (snd (Relation_mark_dead tid r)) = row_at tid (\<lambda>row. row\<lparr>row_state := Dead\<rparr>) (rel_row r)"
proof (cases "Relation_page r (tid_block tid)")
  case None
  thus ?thesis using ok absent_page [OF None] by (simp add: Relation_mark_dead_def)
next
  case (Some page)
  let ?q = "snd (Page_mark_dead (tid_offset tid) page)"
  have r': "rs_pages (snd (Relation_mark_dead tid r)) = rs_pages (Relation_put_page (tid_block tid) ?q r)"
    "rs_next_block (snd (Relation_mark_dead tid r)) = rs_next_block r"
    using Relation_put_same [OF Some] by (auto simp: Relation_mark_dead_def Some Page_mark_dead_def Let_def split: option.split LinePointerState.split)
  have "pg_block ?q = pg_block page" "pg_bytes ?q = pg_bytes page" by (auto simp: Page_mark_dead_def Let_def split: option.split)
  moreover have "page_ok ?q" using ok Some by (intro mark_dead_ok) (simp add: rel_pages_ok_def)
  ultimately show ?thesis using changed_page [OF ok Some _ _ _ mark_dead_rows r'] by simp
qed

lemma mark_live_pages:
  assumes ok: "rel_pages_ok r"
  shows "rel_pages_ok (snd (Relation_mark_live tid r)) \<and> rel_row (snd (Relation_mark_live tid r)) =
    row_at tid (\<lambda>row. if row_state row = Pending then row\<lparr>row_state := Live\<rparr> else row) (rel_row r)"
proof (cases "Relation_page r (tid_block tid)")
  case None
  thus ?thesis using ok absent_page [OF None] by (simp add: Relation_mark_live_def)
next
  case (Some page)
  let ?q = "snd (Page_mark_live (tid_offset tid) page)"
  have r': "rs_pages (snd (Relation_mark_live tid r)) = rs_pages (Relation_put_page (tid_block tid) ?q r)"
    "rs_next_block (snd (Relation_mark_live tid r)) = rs_next_block r"
    using Relation_put_same [OF Some] by (auto simp: Relation_mark_live_def Some Page_mark_live_def Let_def split: option.split)
  have "pg_block ?q = pg_block page" "pg_bytes ?q = pg_bytes page" by (auto simp: Page_mark_live_def Let_def split: option.split)
  moreover have "page_ok ?q" using ok Some by (intro mark_live_ok) (simp add: rel_pages_ok_def)
  ultimately show ?thesis using changed_page [OF ok Some _ _ _ mark_live_rows r'] by simp
qed

lemma rel_pages_ok_cong:
  assumes "rel_pages_ok r" "rs_pages r' = rs_pages r" "unat (rs_next_block r) \<le> unat (rs_next_block r')"
  shows "rel_pages_ok r' \<and> rel_row r' = rel_row r"
  using assms by (simp add: rel_pages_ok_def pages_cong [OF assms(2)])

lemma rollback_metadata_pages:
  "rel_pages_ok r \<Longrightarrow> rel_pages_ok (Relation_restore_rollback_metadata_preserving_tid_space c r)
    \<and> rel_row (Relation_restore_rollback_metadata_preserving_tid_space c r) = rel_row r"
  by (rule rel_pages_ok_cong)
    (simp_all add: Relation_restore_rollback_metadata_preserving_tid_space_def Let_def raised_next_block_def word_le_nat_alt [symmetric] le_max_iff_disj)

text \<open>What reading returns, over the rows.\<close>

lemma Relation_tuple_slice_row:
  assumes "rel_pages_ok r"
  shows "Relation_tuple_slice r tid include_pending =
    (case rel_row r tid of None \<Rightarrow> None
     | Some row \<Rightarrow> if row_state row = Dead \<or> row_state row = Pending \<and> \<not> include_pending then None else Some (row_bytes row))"
proof (cases "Relation_page r (tid_block tid)")
  case (Some page)
  hence "page_layout page" using assms by (simp add: rel_pages_ok_def page_ok_def)
  thus ?thesis using Some by (simp add: Relation_tuple_slice_def rel_row_def tuple_slice_row)
qed (simp add: Relation_tuple_slice_def rel_row_def)

end
