(* ===== verification/Storage2_Overlay.thy ===== *)
theory Storage2_Overlay
  imports Storage2_Relation
begin

text \<open>
  The uncommitted changes of a transaction, src/crates/fastpg-storage2/src/transaction.rs: a stack of
  overlays, one for the transaction and one for each open subtransaction, with the rows each one
  inserted and invalidated, its own pending pages, redirects and index entries, and the relations it
  cleared. A \<^verbatim>\<open>RelidMap\<close> is the list of entries it is in the code, in the code's order. The lemmas show
  what a lookup finds after each change, and that the visibility test written for a single overlay
  agrees with the one for a stack.
\<close>

section \<open>Maps from relation identifiers\<close>

type_synonym 'v RelidMap = "(u32 \<times> 'v) list"

definition RelidMap_get :: "'v RelidMap \<Rightarrow> u32 \<Rightarrow> 'v option" where
  "RelidMap_get entries relid = map_option snd (List.find (\<lambda>(entry_relid, _). entry_relid = relid) entries)"

definition RelidMap_contains_key :: "'v RelidMap \<Rightarrow> u32 \<Rightarrow> bool" where
  "RelidMap_contains_key entries relid \<longleftrightarrow> RelidMap_get entries relid \<noteq> None"

fun RelidMap_insert :: "u32 \<Rightarrow> 'v \<Rightarrow> 'v RelidMap \<Rightarrow> 'v RelidMap" where
  "RelidMap_insert relid value [] = [(relid, value)]"
| "RelidMap_insert relid value ((entry_relid, existing) # entries) =
     (if entry_relid = relid then (entry_relid, value) # entries
      else (entry_relid, existing) # RelidMap_insert relid value entries)"

definition swap_remove :: "nat \<Rightarrow> 'a list \<Rightarrow> 'a list" where
  "swap_remove index xs = butlast (xs[index := last xs])"

text \<open>\<^verbatim>\<open>Iterator::position\<close>.\<close>

fun find_position :: "('a \<Rightarrow> bool) \<Rightarrow> 'a list \<Rightarrow> nat option" where
  "find_position P [] = None"
| "find_position P (x # xs) = (if P x then Some 0 else map_option Suc (find_position P xs))"

definition RelidMap_remove :: "u32 \<Rightarrow> 'v RelidMap \<Rightarrow> 'v RelidMap" where
  "RelidMap_remove relid entries =
     (case find_position (\<lambda>(entry_relid, _). entry_relid = relid) entries of
        None \<Rightarrow> entries
      | Some index \<Rightarrow> swap_remove index entries)"

text \<open>A change through \<^verbatim>\<open>entry(relid).or_insert(value)\<close>: the entry there is, or a new one at the end.\<close>

definition RelidMap_entry :: "u32 \<Rightarrow> 'v \<Rightarrow> ('v \<Rightarrow> 'v) \<Rightarrow> 'v RelidMap \<Rightarrow> 'v RelidMap" where
  "RelidMap_entry relid value f entries =
     RelidMap_insert relid (f (case RelidMap_get entries relid of None \<Rightarrow> value | Some existing \<Rightarrow> existing)) entries"

text \<open>A change through \<^verbatim>\<open>get_mut\<close>.\<close>

definition RelidMap_get_mut :: "u32 \<Rightarrow> ('v \<Rightarrow> 'v) \<Rightarrow> 'v RelidMap \<Rightarrow> 'v RelidMap" where
  "RelidMap_get_mut relid f entries =
     (case RelidMap_get entries relid of None \<Rightarrow> entries | Some existing \<Rightarrow> RelidMap_insert relid (f existing) entries)"

section \<open>Overlays\<close>

record DeleteMetadata =
  dm_xid :: u32
  dm_cid :: u32

type_synonym IndexInsertMap = "u32 \<rightharpoonup> (IndexKey \<rightharpoonup> Tid list)"

record TransactionOverlay =
  to_pending_pages :: "Page list RelidMap"
  to_relation_checkpoints :: "RelationCheckpoint RelidMap"
  to_page_checkpoints :: "(u32 \<times> PageCheckpoint) list RelidMap"
  to_new_pages :: "u32 list RelidMap"
  to_inserted_tids :: "Tid list RelidMap"
  to_inserted_cids :: "(Tid \<times> u32) list RelidMap"
  to_invalidated_tids :: "Tid list RelidMap"
  to_invalidated_metadata :: "(Tid \<times> DeleteMetadata) list RelidMap"
  to_hot_redirect_inserts :: "(Tid \<times> Tid) list RelidMap"
  to_update_redirect_inserts :: "(Tid \<times> Tid) list RelidMap"
  to_primary_key_inserts :: "(IndexKey \<rightharpoonup> Tid) RelidMap"
  to_primary_key_deletes :: "IndexKey set RelidMap"
  to_index_inserts :: "IndexInsertMap RelidMap"
  to_cleared_relations :: "RelationStorage RelidMap"

definition TransactionOverlay_default :: TransactionOverlay where
  "TransactionOverlay_default =
     \<lparr>to_pending_pages = [], to_relation_checkpoints = [], to_page_checkpoints = [], to_new_pages = [],
      to_inserted_tids = [], to_inserted_cids = [], to_invalidated_tids = [], to_invalidated_metadata = [],
      to_hot_redirect_inserts = [], to_update_redirect_inserts = [], to_primary_key_inserts = [],
      to_primary_key_deletes = [], to_index_inserts = [], to_cleared_relations = []\<rparr>"

text \<open>\<^verbatim>\<open>push_tid_unique\<close> and \<^verbatim>\<open>push_block_unique\<close>.\<close>

definition push_unique :: "'a \<Rightarrow> 'a list \<Rightarrow> 'a list" where
  "push_unique x xs = (if x \<in> set xs then xs else xs @ [x])"

definition upsert_page_checkpoint :: "u32 \<Rightarrow> PageCheckpoint \<Rightarrow> (u32 \<times> PageCheckpoint) list \<Rightarrow> (u32 \<times> PageCheckpoint) list" where
  "upsert_page_checkpoint block checkpoint entries =
     (if \<exists>(entry_block, _) \<in> set entries. entry_block = block then entries else entries @ [(block, checkpoint)])"

text \<open>\<^verbatim>\<open>upsert_tid_cid\<close>, \<^verbatim>\<open>upsert_tid_metadata\<close> and \<^verbatim>\<open>upsert_redirect\<close>.\<close>

fun upsert :: "Tid \<Rightarrow> 'v \<Rightarrow> (Tid \<times> 'v) list \<Rightarrow> (Tid \<times> 'v) list" where
  "upsert tid value [] = [(tid, value)]"
| "upsert tid value ((entry_tid, existing) # entries) =
     (if entry_tid = tid then (entry_tid, value) # entries else (entry_tid, existing) # upsert tid value entries)"

definition find_tid :: "Tid \<Rightarrow> (Tid \<times> 'v) list \<Rightarrow> 'v option" where
  "find_tid tid entries = map_option snd (List.find (\<lambda>(entry_tid, _). entry_tid = tid) entries)"

definition remap_tid :: "(Tid \<times> Tid) list \<Rightarrow> Tid \<Rightarrow> Tid" where
  "remap_tid remaps tid = (case find_tid tid remaps of None \<Rightarrow> tid | Some new_tid \<Rightarrow> new_tid)"

definition Overlay_is_empty :: "TransactionOverlay \<Rightarrow> bool" where
  "Overlay_is_empty t \<longleftrightarrow>
     to_pending_pages t = [] \<and> to_relation_checkpoints t = [] \<and> to_page_checkpoints t = [] \<and> to_new_pages t = []
     \<and> to_inserted_tids t = [] \<and> to_inserted_cids t = [] \<and> to_invalidated_tids t = [] \<and> to_invalidated_metadata t = []
     \<and> to_hot_redirect_inserts t = [] \<and> to_update_redirect_inserts t = [] \<and> to_primary_key_inserts t = []
     \<and> to_primary_key_deletes t = [] \<and> to_index_inserts t = [] \<and> to_cleared_relations t = []"

definition Overlay_checkpoint_relation :: "u32 \<Rightarrow> RelationStorage \<Rightarrow> TransactionOverlay \<Rightarrow> TransactionOverlay" where
  "Overlay_checkpoint_relation relid relation t =
     t\<lparr>to_relation_checkpoints := RelidMap_entry relid (Relation_checkpoint relation) id (to_relation_checkpoints t)\<rparr>"

definition Overlay_checkpoint_page :: "u32 \<Rightarrow> Page \<Rightarrow> TransactionOverlay \<Rightarrow> TransactionOverlay" where
  "Overlay_checkpoint_page relid page t =
     (if (case RelidMap_get (to_new_pages t) relid of None \<Rightarrow> False | Some blocks \<Rightarrow> pg_block page \<in> set blocks) then t
      else t\<lparr>to_page_checkpoints :=
        RelidMap_entry relid [] (upsert_page_checkpoint (pg_block page) (Page_checkpoint page)) (to_page_checkpoints t)\<rparr>)"

definition Overlay_record_new_page :: "u32 \<Rightarrow> u32 \<Rightarrow> TransactionOverlay \<Rightarrow> TransactionOverlay" where
  "Overlay_record_new_page relid block t = t\<lparr>to_new_pages := RelidMap_entry relid [] (push_unique block) (to_new_pages t)\<rparr>"

definition Overlay_insert_tid :: "u32 \<Rightarrow> Tid \<Rightarrow> TransactionOverlay \<Rightarrow> TransactionOverlay" where
  "Overlay_insert_tid relid tid t = t\<lparr>to_inserted_tids := RelidMap_entry relid [] (push_unique tid) (to_inserted_tids t)\<rparr>"

section \<open>Pending pages\<close>

text \<open>The last element of a list that satisfies a test, as \<^verbatim>\<open>iter().rev().find()\<close> finds it, and a change of it.\<close>

definition find_last :: "('a \<Rightarrow> bool) \<Rightarrow> 'a list \<Rightarrow> 'a option" where
  "find_last P xs = List.find P (rev xs)"

fun set_first :: "('a \<Rightarrow> bool) \<Rightarrow> 'a \<Rightarrow> 'a list \<Rightarrow> 'a list" where
  "set_first P y [] = []"
| "set_first P y (x # xs) = (if P x then y # xs else x # set_first P y xs)"

definition set_last :: "('a \<Rightarrow> bool) \<Rightarrow> 'a \<Rightarrow> 'a list \<Rightarrow> 'a list" where
  "set_last P y xs = rev (set_first P y (rev xs))"

definition takes_tuple :: "nat \<Rightarrow> u16 option \<Rightarrow> Page \<Rightarrow> bool" where
  "takes_tuple tuple_len max_tuples_per_block page \<longleftrightarrow>
     Page_can_fit page tuple_len
     \<and> (case max_tuples_per_block of None \<Rightarrow> True | Some m \<Rightarrow> length (pg_lines page) < unat m)"

definition Overlay_append_pending_tuple_to_existing_page ::
    "u32 \<Rightarrow> u8 list \<Rightarrow> u16 option \<Rightarrow> TransactionOverlay \<Rightarrow> Tid option \<times> TransactionOverlay" where
  "Overlay_append_pending_tuple_to_existing_page relid tuple max_tuples_per_block t =
     (case RelidMap_get (to_pending_pages t) relid of
        None \<Rightarrow> (None, t)
      | Some pages \<Rightarrow>
          let takes = takes_tuple (length tuple) max_tuples_per_block in
          case find_last takes pages of
            None \<Rightarrow> (None, t)
          | Some page \<Rightarrow>
              let (tid, page) = Page_append_tuple_with_state tuple Pending page
              in (tid, t\<lparr>to_pending_pages := RelidMap_insert relid (set_last takes page pages) (to_pending_pages t)\<rparr>))"

definition Overlay_append_pending_tuple_to_new_page ::
    "u32 \<Rightarrow> Page \<Rightarrow> u8 list \<Rightarrow> TransactionOverlay \<Rightarrow> Tid option \<times> TransactionOverlay" where
  "Overlay_append_pending_tuple_to_new_page relid page tuple t =
     (case Page_append_tuple_with_state tuple Pending page of
        (None, _) \<Rightarrow> (None, t)
      | (Some tid, page) \<Rightarrow>
          (Some tid, t\<lparr>to_pending_pages := RelidMap_entry relid [] (\<lambda>pages. pages @ [page]) (to_pending_pages t)\<rparr>))"

definition Overlay_pending_page :: "TransactionOverlay \<Rightarrow> u32 \<Rightarrow> u32 \<Rightarrow> Page option" where
  "Overlay_pending_page t relid block =
     (case RelidMap_get (to_pending_pages t) relid of
        None \<Rightarrow> None
      | Some pages \<Rightarrow> find_last (\<lambda>page. pg_block page = block) pages)"

definition Overlay_pending_tuple_slice :: "TransactionOverlay \<Rightarrow> u32 \<Rightarrow> Tid \<Rightarrow> u8 list option" where
  "Overlay_pending_tuple_slice t relid tid =
     Option.bind (Overlay_pending_page t relid (tid_block tid)) (Page_tuple_slice (tid_offset tid) True)"

definition Overlay_pending_line :: "TransactionOverlay \<Rightarrow> u32 \<Rightarrow> Tid \<Rightarrow> LinePointer option" where
  "Overlay_pending_line t relid tid = Option.bind (Overlay_pending_page t relid (tid_block tid)) (Page_line (tid_offset tid))"

definition Overlay_pending_line_pointer_state :: "TransactionOverlay \<Rightarrow> u32 \<Rightarrow> Tid \<Rightarrow> LinePointerState option" where
  "Overlay_pending_line_pointer_state t relid tid = map_option lp_state (Overlay_pending_line t relid tid)"
definition Overlay_pending_row_xmin :: "TransactionOverlay \<Rightarrow> u32 \<Rightarrow> Tid \<Rightarrow> u32 option" where
  "Overlay_pending_row_xmin t relid tid = map_option lp_xmin (Overlay_pending_line t relid tid)"
definition Overlay_pending_row_xmax :: "TransactionOverlay \<Rightarrow> u32 \<Rightarrow> Tid \<Rightarrow> u32 option" where
  "Overlay_pending_row_xmax t relid tid = map_option lp_xmax (Overlay_pending_line t relid tid)"

definition entries_of :: "'a list RelidMap \<Rightarrow> u32 \<Rightarrow> 'a list" where
  "entries_of entries relid = (case RelidMap_get entries relid of None \<Rightarrow> [] | Some xs \<Rightarrow> xs)"

definition Overlay_pending_page_needs_stable_tid :: "TransactionOverlay \<Rightarrow> u32 \<Rightarrow> u32 \<Rightarrow> bool" where
  "Overlay_pending_page_needs_stable_tid t relid block \<longleftrightarrow>
     (\<exists>(_, new_tid) \<in> set (entries_of (to_hot_redirect_inserts t) relid @ entries_of (to_update_redirect_inserts t) relid).
        tid_block new_tid = block)"

definition Overlay_set_pending_line ::
    "u32 \<Rightarrow> Tid \<Rightarrow> (LinePointer \<Rightarrow> LinePointer) \<Rightarrow> TransactionOverlay \<Rightarrow> bool \<times> TransactionOverlay" where
  "Overlay_set_pending_line relid tid f t =
     (case Overlay_pending_page t relid (tid_block tid) of
        None \<Rightarrow> (False, t)
      | Some page \<Rightarrow>
          if Page_line (tid_offset tid) page = None then (False, t)
          else (True, t\<lparr>to_pending_pages :=
            RelidMap_get_mut relid (set_last (\<lambda>page. pg_block page = tid_block tid) (set_line (tid_offset tid) f page))
              (to_pending_pages t)\<rparr>))"

definition Overlay_set_pending_insert_metadata ::
    "u32 \<Rightarrow> Tid \<Rightarrow> u32 \<Rightarrow> u32 \<Rightarrow> TransactionOverlay \<Rightarrow> bool \<times> TransactionOverlay" where
  "Overlay_set_pending_insert_metadata relid tid xmin cmin =
     Overlay_set_pending_line relid tid (\<lambda>line. line\<lparr>lp_xmin := xmin, lp_cmin := cmin\<rparr>)"

definition Overlay_set_pending_row_xmax :: "u32 \<Rightarrow> Tid \<Rightarrow> u32 \<Rightarrow> TransactionOverlay \<Rightarrow> bool \<times> TransactionOverlay" where
  "Overlay_set_pending_row_xmax relid tid xmax = Overlay_set_pending_line relid tid (\<lambda>line. line\<lparr>lp_xmax := xmax\<rparr>)"

definition raise_offset :: "Page \<Rightarrow> u16 list \<Rightarrow> u16 list" where
  "raise_offset page offsets =
     (let block = unat (pg_block page);
          offsets = (if length offsets \<le> block then offsets @ replicate (block + 1 - length offsets) 0 else offsets)
      in if length (pg_lines page) < 2 ^ 16
         then offsets[block := max (offsets ! block) (of_nat (length (pg_lines page)))] else offsets)"

definition Overlay_extend_high_water_offsets :: "TransactionOverlay \<Rightarrow> u32 \<Rightarrow> u16 list \<Rightarrow> u16 list" where
  "Overlay_extend_high_water_offsets t relid offsets = fold raise_offset (entries_of (to_pending_pages t) relid) offsets"

section \<open>Recording changes\<close>

definition Overlay_set_insert_cid :: "u32 \<Rightarrow> Tid \<Rightarrow> u32 \<Rightarrow> TransactionOverlay \<Rightarrow> TransactionOverlay" where
  "Overlay_set_insert_cid relid tid cid t =
     t\<lparr>to_inserted_cids := RelidMap_entry relid [] (upsert tid cid) (to_inserted_cids t)\<rparr>"

definition Overlay_invalidate :: "u32 \<Rightarrow> Tid \<Rightarrow> TransactionOverlay \<Rightarrow> TransactionOverlay" where
  "Overlay_invalidate relid tid t =
     t\<lparr>to_invalidated_tids := RelidMap_entry relid [] (push_unique tid) (to_invalidated_tids t)\<rparr>"

definition Overlay_set_invalidate_metadata :: "u32 \<Rightarrow> Tid \<Rightarrow> u32 \<Rightarrow> u32 \<Rightarrow> TransactionOverlay \<Rightarrow> TransactionOverlay" where
  "Overlay_set_invalidate_metadata relid tid xid cid t =
     t\<lparr>to_invalidated_metadata := RelidMap_entry relid [] (upsert tid \<lparr>dm_xid = xid, dm_cid = cid\<rparr>) (to_invalidated_metadata t)\<rparr>"

definition Overlay_insert_hot_redirect :: "u32 \<Rightarrow> Tid \<Rightarrow> Tid \<Rightarrow> TransactionOverlay \<Rightarrow> TransactionOverlay" where
  "Overlay_insert_hot_redirect relid old_tid new_tid t =
     (if old_tid \<noteq> new_tid
      then t\<lparr>to_hot_redirect_inserts := RelidMap_entry relid [] (upsert old_tid new_tid) (to_hot_redirect_inserts t)\<rparr> else t)"

definition Overlay_insert_update_redirect :: "u32 \<Rightarrow> Tid \<Rightarrow> Tid \<Rightarrow> TransactionOverlay \<Rightarrow> TransactionOverlay" where
  "Overlay_insert_update_redirect relid old_tid new_tid t =
     (if old_tid \<noteq> new_tid
      then t\<lparr>to_update_redirect_inserts := RelidMap_entry relid [] (upsert old_tid new_tid) (to_update_redirect_inserts t)\<rparr> else t)"

definition Overlay_delete_primary_key :: "u32 \<Rightarrow> IndexKey \<Rightarrow> TransactionOverlay \<Rightarrow> TransactionOverlay" where
  "Overlay_delete_primary_key relid key t =
     t\<lparr>to_primary_key_deletes := RelidMap_entry relid {} (insert key) (to_primary_key_deletes t)\<rparr>"

definition Overlay_insert_primary_key :: "u32 \<Rightarrow> IndexKey \<Rightarrow> Tid \<Rightarrow> TransactionOverlay \<Rightarrow> TransactionOverlay" where
  "Overlay_insert_primary_key relid key tid t =
     t\<lparr>to_primary_key_inserts := RelidMap_entry relid Map.empty (\<lambda>m. m(key \<mapsto> tid)) (to_primary_key_inserts t)\<rparr>"

definition index_entry :: "u32 \<Rightarrow> IndexKey \<Rightarrow> (Tid list \<Rightarrow> Tid list) \<Rightarrow> IndexInsertMap \<Rightarrow> IndexInsertMap" where
  "index_entry index_relid key f m =
     (let entries = (case m index_relid of None \<Rightarrow> Map.empty | Some entries \<Rightarrow> entries);
          tids = (case entries key of None \<Rightarrow> [] | Some tids \<Rightarrow> tids)
      in m(index_relid \<mapsto> entries(key \<mapsto> f tids)))"

definition Overlay_insert_index_entry :: "u32 \<Rightarrow> u32 \<Rightarrow> IndexKey \<Rightarrow> Tid \<Rightarrow> TransactionOverlay \<Rightarrow> TransactionOverlay" where
  "Overlay_insert_index_entry relid index_relid key tid t =
     t\<lparr>to_index_inserts := RelidMap_entry relid Map.empty (index_entry index_relid key (push_unique tid)) (to_index_inserts t)\<rparr>"

definition Overlay_remove_primary_key_insert :: "u32 \<Rightarrow> IndexKey \<Rightarrow> TransactionOverlay \<Rightarrow> TransactionOverlay" where
  "Overlay_remove_primary_key_insert relid key t =
     (case RelidMap_get (to_primary_key_inserts t) relid of
        None \<Rightarrow> t
      | Some entries \<Rightarrow>
          let entries = entries(key := None) in
          t\<lparr>to_primary_key_inserts :=
            (if dom entries = {} then RelidMap_remove relid (to_primary_key_inserts t)
             else RelidMap_insert relid entries (to_primary_key_inserts t))\<rparr>)"

section \<open>Looking changes up\<close>

definition Overlay_contains_inserted_tid :: "TransactionOverlay \<Rightarrow> u32 \<Rightarrow> Tid \<Rightarrow> bool" where
  "Overlay_contains_inserted_tid t relid tid \<longleftrightarrow>
     (case RelidMap_get (to_inserted_tids t) relid of None \<Rightarrow> False | Some tids \<Rightarrow> tid \<in> set tids)"

definition Overlay_contains_invalidated_tid :: "TransactionOverlay \<Rightarrow> u32 \<Rightarrow> Tid \<Rightarrow> bool" where
  "Overlay_contains_invalidated_tid t relid tid \<longleftrightarrow>
     (case RelidMap_get (to_invalidated_tids t) relid of None \<Rightarrow> False | Some tids \<Rightarrow> tid \<in> set tids)"

definition Overlay_inserted_cid :: "TransactionOverlay \<Rightarrow> u32 \<Rightarrow> Tid \<Rightarrow> u32 option" where
  "Overlay_inserted_cid t relid tid =
     (if \<not> Overlay_contains_inserted_tid t relid tid then None
      else Some (case Option.bind (RelidMap_get (to_inserted_cids t) relid) (find_tid tid) of None \<Rightarrow> 0 | Some cid \<Rightarrow> cid))"

definition Overlay_invalidated_cid :: "TransactionOverlay \<Rightarrow> u32 \<Rightarrow> Tid \<Rightarrow> u32 option" where
  "Overlay_invalidated_cid t relid tid =
     (if \<not> Overlay_contains_invalidated_tid t relid tid then None
      else Some (case Option.bind (RelidMap_get (to_invalidated_metadata t) relid) (find_tid tid) of
                   None \<Rightarrow> 0 | Some metadata \<Rightarrow> dm_cid metadata))"

definition Overlay_cleared :: "TransactionOverlay \<Rightarrow> u32 \<Rightarrow> bool" where
  "Overlay_cleared t relid \<longleftrightarrow> RelidMap_contains_key (to_cleared_relations t) relid"

definition unwrap_or_default :: "u32 option \<Rightarrow> u32" where
  "unwrap_or_default c = (case c of None \<Rightarrow> 0 | Some c \<Rightarrow> c)"

definition is_some_and :: "'a option \<Rightarrow> ('a \<Rightarrow> bool) \<Rightarrow> bool" where
  "is_some_and x P \<longleftrightarrow> (case x of None \<Rightarrow> False | Some x \<Rightarrow> P x)"

definition insert_shadows_invalidation :: "u32 \<Rightarrow> u32 option \<Rightarrow> bool" where
  "insert_shadows_invalidation insert_cid invalidated_cid \<longleftrightarrow>
     (let invalidated_cid = unwrap_or_default invalidated_cid
      in insert_cid > invalidated_cid \<or> (insert_cid = 0 \<and> invalidated_cid = 0))"

definition Overlay_clear_insert_shadows_invalidation :: "TransactionOverlay \<Rightarrow> u32 \<Rightarrow> Tid \<Rightarrow> bool" where
  "Overlay_clear_insert_shadows_invalidation t relid tid \<longleftrightarrow>
     Overlay_cleared t relid
     \<and> is_some_and (Overlay_inserted_cid t relid tid) (\<lambda>insert_cid.
         insert_shadows_invalidation insert_cid (Overlay_invalidated_cid t relid tid))"

definition Overlay_has_visibility_deltas :: "TransactionOverlay \<Rightarrow> u32 \<Rightarrow> bool" where
  "Overlay_has_visibility_deltas t relid \<longleftrightarrow>
     entries_of (to_inserted_tids t) relid \<noteq> [] \<or> entries_of (to_invalidated_tids t) relid \<noteq> []"

section \<open>Clearing, merging and remapping\<close>

definition Overlay_restore_relation_snapshot :: "TransactionOverlay \<Rightarrow> u32 \<Rightarrow> RelationStorage \<Rightarrow> RelationStorage" where
  "Overlay_restore_relation_snapshot t relid relation =
     (let relation = fold Relation_mark_page_dead (entries_of (to_new_pages t) relid) relation;
          relation = fold (\<lambda>(block, checkpoint) r.
                        case Relation_page r block of
                          None \<Rightarrow> r
                        | Some page \<Rightarrow> Relation_put_page block (Page_restore_to_preserving_tid_space checkpoint page) r)
                       (entries_of (to_page_checkpoints t) relid) relation
      in case RelidMap_get (to_relation_checkpoints t) relid of
           None \<Rightarrow> relation
         | Some checkpoint \<Rightarrow> Relation_restore_metadata_preserving_tid_space checkpoint relation)"

text \<open>What both \<^verbatim>\<open>record_relation_clear\<close> and \<^verbatim>\<open>append_from\<close> do for a cleared relation.\<close>

definition Overlay_record_relation_clear :: "u32 \<Rightarrow> RelationStorage \<Rightarrow> TransactionOverlay \<Rightarrow> TransactionOverlay" where
  "Overlay_record_relation_clear relid relation t =
     (let t = t\<lparr>to_pending_pages := RelidMap_remove relid (to_pending_pages t),
                to_inserted_tids := RelidMap_remove relid (to_inserted_tids t),
                to_inserted_cids := RelidMap_remove relid (to_inserted_cids t),
                to_primary_key_inserts := RelidMap_remove relid (to_primary_key_inserts t),
                to_index_inserts := RelidMap_remove relid (to_index_inserts t)\<rparr>
      in if RelidMap_contains_key (to_cleared_relations t) relid then t
         else t\<lparr>to_cleared_relations :=
           RelidMap_insert relid (Overlay_restore_relation_snapshot t relid relation) (to_cleared_relations t)\<rparr>)"

definition merge_index :: "IndexInsertMap \<Rightarrow> IndexInsertMap \<Rightarrow> IndexInsertMap" where
  "merge_index index_maps target =
     (\<lambda>index_relid. case index_maps index_relid of
        None \<Rightarrow> target index_relid
      | Some entries \<Rightarrow>
          let target_entries = (case target index_relid of None \<Rightarrow> Map.empty | Some target_entries \<Rightarrow> target_entries) in
          Some (\<lambda>key. case entries key of
            None \<Rightarrow> target_entries key
          | Some tids \<Rightarrow> Some (fold push_unique tids (case target_entries key of None \<Rightarrow> [] | Some target_tids \<Rightarrow> target_tids))))"

text \<open>One field of the overlay merged into that of another, entry by entry.\<close>

definition merge_field :: "'v \<Rightarrow> (u32 \<Rightarrow> 'w \<Rightarrow> 'v \<Rightarrow> 'v) \<Rightarrow> 'w RelidMap \<Rightarrow> 'v RelidMap \<Rightarrow> 'v RelidMap" where
  "merge_field value f other = fold (\<lambda>(relid, x). RelidMap_entry relid value (f relid x)) other"

definition Overlay_append_from :: "TransactionOverlay \<Rightarrow> TransactionOverlay \<Rightarrow> TransactionOverlay" where
  "Overlay_append_from other t =
     (let t = fold (\<lambda>(relid, relation). Overlay_record_relation_clear relid relation) (to_cleared_relations other) t in
      t\<lparr>to_pending_pages := merge_field [] (\<lambda>_ pages target. target @ pages) (to_pending_pages other) (to_pending_pages t),
        to_relation_checkpoints :=
          fold (\<lambda>(relid, checkpoint). RelidMap_entry relid checkpoint id) (to_relation_checkpoints other) (to_relation_checkpoints t),
        to_page_checkpoints :=
          merge_field [] (\<lambda>relid checkpoints target.
              fold (\<lambda>(block, checkpoint). upsert_page_checkpoint block checkpoint)
                (filter (\<lambda>(block, _). block \<notin> set (entries_of (to_new_pages t) relid)) checkpoints) target)
            (to_page_checkpoints other) (to_page_checkpoints t),
        to_new_pages := merge_field [] (\<lambda>_. fold push_unique) (to_new_pages other) (to_new_pages t),
        to_inserted_tids := merge_field [] (\<lambda>_. fold push_unique) (to_inserted_tids other) (to_inserted_tids t),
        to_invalidated_tids := merge_field [] (\<lambda>_. fold push_unique) (to_invalidated_tids other) (to_invalidated_tids t),
        to_inserted_cids := merge_field [] (\<lambda>_. fold (\<lambda>(tid, cid). upsert tid cid)) (to_inserted_cids other) (to_inserted_cids t),
        to_invalidated_metadata :=
          merge_field [] (\<lambda>_. fold (\<lambda>(tid, metadata). upsert tid metadata)) (to_invalidated_metadata other) (to_invalidated_metadata t),
        to_hot_redirect_inserts :=
          merge_field [] (\<lambda>_. fold (\<lambda>(old_tid, new_tid). upsert old_tid new_tid))
            (to_hot_redirect_inserts other) (to_hot_redirect_inserts t),
        to_update_redirect_inserts :=
          merge_field [] (\<lambda>_. fold (\<lambda>(old_tid, new_tid). upsert old_tid new_tid))
            (to_update_redirect_inserts other) (to_update_redirect_inserts t),
        to_primary_key_deletes := merge_field {} (\<lambda>_ keys target. target \<union> keys) (to_primary_key_deletes other) (to_primary_key_deletes t),
        to_primary_key_inserts :=
          merge_field Map.empty (\<lambda>_ entries target. target ++ entries) (to_primary_key_inserts other) (to_primary_key_inserts t),
        to_index_inserts := merge_field Map.empty (\<lambda>_. merge_index) (to_index_inserts other) (to_index_inserts t)\<rparr>)"

definition Overlay_remap_tids :: "u32 \<Rightarrow> (Tid \<times> Tid) list \<Rightarrow> TransactionOverlay \<Rightarrow> TransactionOverlay" where
  "Overlay_remap_tids relid remaps t =
     (if remaps = [] then t
      else
        let re = remap_tid remaps in
        t\<lparr>to_inserted_tids := RelidMap_get_mut relid (map re) (to_inserted_tids t),
          to_inserted_cids := RelidMap_get_mut relid (map (apfst re)) (to_inserted_cids t),
          to_invalidated_tids := RelidMap_get_mut relid (map re) (to_invalidated_tids t),
          to_invalidated_metadata := RelidMap_get_mut relid (map (apfst re)) (to_invalidated_metadata t),
          to_hot_redirect_inserts := RelidMap_get_mut relid (map (map_prod re re)) (to_hot_redirect_inserts t),
          to_update_redirect_inserts := RelidMap_get_mut relid (map (map_prod re re)) (to_update_redirect_inserts t),
          to_primary_key_inserts := RelidMap_get_mut relid (\<lambda>m. map_option re \<circ> m) (to_primary_key_inserts t),
          to_index_inserts := RelidMap_get_mut relid (\<lambda>m. map_option (\<lambda>e. map_option (map re) \<circ> e) \<circ> m) (to_index_inserts t)\<rparr>)"

section \<open>Stacks of overlays\<close>

text \<open>A stack is a list with the newest overlay last; the loops walk it from there.\<close>

fun own_inserted :: "TransactionOverlay list \<Rightarrow> u32 \<Rightarrow> Tid \<Rightarrow> bool" where
  "own_inserted [] relid tid = False"
| "own_inserted (t # ts) relid tid =
     (if Overlay_contains_inserted_tid t relid tid then True
      else if Overlay_cleared t relid then False
      else own_inserted ts relid tid)"

definition overlays_own_inserted_tid :: "TransactionOverlay list \<Rightarrow> u32 \<Rightarrow> Tid \<Rightarrow> bool" where
  "overlays_own_inserted_tid overlays = own_inserted (rev overlays)"

fun clear_tid :: "TransactionOverlay list \<Rightarrow> u32 \<Rightarrow> Tid \<Rightarrow> bool" where
  "clear_tid [] relid tid = False"
| "clear_tid (t # ts) relid tid =
     (if Overlay_contains_inserted_tid t relid tid then False
      else if Overlay_cleared t relid then True
      else clear_tid ts relid tid)"

definition overlays_clear_tid :: "TransactionOverlay list \<Rightarrow> u32 \<Rightarrow> Tid \<Rightarrow> bool" where
  "overlays_clear_tid overlays = clear_tid (rev overlays)"

text \<open>\<^verbatim>\<open>iter().rev().find_map()\<close>.\<close>

fun find_map :: "('a \<Rightarrow> 'b option) \<Rightarrow> 'a list \<Rightarrow> 'b option" where
  "find_map f [] = None"
| "find_map f (x # xs) = (case f x of None \<Rightarrow> find_map f xs | Some y \<Rightarrow> Some y)"

definition overlay_inserted_cid :: "TransactionOverlay list \<Rightarrow> u32 \<Rightarrow> Tid \<Rightarrow> u32 option" where
  "overlay_inserted_cid overlays relid tid = find_map (\<lambda>t. Overlay_inserted_cid t relid tid) (rev overlays)"

definition overlays_own_inserted_tid_before :: "TransactionOverlay list \<Rightarrow> u32 \<Rightarrow> Tid \<Rightarrow> u32 \<Rightarrow> bool" where
  "overlays_own_inserted_tid_before overlays relid tid curcid \<longleftrightarrow>
     is_some_and (overlay_inserted_cid overlays relid tid) (\<lambda>cid. cid < curcid)"

text \<open>The loop of both \<^verbatim>\<open>overlays_invalidate_tid\<close> and \<^verbatim>\<open>overlays_invalidate_tid_before\<close>, which looks only
  at the command identifiers that satisfy a test.\<close>

fun invalidate_tid :: "(u32 \<Rightarrow> bool) \<Rightarrow> TransactionOverlay list \<Rightarrow> u32 \<Rightarrow> Tid \<Rightarrow> u32 option \<Rightarrow> bool" where
  "invalidate_tid before [] relid tid later_insert_cid = False"
| "invalidate_tid before (t # ts) relid tid later_insert_cid =
     (let later_insert_cid =
        (case Overlay_inserted_cid t relid tid of
           None \<Rightarrow> later_insert_cid
         | Some insert_cid \<Rightarrow> if before insert_cid then Some insert_cid else later_insert_cid)
      in case Overlay_invalidated_cid t relid tid of
           None \<Rightarrow> invalidate_tid before ts relid tid later_insert_cid
         | Some invalidated_cid \<Rightarrow>
             if before invalidated_cid
             then \<not> (Overlay_cleared t relid
                     \<and> is_some_and later_insert_cid (\<lambda>insert_cid. insert_shadows_invalidation insert_cid (Some invalidated_cid)))
             else invalidate_tid before ts relid tid later_insert_cid)"

definition overlays_invalidate_tid :: "TransactionOverlay list \<Rightarrow> u32 \<Rightarrow> Tid \<Rightarrow> bool" where
  "overlays_invalidate_tid overlays relid tid = invalidate_tid (\<lambda>_. True) (rev overlays) relid tid None"

definition overlays_invalidate_tid_before :: "TransactionOverlay list \<Rightarrow> u32 \<Rightarrow> Tid \<Rightarrow> u32 \<Rightarrow> bool" where
  "overlays_invalidate_tid_before overlays relid tid curcid = invalidate_tid (\<lambda>cid. cid < curcid) (rev overlays) relid tid None"

definition overlay_tid_redirect :: "TransactionOverlay list \<Rightarrow> u32 \<Rightarrow> Tid \<Rightarrow> Tid option" where
  "overlay_tid_redirect overlays relid tid =
     find_map (\<lambda>t. Option.bind (RelidMap_get (to_hot_redirect_inserts t) relid) (find_tid tid)) (rev overlays)"

definition overlay_update_redirect :: "TransactionOverlay list \<Rightarrow> u32 \<Rightarrow> Tid \<Rightarrow> Tid option" where
  "overlay_update_redirect overlays relid tid =
     find_map (\<lambda>t. Option.bind (RelidMap_get (to_update_redirect_inserts t) relid) (find_tid tid)) (rev overlays)"

definition overlay_tid_redirect_target :: "TransactionOverlay list \<Rightarrow> u32 \<Rightarrow> Tid \<Rightarrow> bool" where
  "overlay_tid_redirect_target overlays relid tid \<longleftrightarrow>
     (\<exists>t \<in> set overlays. \<exists>(_, next_tid) \<in> set (entries_of (to_hot_redirect_inserts t) relid). next_tid = tid)"

definition overlay_redirect_source :: "TransactionOverlay list \<Rightarrow> u32 \<Rightarrow> Tid \<Rightarrow> Tid option" where
  "overlay_redirect_source overlays relid tid =
     find_map (\<lambda>t. map_option fst (List.find (\<lambda>(_, next_tid). next_tid = tid) (entries_of (to_hot_redirect_inserts t) relid)))
       (rev overlays)"

fun walk_back :: "nat \<Rightarrow> (Tid \<Rightarrow> Tid option) \<Rightarrow> Tid \<Rightarrow> Tid" where
  "walk_back 0 source root_tid = root_tid"
| "walk_back (Suc n) source root_tid =
     (case source root_tid of None \<Rightarrow> root_tid | Some previous \<Rightarrow> walk_back n source previous)"

definition overlay_tid_redirect_root_for_target :: "TransactionOverlay list \<Rightarrow> u32 \<Rightarrow> Tid \<Rightarrow> Tid option" where
  "overlay_tid_redirect_root_for_target overlays relid tid =
     (if \<not> overlay_tid_redirect_target overlays relid tid then None
      else
        let root_tid = walk_back 1000000 (overlay_redirect_source overlays relid) tid
        in if root_tid \<noteq> tid then Some root_tid else None)"

fun pending_slice :: "TransactionOverlay list \<Rightarrow> u32 \<Rightarrow> Tid \<Rightarrow> u8 list option" where
  "pending_slice [] relid tid = None"
| "pending_slice (t # ts) relid tid =
     (case Overlay_pending_tuple_slice t relid tid of
        Some tuple \<Rightarrow> Some tuple
      | None \<Rightarrow> if Overlay_cleared t relid then None else pending_slice ts relid tid)"

definition overlay_pending_tuple_slice :: "TransactionOverlay list \<Rightarrow> u32 \<Rightarrow> Tid \<Rightarrow> u8 list option" where
  "overlay_pending_tuple_slice overlays = pending_slice (rev overlays)"

definition single_overlay_tid_visibility :: "TransactionOverlay \<Rightarrow> u32 \<Rightarrow> Tid \<Rightarrow> u32 option \<Rightarrow> bool option" where
  "single_overlay_tid_visibility t relid tid curcid =
     (let relation_cleared = Overlay_cleared t relid;
          inserted = Overlay_contains_inserted_tid t relid tid;
          invalidated = Overlay_contains_invalidated_tid t relid tid
      in if curcid = None \<and> \<not> relation_cleared then (if invalidated then None else Some inserted)
         else
           let inserted_cid = (if inserted then Some (unwrap_or_default (Overlay_inserted_cid t relid tid)) else None);
               invalidated_cid = (if invalidated then Some (unwrap_or_default (Overlay_invalidated_cid t relid tid)) else None)
           in case curcid of
                Some curcid \<Rightarrow>
                  if is_some_and invalidated_cid (\<lambda>cid. cid < curcid)
                     \<and> \<not> (relation_cleared
                          \<and> is_some_and inserted_cid (\<lambda>cid. cid < curcid \<and> insert_shadows_invalidation cid invalidated_cid))
                  then None
                  else
                    let include_pending = is_some_and inserted_cid (\<lambda>cid. cid < curcid) in
                    if inserted_cid \<noteq> None \<and> \<not> include_pending then None
                    else if \<not> include_pending \<and> relation_cleared then None
                    else Some include_pending
              | None \<Rightarrow>
                  if invalidated_cid \<noteq> None
                     \<and> \<not> (relation_cleared \<and> is_some_and inserted_cid (\<lambda>cid. insert_shadows_invalidation cid invalidated_cid))
                  then None
                  else if inserted_cid = None \<and> relation_cleared then None
                  else Some (inserted_cid \<noteq> None))"

definition single_overlay_visible_pending_tuple_slice :: "TransactionOverlay \<Rightarrow> u32 \<Rightarrow> Tid \<Rightarrow> u32 option \<Rightarrow> u8 list option" where
  "single_overlay_visible_pending_tuple_slice t relid tid curcid =
     (if single_overlay_tid_visibility t relid tid curcid = Some True then Overlay_pending_tuple_slice t relid tid else None)"

definition overlay_pending_line_pointer_state :: "TransactionOverlay list \<Rightarrow> u32 \<Rightarrow> Tid \<Rightarrow> LinePointerState option" where
  "overlay_pending_line_pointer_state overlays relid tid =
     find_map (\<lambda>t. Overlay_pending_line_pointer_state t relid tid) (rev overlays)"
definition overlay_pending_row_xmin :: "TransactionOverlay list \<Rightarrow> u32 \<Rightarrow> Tid \<Rightarrow> u32 option" where
  "overlay_pending_row_xmin overlays relid tid = find_map (\<lambda>t. Overlay_pending_row_xmin t relid tid) (rev overlays)"
definition overlay_pending_row_xmax :: "TransactionOverlay list \<Rightarrow> u32 \<Rightarrow> Tid \<Rightarrow> u32 option" where
  "overlay_pending_row_xmax overlays relid tid = find_map (\<lambda>t. Overlay_pending_row_xmax t relid tid) (rev overlays)"

section \<open>Sessions\<close>

record ScanCursor =
  sc_block :: u32
  sc_offset :: u16

record ScanState =
  sn_relid :: u32
  sn_high_water_offsets :: "u16 list"
  sn_forward_cursor :: ScanCursor
  sn_backward_cursor :: ScanCursor
  sn_forward_exhausted :: bool
  sn_backward_exhausted :: bool
  sn_has_visibility_deltas :: bool
  sn_overlay_only :: bool
  sn_snapshot_curcid :: "u32 option"

record SessionStorage =
  ss_transaction_stack :: "TransactionOverlay list"
  ss_explicit_transaction :: bool
  ss_scans :: "ScanState option list"

definition Session_ensure_transaction :: "SessionStorage \<Rightarrow> SessionStorage" where
  "Session_ensure_transaction s =
     (if ss_transaction_stack s = [] then s\<lparr>ss_transaction_stack := [TransactionOverlay_default]\<rparr> else s)"

definition Session_commit_empty_implicit_transaction :: "SessionStorage \<Rightarrow> bool \<times> SessionStorage" where
  "Session_commit_empty_implicit_transaction s =
     (if ss_explicit_transaction s then (True, s)
      else if ss_transaction_stack s = [] then (True, s)
      else if Overlay_is_empty (last (ss_transaction_stack s)) then (True, s\<lparr>ss_transaction_stack := butlast (ss_transaction_stack s)\<rparr>)
      else (False, s))"

definition Session_abort_empty_implicit_transaction :: "SessionStorage \<Rightarrow> bool \<times> SessionStorage" where
  "Session_abort_empty_implicit_transaction s =
     (if ss_explicit_transaction s then (True, s)
      else if \<exists>overlay \<in> set (ss_transaction_stack s). \<not> Overlay_is_empty overlay then (False, s)
      else (True, s\<lparr>ss_transaction_stack := []\<rparr>))"

definition Session_mark_scans_visibility_delta :: "u32 \<Rightarrow> SessionStorage \<Rightarrow> SessionStorage" where
  "Session_mark_scans_visibility_delta relid s =
     s\<lparr>ss_scans := map (map_option (\<lambda>scan. if sn_relid scan = relid then scan\<lparr>sn_has_visibility_deltas := True\<rparr> else scan)) (ss_scans s)\<rparr>"

definition Session_owns_inserted_tid :: "SessionStorage \<Rightarrow> u32 \<Rightarrow> Tid \<Rightarrow> bool" where
  "Session_owns_inserted_tid s = overlays_own_inserted_tid (ss_transaction_stack s)"

definition Session_transaction_has_visibility_deltas :: "SessionStorage \<Rightarrow> u32 \<Rightarrow> bool" where
  "Session_transaction_has_visibility_deltas s relid \<longleftrightarrow>
     (\<exists>overlay \<in> set (ss_transaction_stack s). Overlay_has_visibility_deltas overlay relid)"

end
