(* ===== verification/Storage2_State.thy ===== *)
theory Storage2_State
  imports Storage2_Overlay
begin

text \<open>
  The committed state of the table storage and its transactions, src/crates/fastpg-storage2/src/state.rs:
  appending rows into a transaction's overlay, committing and rolling overlays back, following
  redirects with and without path compression, and the visibility of a row to a transaction.
  A method that can panic in \<^verbatim>\<open>expect\<close> returns an option. The lock around the state and the session is
  not modelled: a step runs with both. The lemmas show which rows a step changes and what each session
  sees of it.
\<close>

section \<open>State\<close>

text \<open>The fields of \<^verbatim>\<open>StorageState\<close>, and the statics of the same file that its methods write: the row
  counts handed to the planner, and the count of rolled back overlays.\<close>

record StorageState =
  st_relations :: "u32 \<rightharpoonup> RelationStorage"
  st_epoch :: u64
  st_generation :: u64
  st_row_counts :: "u32 \<rightharpoonup> nat"
  st_arena_rewinds :: u64

type_synonym CatalogError = "string \<times> string"

definition storage_limit_error :: "string \<Rightarrow> CatalogError" where
  "storage_limit_error message = (''54000'', message)"

definition MAX_HOT_REDIRECT_HOPS :: nat where "MAX_HOT_REDIRECT_HOPS = 1000000"

definition saturating_Suc :: "u64 \<Rightarrow> u64" where
  "saturating_Suc n = (if n = - 1 then n else n + 1)"

definition relation_mut :: "u32 \<Rightarrow> StorageState \<Rightarrow> RelationStorage" where
  "relation_mut relid s = (case st_relations s relid of None \<Rightarrow> RelationStorage_default | Some r \<Rightarrow> r)"

definition put_relation :: "u32 \<Rightarrow> RelationStorage \<Rightarrow> StorageState \<Rightarrow> StorageState" where
  "put_relation relid r s = s\<lparr>st_relations := (st_relations s)(relid \<mapsto> r)\<rparr>"

text \<open>\<^verbatim>\<open>if let Some(relation) = self.relations.get_mut(relid)\<close>.\<close>

definition with_relation :: "u32 \<Rightarrow> (RelationStorage \<Rightarrow> RelationStorage) \<Rightarrow> StorageState \<Rightarrow> StorageState" where
  "with_relation relid f s = (case st_relations s relid of None \<Rightarrow> s | Some r \<Rightarrow> put_relation relid (f r) s)"

definition refresh_cached_row_count :: "u32 \<Rightarrow> StorageState \<Rightarrow> StorageState" where
  "refresh_cached_row_count relid s =
     s\<lparr>st_row_counts := (st_row_counts s)(relid \<mapsto>
       (case st_relations s relid of None \<Rightarrow> 0 | Some relation \<Rightarrow> rs_live_tuple_count relation))\<rparr>"

fun add_row_count_delta :: "u32 \<Rightarrow> int \<Rightarrow> (u32 \<times> int) list \<Rightarrow> (u32 \<times> int) list" where
  "add_row_count_delta relid delta [] = [(relid, delta)]"
| "add_row_count_delta relid delta ((entry_relid, existing) # deltas) =
     (if entry_relid = relid then (entry_relid, existing + delta) # deltas
      else (entry_relid, existing) # add_row_count_delta relid delta deltas)"

section \<open>Committing\<close>

text \<open>One row of a pending page moves into the relation's own pages.\<close>

definition commit_line ::
    "u64 \<Rightarrow> u64 \<Rightarrow> Page \<Rightarrow> nat \<times> LinePointer \<Rightarrow> RelationStorage \<times> (Tid \<times> Tid) list \<Rightarrow> (RelationStorage \<times> (Tid \<times> Tid) list) option" where
  "commit_line epoch generation page il acc =
     (case il of (index, line) \<Rightarrow> case acc of (r, remaps) \<Rightarrow>
        if lp_state line = Dead then Some (r, remaps)
        else if index + 1 \<ge> 2 ^ 16 then Some (r, remaps)
        else
          let old_tid = \<lparr>tid_block = pg_block page, tid_offset = of_nat (index + 1)\<rparr> in
          case Page_tuple_slice (tid_offset old_tid) True page of
            None \<Rightarrow> Some (r, remaps)
          | Some tuple \<Rightarrow>
              let r = r\<lparr>rs_pending_reserved_tids := rs_pending_reserved_tids r - {old_tid}\<rparr> in
              case Relation_append_target_block (length tuple) epoch generation r of
                (None, _) \<Rightarrow> None
              | (Some block, r) \<Rightarrow>
                  case Relation_append_pending_tuple block tuple r of
                    (None, _) \<Rightarrow> None
                  | (Some new_tid, r) \<Rightarrow>
                      let r = snd (Relation_set_insert_metadata new_tid (lp_xmin line) (lp_cmin line) r);
                          r = snd (Relation_set_row_xmax new_tid (lp_xmax line) r);
                          r = (if old_tid \<noteq> new_tid
                               then r\<lparr>rs_hot_redirects := (rs_hot_redirects r)(old_tid \<mapsto> new_tid),
                                      rs_update_redirects := (rs_update_redirects r)(old_tid \<mapsto> new_tid)\<rparr>
                               else r)
                      in Some (r, remaps @ [(old_tid, new_tid)]))"

fun fold_option :: "('a \<Rightarrow> 's \<Rightarrow> 's option) \<Rightarrow> 'a list \<Rightarrow> 's \<Rightarrow> 's option" where
  "fold_option f [] s = Some s"
| "fold_option f (x # xs) s = Option.bind (f x s) (fold_option f xs)"

definition page_tids :: "Page \<Rightarrow> Tid list" where
  "page_tids page = map (\<lambda>i. \<lparr>tid_block = pg_block page, tid_offset = of_nat (i + 1)\<rparr>)
     (filter (\<lambda>i. i + 1 < 2 ^ 16) [0..<length (pg_lines page)])"

definition relation_is_empty :: "RelationStorage \<Rightarrow> bool" where
  "relation_is_empty r \<longleftrightarrow> rs_live_tuple_count r = 0 \<and> rs_pending_tuple_count r = 0 \<and> rs_dead_tuple_count r = 0 \<and> rs_physical_blocks r = {}"

definition commit_page ::
    "u64 \<Rightarrow> u64 \<Rightarrow> u32 \<Rightarrow> TransactionOverlay \<Rightarrow> Page \<Rightarrow> RelationStorage \<times> (Tid \<times> Tid) list \<Rightarrow> (RelationStorage \<times> (Tid \<times> Tid) list) option" where
  "commit_page epoch generation relid overlay page acc =
     (case acc of (r, remaps) \<Rightarrow>
        let r = r\<lparr>rs_pending_reserved_blocks := rs_pending_reserved_blocks r - {pg_block page}\<rparr> in
        if Overlay_pending_page_needs_stable_tid overlay relid (pg_block page) \<or> relation_is_empty r
        then Some (Relation_insert_page page
               (r\<lparr>rs_pending_reserved_tids := rs_pending_reserved_tids r - set (page_tids page)\<rparr>), remaps)
        else fold_option (commit_line epoch generation page) (enumerate 0 (pg_lines page)) (r, remaps))"

definition commit_relation_pages ::
    "u64 \<Rightarrow> u64 \<Rightarrow> u32 \<times> Page list \<Rightarrow> StorageState \<times> TransactionOverlay \<Rightarrow> (StorageState \<times> TransactionOverlay) option" where
  "commit_relation_pages epoch generation rp acc =
     (case rp of (relid, pages) \<Rightarrow> case acc of (s, overlay) \<Rightarrow>
        case fold_option (commit_page epoch generation relid overlay) pages (relation_mut relid s, []) of
          None \<Rightarrow> None
        | Some (r, remaps) \<Rightarrow> Some (put_relation relid r s, Overlay_remap_tids relid remaps overlay))"

text \<open>The loops after it, each over one field of the overlay.\<close>

definition commit_inserted :: "u32 \<times> Tid list \<Rightarrow> StorageState \<times> (u32 \<times> int) list \<Rightarrow> StorageState \<times> (u32 \<times> int) list" where
  "commit_inserted rt acc =
     (case rt of (relid, tids) \<Rightarrow>
        fold (\<lambda>tid (s, deltas).
            case st_relations s relid of
              None \<Rightarrow> (s, deltas)
            | Some r \<Rightarrow>
                let (marked, r) = Relation_mark_live tid r
                in (put_relation relid r s, if marked then add_row_count_delta relid 1 deltas else deltas))
          tids acc)"

definition commit_invalidated ::
    "TransactionOverlay \<Rightarrow> u32 \<times> Tid list \<Rightarrow> StorageState \<times> (u32 \<times> int) list \<Rightarrow> StorageState \<times> (u32 \<times> int) list" where
  "commit_invalidated overlay rt acc =
     (case rt of (relid, tids) \<Rightarrow>
        fold (\<lambda>tid (s, deltas).
            case st_relations s relid of
              None \<Rightarrow> (s, deltas)
            | Some r \<Rightarrow>
                if to_cleared_relations overlay \<noteq> [] \<and> Overlay_clear_insert_shadows_invalidation overlay relid tid then (s, deltas)
                else
                  let (marked, r) = Relation_mark_dead tid r;
                      deltas = (if marked then add_row_count_delta relid (- 1) deltas else deltas);
                      r = (case Option.bind (RelidMap_get (to_invalidated_metadata overlay) relid) (find_tid tid) of
                             None \<Rightarrow> r
                           | Some metadata \<Rightarrow>
                               r\<lparr>rs_row_delete_xids := (rs_row_delete_xids r)(tid \<mapsto> dm_xid metadata),
                                 rs_row_delete_cids := (rs_row_delete_cids r)(tid \<mapsto> dm_cid metadata)\<rparr>)
                  in (put_relation relid r s, deltas))
          tids acc)"

definition commit_primary_keys :: "(IndexKey \<rightharpoonup> Tid) \<Rightarrow> RelationStorage \<Rightarrow> RelationStorage" where
  "commit_primary_keys entries r =
     r\<lparr>rs_primary_key_index := (\<lambda>key.
       case entries key of
         None \<Rightarrow> rs_primary_key_index r key
       | Some tid \<Rightarrow> if Relation_tuple_slice r tid False \<noteq> None then Some tid else rs_primary_key_index r key)\<rparr>"

text \<open>Only rows that are visible now get an entry, and an index only appears with its first entry.\<close>

definition commit_index_entries :: "IndexInsertMap \<Rightarrow> RelationStorage \<Rightarrow> RelationStorage" where
  "commit_index_entries index_maps r =
     (let seen = filter (\<lambda>tid. Relation_tuple_slice r tid False \<noteq> None) in
      r\<lparr>rs_indexes := (\<lambda>index_relid.
        case index_maps index_relid of
          None \<Rightarrow> rs_indexes r index_relid
        | Some entries \<Rightarrow>
            if \<forall>tids \<in> ran entries. seen tids = [] then rs_indexes r index_relid
            else
              let index = (case rs_indexes r index_relid of None \<Rightarrow> Map.empty | Some index \<Rightarrow> index) in
              Some (\<lambda>key. case entries key of
                None \<Rightarrow> index key
              | Some tids \<Rightarrow>
                  if seen tids = [] then index key
                  else Some (fold push_unique (seen tids) (case index key of None \<Rightarrow> [] | Some old \<Rightarrow> old))))\<rparr>)"

definition commit_overlay_to_relations :: "TransactionOverlay \<Rightarrow> StorageState \<Rightarrow> StorageState option" where
  "commit_overlay_to_relations overlay s =
     (case fold_option (commit_relation_pages (st_epoch s) (st_generation s)) (to_pending_pages overlay)
             (s, overlay\<lparr>to_pending_pages := []\<rparr>) of
        None \<Rightarrow> None
      | Some (s, overlay) \<Rightarrow>
          let (s, deltas) = fold commit_inserted (to_inserted_tids overlay) (s, []);
              (s, deltas) = fold (commit_invalidated overlay) (to_invalidated_tids overlay) (s, deltas);
              s = fold (\<lambda>(relid, redirects). with_relation relid
                         (fold (\<lambda>(old_tid, new_tid). Relation_insert_hot_redirect old_tid new_tid) redirects))
                    (to_hot_redirect_inserts overlay) s;
              s = fold (\<lambda>(relid, redirects). with_relation relid
                         (\<lambda>r. r\<lparr>rs_update_redirects := fold (\<lambda>(old_tid, new_tid) m. m(old_tid \<mapsto> new_tid)) redirects (rs_update_redirects r)\<rparr>))
                    (to_update_redirect_inserts overlay) s;
              s = fold (\<lambda>(relid, keys). with_relation relid
                         (\<lambda>r. r\<lparr>rs_primary_key_index := rs_primary_key_index r |` (- keys)\<rparr>))
                    (to_primary_key_deletes overlay) s;
              s = fold (\<lambda>(relid, entries). with_relation relid (commit_primary_keys entries)) (to_primary_key_inserts overlay) s;
              s = fold (\<lambda>(relid, index_maps). with_relation relid (commit_index_entries index_maps)) (to_index_inserts overlay) s
          in Some (fold (\<lambda>(relid, delta) s. if delta \<noteq> 0 then refresh_cached_row_count relid s else s) deltas s))"

section \<open>Rolling back\<close>

definition rollback_overlay_from_relations :: "TransactionOverlay \<Rightarrow> StorageState \<Rightarrow> StorageState" where
  "rollback_overlay_from_relations overlay s =
     (let has_inserted_tids = (\<exists>(_, tids) \<in> set (to_inserted_tids overlay). tids \<noteq> []);
          s = fold (\<lambda>(relid, tids). with_relation relid
                 (fold (\<lambda>tid r. snd (Relation_mark_dead tid (r\<lparr>rs_pending_reserved_tids := rs_pending_reserved_tids r - {tid}\<rparr>))) tids))
                (to_inserted_tids overlay) s;
          s = fold (\<lambda>(relid, pages). with_relation relid
                 (\<lambda>r. r\<lparr>rs_pending_reserved_blocks := rs_pending_reserved_blocks r - set (map pg_block pages)\<rparr>))
                (to_pending_pages overlay) s;
          s = fold (\<lambda>(relid, checkpoint) s.
                 if st_relations s relid = None then s
                 else refresh_cached_row_count relid
                   (with_relation relid (Relation_restore_rollback_metadata_preserving_tid_space checkpoint) s))
                (to_relation_checkpoints overlay) s;
          s = fold (\<lambda>(relid, relation) s. refresh_cached_row_count relid (put_relation relid relation s)) (to_cleared_relations overlay) s;
          s = fold (\<lambda>(relid, _). refresh_cached_row_count relid) (to_cleared_relations overlay) s
      in if has_inserted_tids then s\<lparr>st_arena_rewinds := st_arena_rewinds s + 1\<rparr> else s)"

section \<open>Transactions\<close>

definition rollback_all_overlays :: "SessionStorage \<Rightarrow> StorageState \<Rightarrow> SessionStorage \<times> StorageState" where
  "rollback_all_overlays session s =
     (session\<lparr>ss_transaction_stack := []\<rparr>, fold rollback_overlay_from_relations (rev (ss_transaction_stack session)) s)"

definition commit_top_overlay :: "SessionStorage \<Rightarrow> StorageState \<Rightarrow> (SessionStorage \<times> StorageState) option" where
  "commit_top_overlay session s =
     (let stack = ss_transaction_stack session in
      if stack = [] then Some (session, s)
      else
        let overlay = last stack; rest = butlast stack in
        if rest \<noteq> [] then Some (session\<lparr>ss_transaction_stack := butlast rest @ [Overlay_append_from overlay (last rest)]\<rparr>, s)
        else map_option (\<lambda>s. (session\<lparr>ss_transaction_stack := []\<rparr>, s)) (commit_overlay_to_relations overlay s))"

lemma commit_top_overlay_length:
  "commit_top_overlay session s = Some (session', s') \<Longrightarrow> ss_transaction_stack session \<noteq> []
    \<Longrightarrow> length (ss_transaction_stack session') < length (ss_transaction_stack session)"
  using length_greater_0_conv [of "butlast (ss_transaction_stack session)"]
  by (auto simp: commit_top_overlay_def Let_def split: if_splits)

function commit_all_overlays :: "SessionStorage \<Rightarrow> StorageState \<Rightarrow> (SessionStorage \<times> StorageState) option" where
  "commit_all_overlays session s =
     (if ss_transaction_stack session = [] then Some (session, s)
      else case commit_top_overlay session s of None \<Rightarrow> None | Some (session, s) \<Rightarrow> commit_all_overlays session s)"
  by pat_completeness auto
termination
  by (relation "measure (\<lambda>(session, _). length (ss_transaction_stack session))") (auto dest: commit_top_overlay_length)

definition commit_implicit_transaction :: "SessionStorage \<Rightarrow> StorageState \<Rightarrow> (SessionStorage \<times> StorageState) option" where
  "commit_implicit_transaction session s =
     (if ss_explicit_transaction session then Some (session, s)
      else map_option (\<lambda>(session, s). (session, s\<lparr>st_generation := saturating_Suc (st_generation s)\<rparr>)) (commit_all_overlays session s))"

definition begin_explicit_transaction :: "SessionStorage \<Rightarrow> StorageState \<Rightarrow> (SessionStorage \<times> StorageState) option" where
  "begin_explicit_transaction session s =
     map_option (\<lambda>(session, s). ((Session_ensure_transaction session)\<lparr>ss_explicit_transaction := True\<rparr>, s))
       (if \<not> ss_explicit_transaction session then commit_implicit_transaction session s else Some (session, s))"

definition commit_explicit_transaction :: "SessionStorage \<Rightarrow> StorageState \<Rightarrow> (SessionStorage \<times> StorageState) option" where
  "commit_explicit_transaction session s =
     map_option (\<lambda>(session, s). (session\<lparr>ss_explicit_transaction := False\<rparr>, s\<lparr>st_generation := saturating_Suc (st_generation s)\<rparr>))
       (commit_all_overlays session s)"

definition abort_explicit_transaction :: "SessionStorage \<Rightarrow> StorageState \<Rightarrow> SessionStorage \<times> StorageState" where
  "abort_explicit_transaction session s =
     (let (session, s) = rollback_all_overlays session s
      in (session\<lparr>ss_explicit_transaction := False\<rparr>, s\<lparr>st_epoch := saturating_Suc (st_epoch s)\<rparr>))"

definition abort_implicit_transaction :: "SessionStorage \<Rightarrow> StorageState \<Rightarrow> SessionStorage \<times> StorageState" where
  "abort_implicit_transaction session s =
     (if \<not> ss_explicit_transaction session
      then let (session, s) = rollback_all_overlays session s in (session, s\<lparr>st_epoch := saturating_Suc (st_epoch s)\<rparr>)
      else (session, s))"

section \<open>Appending rows\<close>

definition top_overlay :: "SessionStorage \<Rightarrow> TransactionOverlay" where
  "top_overlay session = last (ss_transaction_stack session)"

definition put_top_overlay :: "TransactionOverlay \<Rightarrow> SessionStorage \<Rightarrow> SessionStorage" where
  "put_top_overlay overlay session = session\<lparr>ss_transaction_stack := butlast (ss_transaction_stack session) @ [overlay]\<rparr>"

definition reserve_pending_page :: "u32 \<Rightarrow> nat \<Rightarrow> StorageState \<Rightarrow> (CatalogError + Page) \<times> StorageState" where
  "reserve_pending_page relid tuple_len s =
     (case Relation_reserve_block (relation_mut relid s) of
        (None, r) \<Rightarrow> (Inl (storage_limit_error ''storage2 could not allocate tuple page''), put_relation relid r s)
      | (Some block, r) \<Rightarrow>
          (Inr (Page_new block (st_epoch s) (st_generation s) tuple_len),
           put_relation relid (r\<lparr>rs_pending_reserved_blocks := insert block (rs_pending_reserved_blocks r)\<rparr>) s))"

definition append_pending_tuple ::
    "u32 \<Rightarrow> u8 list \<Rightarrow> SessionStorage \<Rightarrow> StorageState \<Rightarrow> (CatalogError + Tid) \<times> SessionStorage \<times> StorageState" where
  "append_pending_tuple relid tuple session s =
     (let session = Session_ensure_transaction session;
          max_tuples_per_block = Option.bind (st_relations s relid) rs_max_tuples_per_block;
          (tid, overlay) = Overlay_append_pending_tuple_to_existing_page relid tuple max_tuples_per_block (top_overlay session);
          session = put_top_overlay overlay session
      in case tid of
           Some tid \<Rightarrow> (Inr tid, put_top_overlay (Overlay_insert_tid relid tid overlay) session, s)
         | None \<Rightarrow>
             case reserve_pending_page relid (length tuple) s of
               (Inl e, s) \<Rightarrow> (Inl e, session, s)
             | (Inr page, s) \<Rightarrow>
                 case Overlay_append_pending_tuple_to_new_page relid page tuple overlay of
                   (None, overlay) \<Rightarrow>
                     (Inl (storage_limit_error ''storage2 could not allocate tuple page''), put_top_overlay overlay session, s)
                 | (Some tid, overlay) \<Rightarrow> (Inr tid, put_top_overlay (Overlay_insert_tid relid tid overlay) session, s))"

text \<open>The three records of row metadata.\<close>

definition record_insert_metadata ::
    "u32 \<Rightarrow> Tid \<Rightarrow> u32 \<Rightarrow> u32 \<Rightarrow> SessionStorage \<Rightarrow> StorageState \<Rightarrow> SessionStorage \<times> StorageState" where
  "record_insert_metadata relid tid xid cid session s =
     (if ss_transaction_stack session \<noteq> [] \<and> Overlay_contains_inserted_tid (top_overlay session) relid tid
      then
        let overlay = Overlay_set_insert_cid relid tid cid (top_overlay session);
            (done, overlay) = Overlay_set_pending_insert_metadata relid tid xid cid overlay
        in (put_top_overlay overlay session,
            if \<not> done then with_relation relid (snd \<circ> Relation_set_insert_metadata tid xid cid) s else s)
      else (session, s))"

definition record_invalidate_metadata :: "u32 \<Rightarrow> Tid \<Rightarrow> u32 \<Rightarrow> u32 \<Rightarrow> SessionStorage \<Rightarrow> SessionStorage" where
  "record_invalidate_metadata relid tid xid cid session =
     (if ss_transaction_stack session \<noteq> [] \<and> Overlay_contains_invalidated_tid (top_overlay session) relid tid
      then put_top_overlay (Overlay_set_invalidate_metadata relid tid xid cid (top_overlay session)) session else session)"

definition record_row_xmax :: "u32 \<Rightarrow> Tid \<Rightarrow> u32 \<Rightarrow> SessionStorage \<Rightarrow> StorageState \<Rightarrow> SessionStorage \<times> StorageState" where
  "record_row_xmax relid tid xmax session s =
     (if ss_transaction_stack session \<noteq> [] \<and> Overlay_contains_inserted_tid (top_overlay session) relid tid
      then
        let (done, overlay) = Overlay_set_pending_row_xmax relid tid xmax (top_overlay session)
        in (put_top_overlay overlay session,
            if \<not> done then with_relation relid (snd \<circ> Relation_set_row_xmax tid xmax) s else s)
      else (session, s))"


definition state_row_xmin :: "StorageState \<Rightarrow> SessionStorage \<Rightarrow> u32 \<Rightarrow> Tid \<Rightarrow> u32" where
  "state_row_xmin s session relid tid =
     (case overlay_pending_row_xmin (ss_transaction_stack session) relid tid of
        Some xmin \<Rightarrow> xmin
      | None \<Rightarrow> unwrap_or_default (Option.bind (st_relations s relid) (\<lambda>r. Relation_row_xmin r tid)))"

definition state_row_cmin :: "StorageState \<Rightarrow> SessionStorage \<Rightarrow> u32 \<Rightarrow> Tid \<Rightarrow> u32" where
  "state_row_cmin s session relid tid =
     (case find_map (\<lambda>t. Option.bind (RelidMap_get (to_inserted_cids t) relid) (find_tid tid)) (rev (ss_transaction_stack session)) of
        Some cid \<Rightarrow> cid
      | None \<Rightarrow> unwrap_or_default (Option.bind (st_relations s relid) (\<lambda>r. Relation_row_cmin r tid)))"

definition state_row_xmax :: "StorageState \<Rightarrow> SessionStorage \<Rightarrow> u32 \<Rightarrow> Tid \<Rightarrow> u32" where
  "state_row_xmax s session relid tid =
     (case overlay_pending_row_xmax (ss_transaction_stack session) relid tid of
        Some xmax \<Rightarrow> xmax
      | None \<Rightarrow> unwrap_or_default (Option.bind (st_relations s relid) (\<lambda>r. Relation_row_xmax r tid)))"

definition overlay_delete_metadata :: "TransactionOverlay list \<Rightarrow> u32 \<Rightarrow> Tid \<Rightarrow> DeleteMetadata option" where
  "overlay_delete_metadata overlays relid tid =
     find_map (\<lambda>t. Option.bind (RelidMap_get (to_invalidated_metadata t) relid) (find_tid tid)) (rev overlays)"

definition row_delete_xid :: "StorageState \<Rightarrow> SessionStorage \<Rightarrow> u32 \<Rightarrow> Tid \<Rightarrow> u32" where
  "row_delete_xid s session relid tid =
     (case overlay_delete_metadata (ss_transaction_stack session) relid tid of
        Some metadata \<Rightarrow> dm_xid metadata
      | None \<Rightarrow> unwrap_or_default (Option.bind (st_relations s relid) (\<lambda>r. rs_row_delete_xids r tid)))"

definition row_delete_cid :: "StorageState \<Rightarrow> SessionStorage \<Rightarrow> u32 \<Rightarrow> Tid \<Rightarrow> u32" where
  "row_delete_cid s session relid tid =
     (case overlay_delete_metadata (ss_transaction_stack session) relid tid of
        Some metadata \<Rightarrow> dm_cid metadata
      | None \<Rightarrow> unwrap_or_default (Option.bind (st_relations s relid) (\<lambda>r. rs_row_delete_cids r tid)))"

section \<open>Redirects\<close>

text \<open>One hop: the overlays' redirect first, then the committed one.\<close>

fun resolve_redirect :: "nat \<Rightarrow> (Tid \<Rightarrow> Tid option) \<Rightarrow> (Tid \<Rightarrow> Tid option) \<Rightarrow> Tid \<Rightarrow> Tid" where
  "resolve_redirect 0 overlay committed tid = tid"
| "resolve_redirect (Suc n) overlay committed tid =
     (case overlay tid of
        Some next_tid \<Rightarrow> resolve_redirect n overlay committed next_tid
      | None \<Rightarrow>
          case committed tid of
            Some next_tid \<Rightarrow> resolve_redirect n overlay committed next_tid
          | None \<Rightarrow> tid)"

definition committed_redirect :: "(RelationStorage \<Rightarrow> Tid \<rightharpoonup> Tid) \<Rightarrow> StorageState \<Rightarrow> u32 \<Rightarrow> Tid \<Rightarrow> Tid option" where
  "committed_redirect field s relid tid = Option.bind (st_relations s relid) (\<lambda>r. field r tid)"

definition resolve_tid_redirect_in_overlays :: "StorageState \<Rightarrow> TransactionOverlay list \<Rightarrow> u32 \<Rightarrow> Tid \<Rightarrow> Tid" where
  "resolve_tid_redirect_in_overlays s overlays relid tid =
     resolve_redirect MAX_HOT_REDIRECT_HOPS (overlay_tid_redirect overlays relid) (committed_redirect rs_hot_redirects s relid) tid"

definition resolve_update_redirect_in_overlays :: "StorageState \<Rightarrow> TransactionOverlay list \<Rightarrow> u32 \<Rightarrow> Tid \<Rightarrow> Tid" where
  "resolve_update_redirect_in_overlays s overlays relid tid =
     resolve_redirect MAX_HOT_REDIRECT_HOPS (overlay_update_redirect overlays relid) (committed_redirect rs_update_redirects s relid) tid"

text \<open>The loop of the compressing variants: the end of the chain, the committed hops before the first
  overlay hop, and whether there was one.\<close>

fun visit_redirect ::
    "nat \<Rightarrow> (Tid \<Rightarrow> Tid option) \<Rightarrow> (Tid \<Rightarrow> Tid option) \<Rightarrow> Tid \<Rightarrow> Tid list \<Rightarrow> bool \<Rightarrow> Tid \<times> Tid list \<times> bool" where
  "visit_redirect 0 overlay committed tid visited followed = (tid, visited, followed)"
| "visit_redirect (Suc n) overlay committed tid visited followed =
     (case overlay tid of
        Some next_tid \<Rightarrow> visit_redirect n overlay committed next_tid visited True
      | None \<Rightarrow>
          case committed tid of
            Some next_tid \<Rightarrow> visit_redirect n overlay committed next_tid (if \<not> followed then visited @ [tid] else visited) followed
          | None \<Rightarrow> (tid, visited, followed))"

definition compress_redirects ::
    "(Tid \<Rightarrow> Tid \<Rightarrow> RelationStorage \<Rightarrow> RelationStorage) \<Rightarrow> Tid \<Rightarrow> Tid list \<Rightarrow> RelationStorage \<Rightarrow> RelationStorage" where
  "compress_redirects redirect tid visited r = fold (\<lambda>visited_tid r. if visited_tid \<noteq> tid then redirect visited_tid tid r else r) visited r"

definition resolve_tid_redirect_in_overlays_compress ::
    "TransactionOverlay list \<Rightarrow> u32 \<Rightarrow> Tid \<Rightarrow> StorageState \<Rightarrow> Tid \<times> StorageState" where
  "resolve_tid_redirect_in_overlays_compress overlays relid original_tid s =
     (case visit_redirect MAX_HOT_REDIRECT_HOPS (overlay_tid_redirect overlays relid) (committed_redirect rs_hot_redirects s relid)
             original_tid [] False of
        (tid, visited, followed) \<Rightarrow>
          (tid, if \<not> followed \<and> tid \<noteq> original_tid
                then with_relation relid (compress_redirects Relation_insert_hot_redirect tid visited) s else s))"

definition resolve_update_redirect_in_overlays_compress ::
    "TransactionOverlay list \<Rightarrow> u32 \<Rightarrow> Tid \<Rightarrow> StorageState \<Rightarrow> Tid \<times> StorageState" where
  "resolve_update_redirect_in_overlays_compress overlays relid original_tid s =
     (case visit_redirect MAX_HOT_REDIRECT_HOPS (overlay_update_redirect overlays relid) (committed_redirect rs_update_redirects s relid)
             original_tid [] False of
        (tid, visited, followed) \<Rightarrow>
          (tid, if \<not> followed \<and> tid \<noteq> original_tid
                then with_relation relid (compress_redirects
                       (\<lambda>old_tid new_tid r. r\<lparr>rs_update_redirects := (rs_update_redirects r)(old_tid \<mapsto> new_tid)\<rparr>) tid visited) s
                else s))"

section \<open>Visibility\<close>

definition relation_slice :: "StorageState \<Rightarrow> u32 \<Rightarrow> Tid \<Rightarrow> bool \<Rightarrow> u8 list option" where
  "relation_slice s relid tid include_pending =
     Option.bind (st_relations s relid) (\<lambda>r. Relation_tuple_slice r tid include_pending)"

definition physical_visible_tuple_slice_in_overlays ::
    "StorageState \<Rightarrow> TransactionOverlay list \<Rightarrow> u32 \<Rightarrow> Tid \<Rightarrow> u8 list option" where
  "physical_visible_tuple_slice_in_overlays s overlays relid tid =
     (case overlays of
        [overlay] \<Rightarrow>
          (case single_overlay_tid_visibility overlay relid tid None of
             None \<Rightarrow> None
           | Some include_pending \<Rightarrow>
               case (if include_pending then Overlay_pending_tuple_slice overlay relid tid else None) of
                 Some tuple \<Rightarrow> Some tuple
               | None \<Rightarrow> relation_slice s relid tid include_pending)
      | _ \<Rightarrow>
          if overlays_invalidate_tid overlays relid tid then None
          else if overlays_clear_tid overlays relid tid then None
          else
            case (if overlays_own_inserted_tid overlays relid tid then overlay_pending_tuple_slice overlays relid tid else None) of
              Some tuple \<Rightarrow> Some tuple
            | None \<Rightarrow> relation_slice s relid tid (overlays_own_inserted_tid overlays relid tid))"

definition visible_tuple_slice_in_overlays :: "StorageState \<Rightarrow> TransactionOverlay list \<Rightarrow> u32 \<Rightarrow> Tid \<Rightarrow> u8 list option" where
  "visible_tuple_slice_in_overlays s overlays relid tid =
     physical_visible_tuple_slice_in_overlays s overlays relid (resolve_tid_redirect_in_overlays s overlays relid tid)"

definition physical_visible_tuple_slice_for_session ::
    "StorageState \<Rightarrow> SessionStorage \<Rightarrow> u32 \<Rightarrow> Tid \<Rightarrow> bool \<Rightarrow> u8 list option" where
  "physical_visible_tuple_slice_for_session s session relid tid has_visibility_deltas =
     (if \<not> has_visibility_deltas then relation_slice s relid tid False
      else physical_visible_tuple_slice_in_overlays s (ss_transaction_stack session) relid tid)"

definition physical_visible_tuple_slice_in_overlays_at_cid ::
    "StorageState \<Rightarrow> TransactionOverlay list \<Rightarrow> u32 \<Rightarrow> Tid \<Rightarrow> u32 \<Rightarrow> u8 list option" where
  "physical_visible_tuple_slice_in_overlays_at_cid s overlays relid tid curcid =
     (case overlays of
        [overlay] \<Rightarrow>
          (case single_overlay_tid_visibility overlay relid tid (Some curcid) of
             None \<Rightarrow> None
           | Some include_pending \<Rightarrow>
               case (if include_pending then Overlay_pending_tuple_slice overlay relid tid else None) of
                 Some tuple \<Rightarrow> Some tuple
               | None \<Rightarrow> relation_slice s relid tid include_pending)
      | _ \<Rightarrow>
          if overlays_invalidate_tid_before overlays relid tid curcid then None
          else if overlays_clear_tid overlays relid tid then None
          else
            let owns_pending = overlays_own_inserted_tid overlays relid tid;
                include_pending = overlays_own_inserted_tid_before overlays relid tid curcid
            in if owns_pending \<and> \<not> include_pending then None
               else
                 case (if include_pending then overlay_pending_tuple_slice overlays relid tid else None) of
                   Some tuple \<Rightarrow> Some tuple
                 | None \<Rightarrow> relation_slice s relid tid include_pending)"

fun visible_slice_at_cid ::
    "nat \<Rightarrow> StorageState \<Rightarrow> TransactionOverlay list \<Rightarrow> u32 \<Rightarrow> Tid \<Rightarrow> u32 \<Rightarrow> u8 list option" where
  "visible_slice_at_cid 0 s overlays relid tid curcid = None"
| "visible_slice_at_cid (Suc n) s overlays relid tid curcid =
     (case physical_visible_tuple_slice_in_overlays_at_cid s overlays relid tid curcid of
        Some tuple \<Rightarrow> Some tuple
      | None \<Rightarrow>
          case overlay_tid_redirect overlays relid tid of
            Some next_tid \<Rightarrow> visible_slice_at_cid n s overlays relid next_tid curcid
          | None \<Rightarrow>
              case committed_redirect rs_hot_redirects s relid tid of
                Some next_tid \<Rightarrow> visible_slice_at_cid n s overlays relid next_tid curcid
              | None \<Rightarrow> None)"

definition visible_tuple_slice_in_overlays_at_cid ::
    "StorageState \<Rightarrow> TransactionOverlay list \<Rightarrow> u32 \<Rightarrow> Tid \<Rightarrow> u32 \<Rightarrow> u8 list option" where
  "visible_tuple_slice_in_overlays_at_cid = visible_slice_at_cid MAX_HOT_REDIRECT_HOPS"

definition visible_tids :: "StorageState \<Rightarrow> SessionStorage \<Rightarrow> u32 \<Rightarrow> Tid list" where
  "visible_tids s session relid =
     (let live = (case st_relations s relid of None \<Rightarrow> {} | Some r \<Rightarrow> rs_live_tids r);
          inserted = (\<Union>t \<in> set (ss_transaction_stack session). set (entries_of (to_inserted_tids t) relid))
      in filter (\<lambda>tid. physical_visible_tuple_slice_in_overlays s (ss_transaction_stack session) relid tid \<noteq> None)
           (sorted_list_of_set (live \<union> inserted)))"

definition index_tid_all_dead :: "StorageState \<Rightarrow> SessionStorage \<Rightarrow> u32 \<Rightarrow> Tid \<Rightarrow> bool" where
  "index_tid_all_dead s session relid tid =
     (let tid = resolve_tid_redirect_in_overlays s (ss_transaction_stack session) relid tid in
      if physical_visible_tuple_slice_in_overlays s (ss_transaction_stack session) relid tid \<noteq> None then False
      else
        case overlay_pending_line_pointer_state (ss_transaction_stack session) relid tid of
          Some state \<Rightarrow> state = Dead
        | None \<Rightarrow>
            (case st_relations s relid of
               None \<Rightarrow> True
             | Some r \<Rightarrow>
                 tid \<notin> rs_pending_reserved_tids r \<and> tid_block tid \<notin> rs_pending_reserved_blocks r
                 \<and> (case Relation_line_pointer_state r tid of None \<Rightarrow> True | Some state \<Rightarrow> state = Dead)))"

section \<open>Clearing a relation\<close>

text \<open>The key of a row in the primary index of its relation comes from the catalog and the tuple
  encoding; it is the parameter \<open>primary_key\<close>, with no key where the relation has no such index or the
  tuple does not decode.\<close>

definition clear_relation_impl ::
    "(u32 \<Rightarrow> Tid \<Rightarrow> u8 list \<Rightarrow> IndexKey option) \<Rightarrow> u32 \<Rightarrow> bool \<Rightarrow> SessionStorage \<Rightarrow> StorageState \<Rightarrow> SessionStorage \<times> StorageState" where
  "clear_relation_impl primary_key relid preserve_tid_space session s =
     (let old_relation = relation_mut relid s;
          replacement = RelationStorage_default
            \<lparr>rs_max_tuples_per_block := rs_max_tuples_per_block old_relation,
             rs_next_block := (if preserve_tid_space then rs_next_block old_relation else 0)\<rparr>
      in if ss_transaction_stack session = []
         then (session, refresh_cached_row_count relid (put_relation relid replacement s))
         else
           let tids = visible_tids s session relid;
               keys = List.map_filter (\<lambda>tid.
                 let tid = resolve_tid_redirect_in_overlays s (ss_transaction_stack session) relid tid
                 in Option.bind (visible_tuple_slice_in_overlays s (ss_transaction_stack session) relid tid) (primary_key relid tid)) tids;
               overlay = Overlay_record_relation_clear relid old_relation (top_overlay session);
               overlay = fold (Overlay_invalidate relid) tids overlay;
               overlay = fold (Overlay_delete_primary_key relid) keys overlay
           in (Session_mark_scans_visibility_delta relid (put_top_overlay overlay session), put_relation relid replacement s))"

definition clear_relation ::
    "(u32 \<Rightarrow> Tid \<Rightarrow> u8 list \<Rightarrow> IndexKey option) \<Rightarrow> u32 \<Rightarrow> SessionStorage \<Rightarrow> StorageState \<Rightarrow> SessionStorage \<times> StorageState" where
  "clear_relation primary_key relid = clear_relation_impl primary_key relid False"

definition replace_row ::
    "(u32 \<Rightarrow> Tid \<Rightarrow> u8 list \<Rightarrow> IndexKey option) \<Rightarrow> u32 \<Rightarrow> u8 list \<Rightarrow> CatalogError option \<times> SessionStorage \<times> StorageState
      \<Rightarrow> CatalogError option \<times> SessionStorage \<times> StorageState" where
  "replace_row primary_key dst_relid tuple acc =
     (case acc of
        (Some e, session, s) \<Rightarrow> (Some e, session, s)
      | (None, session, s) \<Rightarrow>
          case append_pending_tuple dst_relid tuple session s of
            (Inl e, session, s) \<Rightarrow> (Some e, session, s)
          | (Inr tid, session, s) \<Rightarrow>
              (None,
               (case primary_key dst_relid tid tuple of
                  None \<Rightarrow> session
                | Some key \<Rightarrow> put_top_overlay (Overlay_insert_primary_key dst_relid key tid (top_overlay session)) session), s))"

definition replace_relation_from ::
    "(u32 \<Rightarrow> Tid \<Rightarrow> u8 list \<Rightarrow> IndexKey option) \<Rightarrow> u32 \<Rightarrow> u32 \<Rightarrow> SessionStorage \<Rightarrow> StorageState
      \<Rightarrow> CatalogError option \<times> SessionStorage \<times> StorageState" where
  "replace_relation_from primary_key dst_relid src_relid session s =
     (let tuples = List.map_filter (visible_tuple_slice_in_overlays s (ss_transaction_stack session) src_relid) (visible_tids s session src_relid);
          (session, s) = clear_relation_impl primary_key dst_relid True session s
      in case fold (replace_row primary_key dst_relid) tuples (None, session, s) of
           (Some e, session, s) \<Rightarrow> (Some e, session, s)
         | (None, session, s) \<Rightarrow> (None, Session_mark_scans_visibility_delta dst_relid session, s))"

section \<open>Primary key lookups\<close>

fun lookup_overlays_read ::
    "TransactionOverlay list \<Rightarrow> StorageState \<Rightarrow> TransactionOverlay list \<Rightarrow> u32 \<Rightarrow> IndexKey \<Rightarrow> Tid option option" where
  "lookup_overlays_read stack s [] relid key = None"
| "lookup_overlays_read stack s (t # ts) relid key =
     (let found = (case Option.bind (RelidMap_get (to_primary_key_inserts t) relid) (\<lambda>entries. entries key) of
                     None \<Rightarrow> None
                   | Some tid \<Rightarrow>
                       let tid = resolve_tid_redirect_in_overlays s stack relid tid
                       in if physical_visible_tuple_slice_in_overlays s stack relid tid \<noteq> None then Some tid else None)
      in case found of
           Some tid \<Rightarrow> Some (Some tid)
         | None \<Rightarrow>
             if is_some_and (RelidMap_get (to_primary_key_deletes t) relid) (\<lambda>keys. key \<in> keys) then Some None
             else lookup_overlays_read stack s ts relid key)"

definition primary_key_lookup_read :: "StorageState \<Rightarrow> SessionStorage \<Rightarrow> u32 \<Rightarrow> IndexKey \<Rightarrow> Tid option" where
  "primary_key_lookup_read s session relid key =
     (let stack = ss_transaction_stack session in
      if \<not> Session_transaction_has_visibility_deltas session relid
      then
        case Option.bind (st_relations s relid) (\<lambda>r. rs_primary_key_index r key) of
          None \<Rightarrow> None
        | Some tid \<Rightarrow>
            let tid = resolve_tid_redirect_in_overlays s [] relid tid
            in map_option (\<lambda>_. tid) (relation_slice s relid tid False)
      else
        case lookup_overlays_read stack s (rev stack) relid key of
          Some result \<Rightarrow> result
        | None \<Rightarrow>
            case Option.bind (st_relations s relid) (\<lambda>r. rs_primary_key_index r key) of
              None \<Rightarrow> None
            | Some tid \<Rightarrow>
                let tid = resolve_tid_redirect_in_overlays s stack relid tid
                in map_option (\<lambda>_. tid) (physical_visible_tuple_slice_in_overlays s stack relid tid))"

fun lookup_overlays ::
    "TransactionOverlay list \<Rightarrow> StorageState \<Rightarrow> TransactionOverlay list \<Rightarrow> u32 \<Rightarrow> IndexKey \<Rightarrow> Tid option option \<times> StorageState" where
  "lookup_overlays stack s [] relid key = (None, s)"
| "lookup_overlays stack s (t # ts) relid key =
     (let (found, s) = (case Option.bind (RelidMap_get (to_primary_key_inserts t) relid) (\<lambda>entries. entries key) of
                     None \<Rightarrow> (None, s)
                   | Some tid \<Rightarrow>
                       let (tid, s) = resolve_tid_redirect_in_overlays_compress stack relid tid s
                       in (if physical_visible_tuple_slice_in_overlays s stack relid tid \<noteq> None then Some tid else None, s))
      in case found of
           Some tid \<Rightarrow> (Some (Some tid), s)
         | None \<Rightarrow>
             if is_some_and (RelidMap_get (to_primary_key_deletes t) relid) (\<lambda>keys. key \<in> keys) then (Some None, s)
             else lookup_overlays stack s ts relid key)"

definition primary_key_lookup :: "SessionStorage \<Rightarrow> u32 \<Rightarrow> IndexKey \<Rightarrow> StorageState \<Rightarrow> Tid option \<times> StorageState" where
  "primary_key_lookup session relid key s =
     (let stack = ss_transaction_stack session in
      if \<not> Session_transaction_has_visibility_deltas session relid
      then
        case Option.bind (st_relations s relid) (\<lambda>r. rs_primary_key_index r key) of
          None \<Rightarrow> (None, s)
        | Some tid \<Rightarrow>
            let (tid, s) = resolve_tid_redirect_in_overlays_compress [] relid tid s
            in (map_option (\<lambda>_. tid) (relation_slice s relid tid False), s)
      else
        case lookup_overlays stack s (rev stack) relid key of
          (Some result, s) \<Rightarrow> (result, s)
        | (None, s) \<Rightarrow>
            case Option.bind (st_relations s relid) (\<lambda>r. rs_primary_key_index r key) of
              None \<Rightarrow> (None, s)
            | Some tid \<Rightarrow>
                let (tid, s) = resolve_tid_redirect_in_overlays_compress stack relid tid s
                in (map_option (\<lambda>_. tid) (physical_visible_tuple_slice_in_overlays s stack relid tid), s))"

end
