(* ===== verification/Storage2_Visibility.thy ===== *)
theory Storage2_Visibility
  imports Storage2_State
begin

text \<open>
  What a transaction sees, over the definitions of \<^verbatim>\<open>Storage2_Overlay\<close> and \<^verbatim>\<open>Storage2_State\<close>: the
  visibility of a row read off the whole stack of overlays, which the test for a single overlay agrees
  with; chains of redirects and their compression; lookups by primary key; and the rows a rollback or
  an append changes.
\<close>

section \<open>Visibility on a stack\<close>

text \<open>Whether a row is visible to a stack of overlays, and if so whether as one of its own pending rows:
  to the whole transaction, or to the commands before a command identifier.\<close>

definition stack_visibility :: "TransactionOverlay list \<Rightarrow> u32 \<Rightarrow> Tid \<Rightarrow> u32 option \<Rightarrow> bool option" where
  "stack_visibility overlays relid tid curcid =
     (case curcid of
        None \<Rightarrow>
          if overlays_invalidate_tid overlays relid tid \<or> overlays_clear_tid overlays relid tid then None
          else Some (overlays_own_inserted_tid overlays relid tid)
      | Some curcid \<Rightarrow>
          if overlays_invalidate_tid_before overlays relid tid curcid \<or> overlays_clear_tid overlays relid tid
             \<or> overlays_own_inserted_tid overlays relid tid \<and> \<not> overlays_own_inserted_tid_before overlays relid tid curcid
          then None
          else Some (overlays_own_inserted_tid_before overlays relid tid curcid))"

definition stack_slice :: "StorageState \<Rightarrow> TransactionOverlay list \<Rightarrow> u32 \<Rightarrow> Tid \<Rightarrow> u32 option \<Rightarrow> u8 list option" where
  "stack_slice s overlays relid tid curcid =
     (case stack_visibility overlays relid tid curcid of
        None \<Rightarrow> None
      | Some own \<Rightarrow>
          case (if own then overlay_pending_tuple_slice overlays relid tid else None) of
            Some tuple \<Rightarrow> Some tuple
          | None \<Rightarrow> relation_slice s relid tid own)"

text \<open>The slice the code computes, for either way of asking.\<close>

definition visible_slice :: "StorageState \<Rightarrow> TransactionOverlay list \<Rightarrow> u32 \<Rightarrow> Tid \<Rightarrow> u32 option \<Rightarrow> u8 list option" where
  "visible_slice s overlays relid tid curcid =
     (case curcid of
        None \<Rightarrow> physical_visible_tuple_slice_in_overlays s overlays relid tid
      | Some curcid \<Rightarrow> physical_visible_tuple_slice_in_overlays_at_cid s overlays relid tid curcid)"

lemma single_overlay_visibility:
  "single_overlay_tid_visibility t relid tid curcid = stack_visibility [t] relid tid curcid"
  by (cases curcid)
    (auto simp: single_overlay_tid_visibility_def stack_visibility_def overlays_invalidate_tid_def overlays_invalidate_tid_before_def
      overlays_clear_tid_def overlays_own_inserted_tid_def overlays_own_inserted_tid_before_def overlay_inserted_cid_def
      Overlay_inserted_cid_def Overlay_invalidated_cid_def unwrap_or_default_def is_some_and_def Let_def split: if_splits option.splits)

lemma single_pending_slice: "overlay_pending_tuple_slice [t] relid tid = Overlay_pending_tuple_slice t relid tid"
  by (simp add: overlay_pending_tuple_slice_def split: option.split)

lemma visible_slice_stack: "visible_slice s overlays relid tid curcid = stack_slice s overlays relid tid curcid"
proof (cases "\<exists>t. overlays = [t]")
  case True
  thus ?thesis
    by (auto simp: visible_slice_def stack_slice_def physical_visible_tuple_slice_in_overlays_def
        physical_visible_tuple_slice_in_overlays_at_cid_def single_overlay_visibility single_pending_slice split: option.split)
next
  case False
  hence "(case overlays of [t] \<Rightarrow> f t | _ \<Rightarrow> x) = x" for f and x :: "u8 list option" by (auto split: list.split)
  thus ?thesis
    by (cases curcid) (simp_all add: visible_slice_def stack_slice_def physical_visible_tuple_slice_in_overlays_def
        physical_visible_tuple_slice_in_overlays_at_cid_def stack_visibility_def Let_def)
qed

section \<open>Chains of redirects\<close>

definition hop :: "(Tid \<Rightarrow> Tid option) \<Rightarrow> (Tid \<Rightarrow> Tid option) \<Rightarrow> Tid \<Rightarrow> Tid option" where
  "hop overlay committed tid = (case overlay tid of None \<Rightarrow> committed tid | Some next_tid \<Rightarrow> Some next_tid)"

fun walk :: "nat \<Rightarrow> (Tid \<Rightarrow> Tid option) \<Rightarrow> Tid \<Rightarrow> Tid" where
  "walk 0 h tid = tid"
| "walk (Suc n) h tid = (case h tid of None \<Rightarrow> tid | Some next_tid \<Rightarrow> walk n h next_tid)"

lemma resolve_walk: "resolve_redirect n overlay committed tid = walk n (hop overlay committed) tid"
  by (induction n arbitrary: tid) (auto simp: hop_def split: option.split)

text \<open>A chain that ends within the limit.\<close>

definition ends :: "nat \<Rightarrow> (Tid \<Rightarrow> Tid option) \<Rightarrow> Tid \<Rightarrow> bool" where
  "ends n h tid \<longleftrightarrow> h (walk n h tid) = None"

lemma ends_Suc: "ends (Suc n) h tid \<longleftrightarrow> (case h tid of None \<Rightarrow> True | Some next_tid \<Rightarrow> ends n h next_tid)"
  by (auto simp: ends_def split: option.split)

lemma walk_stop: "h tid = None \<Longrightarrow> walk n h tid = tid"
  by (cases n) auto

lemma ends_mono: "ends n h tid \<Longrightarrow> n \<le> m \<Longrightarrow> ends m h tid \<and> walk m h tid = walk n h tid"
proof (induction n arbitrary: tid m)
  case 0 thus ?case by (simp add: ends_def walk_stop)
next
  case (Suc n)
  then obtain m' where m: "m = Suc m'" "n \<le> m'" by (cases m) auto
  show ?case using Suc.prems(1) Suc.IH [OF _ m(2)] by (auto simp: m ends_Suc split: option.splits)
qed

text \<open>Shortcutting hops on a chain to its end changes no resolution.\<close>

lemma walk_shortcut:
  assumes short: "\<And>t. h' t = h t \<or> (h t \<noteq> None \<and> h' t = Some (walk n h t) \<and> ends n h t)"
  shows "ends n h t \<Longrightarrow> m \<le> n \<Longrightarrow> ends m h t \<Longrightarrow> ends m h' t \<and> walk m h' t = walk m h t"
proof (induction m arbitrary: t)
  case 0
  have "h t = None" using 0 by (simp add: ends_def)
  thus ?case using short [of t] by (auto simp: ends_def)
next
  case (Suc m)
  show ?case
  proof (cases "h t")
    case None
    hence "h' t = None" using short [of t] by auto
    thus ?thesis using None by (simp add: ends_def)
  next
    case (Some u)
    have u: "ends m h u" "ends n h u" "walk (Suc m) h t = walk m h u"
      using Suc.prems Some ends_mono [of m h u n] by (auto simp: ends_Suc)
    show ?thesis
    proof (cases "h' t = h t")
      case True
      thus ?thesis using Some u Suc.IH [OF u(2) _ u(1)] Suc.prems(2) by (simp add: ends_Suc)
    next
      case False
      hence e: "h' t = Some (walk n h t)" using short [of t] by auto
      have end': "h (walk n h t) = None" using Suc.prems(1) by (simp add: ends_def)
      hence "h' (walk n h t) = None" using short [of "walk n h t"] by auto
      moreover have "walk n h t = walk (Suc m) h t" using ends_mono [OF Suc.prems(3,2)] by simp
      ultimately show ?thesis using e by (simp add: ends_Suc walk_stop ends_def)
    qed
  qed
qed

text \<open>What the compressing loop collects: with no overlay hop, tids on the chain whose end it returns.\<close>

lemma visit_walk:
  "fst (visit_redirect n overlay committed tid visited followed) = walk n (hop overlay committed) tid"
  by (induction n arbitrary: tid visited followed) (auto simp: hop_def split: option.split)

lemma visit_visited:
  assumes "visit_redirect n overlay committed tid visited False = (e, visited', False)"
    and "ends n (hop overlay committed) tid" and "v \<in> set visited'" and "v \<notin> set visited"
  shows "overlay v = None \<and> committed v \<noteq> None \<and> ends n (hop overlay committed) v \<and> walk n (hop overlay committed) v = e"
  using assms
proof (induction n arbitrary: tid visited)
  case (Suc n)
  let ?h = "hop overlay committed"
  have followed: "visit_redirect m overlay committed t vs True \<noteq> (a, b, False)" for m t vs a b
    by (induction m arbitrary: t vs) (auto split: option.split)
  obtain u where u: "overlay tid = None" "committed tid = Some u"
      "visit_redirect n overlay committed u (visited @ [tid]) False = (e, visited', False)"
    using Suc.prems(1,3,4) followed by (cases "overlay tid"; cases "committed tid") auto
  have h: "?h tid = Some u" using u by (simp add: hop_def)
  have eu: "ends n ?h u" using Suc.prems(2) h by (simp add: ends_Suc)
  have e: "walk (Suc n) ?h tid = e" using visit_walk [of "Suc n" overlay committed tid visited False] Suc.prems(1) by simp
  show ?case
  proof (cases "v = tid")
    case True
    thus ?thesis using u e Suc.prems(2) by simp
  next
    case False
    hence "overlay v = None \<and> committed v \<noteq> None \<and> ends n ?h v \<and> walk n ?h v = e"
      using Suc.IH [OF u(3) eu Suc.prems(3)] Suc.prems(4) by simp
    thus ?thesis using ends_mono [of n ?h v "Suc n"] by simp
  qed
qed simp

section \<open>Compressing a chain\<close>

lemma relation_slice_cong:
  assumes "\<And>relid. map_option rs_pages (st_relations s' relid) = map_option rs_pages (st_relations s relid)"
  shows "relation_slice s' = relation_slice s"
proof (intro ext)
  fix relid tid b
  show "relation_slice s' relid tid b = relation_slice s relid tid b"
    using assms [of relid]
    by (auto simp: relation_slice_def Relation_tuple_slice_def Relation_page_def map_option_case split: option.splits)
qed

text \<open>
  A relation keeps two maps of redirects, the hot redirects and the update redirects. The loops that
  resolve and compress a chain rely on this of either: a write is a write at one identifier, and leaves
  the pages and the primary key index as they are.
\<close>

locale redirect_field =
  fixes redirects :: "RelationStorage \<Rightarrow> Tid \<Rightarrow> Tid option"
    and redirect :: "Tid \<Rightarrow> Tid \<Rightarrow> RelationStorage \<Rightarrow> RelationStorage"
  assumes redirects_redirect: "redirects (redirect a b r) = (redirects r)(a \<mapsto> b)"
    and pages_redirect: "rs_pages (redirect a b r) = rs_pages r"
    and keys_redirect: "rs_primary_key_index (redirect a b r) = rs_primary_key_index r"
begin

lemma compress_fields:
  "redirects (compress_redirects redirect e vs r) = (\<lambda>t. if t \<in> set vs \<and> t \<noteq> e then Some e else redirects r t)"
  "rs_pages (compress_redirects redirect e vs r) = rs_pages r"
  "rs_primary_key_index (compress_redirects redirect e vs r) = rs_primary_key_index r"
proof -
  let ?f = "\<lambda>v r. if v \<noteq> e then redirect v e r else r"
  have "redirects (fold ?f vs r) = (\<lambda>t. if t \<in> set vs \<and> t \<noteq> e then Some e else redirects r t)"
    by (induction vs arbitrary: r) (auto simp: redirects_redirect fun_eq_iff)
  thus "redirects (compress_redirects redirect e vs r) = (\<lambda>t. if t \<in> set vs \<and> t \<noteq> e then Some e else redirects r t)"
    by (simp add: compress_redirects_def)
  have "rs_pages (fold ?f vs r) = rs_pages r \<and> rs_primary_key_index (fold ?f vs r) = rs_primary_key_index r"
    by (induction vs arbitrary: r) (auto simp: pages_redirect keys_redirect)
  thus "rs_pages (compress_redirects redirect e vs r) = rs_pages r"
    "rs_primary_key_index (compress_redirects redirect e vs r) = rs_primary_key_index r"
    by (simp_all add: compress_redirects_def)
qed

lemma hop_compressed:
  assumes ends: "ends n (hop overlay (committed_redirect redirects s relid)) tid"
    and visit: "visit_redirect n overlay (committed_redirect redirects s relid) tid [] False = (e, vs, False)"
    and s': "s' = with_relation relid (compress_redirects redirect e vs) s"
  shows "hop overlay (committed_redirect redirects s' relid) t = hop overlay (committed_redirect redirects s relid) t
    \<or> (hop overlay (committed_redirect redirects s relid) t \<noteq> None
       \<and> hop overlay (committed_redirect redirects s' relid) t = Some (walk n (hop overlay (committed_redirect redirects s relid)) t)
       \<and> ends n (hop overlay (committed_redirect redirects s relid)) t)"
proof -
  have c: "committed_redirect redirects s' relid t =
      (if t \<in> set vs \<and> t \<noteq> e \<and> st_relations s relid \<noteq> None then Some e else committed_redirect redirects s relid t)"
    by (auto simp: s' committed_redirect_def with_relation_def put_relation_def compress_fields split: option.split)
  show ?thesis
  proof (cases "t \<in> set vs")
    case True
    show ?thesis using visit_visited [OF visit ends True] by (auto simp: hop_def c)
  next
    case False
    hence "committed_redirect redirects s' relid t = committed_redirect redirects s relid t" by (simp add: c)
    thus ?thesis by (simp add: hop_def split: option.split)
  qed
qed

text \<open>Compressing a chain changes no resolution, no row and no key.\<close>

lemma compressed:
  assumes ends: "\<And>t. ends n (hop overlay (committed_redirect redirects s relid)) t"
    and visit: "visit_redirect n overlay (committed_redirect redirects s relid) tid [] False = (e, vs, followed)"
    and s': "s' = (if \<not> followed \<and> e \<noteq> tid then with_relation relid (compress_redirects redirect e vs) s else s)"
  shows "ends n (hop overlay (committed_redirect redirects s' relid)) t
      \<and> walk n (hop overlay (committed_redirect redirects s' relid)) t = walk n (hop overlay (committed_redirect redirects s relid)) t"
    "relation_slice s' = relation_slice s"
    "Option.bind (st_relations s' relid) (\<lambda>r. rs_primary_key_index r key) = Option.bind (st_relations s relid) (\<lambda>r. rs_primary_key_index r key)"
proof -
  show "ends n (hop overlay (committed_redirect redirects s' relid)) t
      \<and> walk n (hop overlay (committed_redirect redirects s' relid)) t = walk n (hop overlay (committed_redirect redirects s relid)) t"
  proof (cases "\<not> followed \<and> e \<noteq> tid")
    case True
    have v: "visit_redirect n overlay (committed_redirect redirects s relid) tid [] False = (e, vs, False)" using visit True by simp
    have "s' = with_relation relid (compress_redirects redirect e vs) s" using True s' by simp
    from walk_shortcut [OF hop_compressed [OF ends v this], OF ends order_refl ends] show ?thesis .
  qed (use ends s' in auto)
  show "relation_slice s' = relation_slice s"
    by (rule relation_slice_cong) (simp add: s' with_relation_def put_relation_def compress_fields split: option.split)
  show "Option.bind (st_relations s' relid) (\<lambda>r. rs_primary_key_index r key) = Option.bind (st_relations s relid) (\<lambda>r. rs_primary_key_index r key)"
    by (simp add: s' with_relation_def put_relation_def compress_fields split: option.split)
qed

end

interpretation hot: redirect_field rs_hot_redirects Relation_insert_hot_redirect
  by unfold_locales (simp_all add: Relation_insert_hot_redirect_def Let_def split: option.split)

interpretation upd: redirect_field rs_update_redirects "\<lambda>old_tid new_tid r. r\<lparr>rs_update_redirects := (rs_update_redirects r)(old_tid \<mapsto> new_tid)\<rparr>"
  by unfold_locales simp_all

definition chain_hop :: "StorageState \<Rightarrow> TransactionOverlay list \<Rightarrow> u32 \<Rightarrow> Tid \<Rightarrow> Tid option" where
  "chain_hop s overlays relid = hop (overlay_tid_redirect overlays relid) (committed_redirect rs_hot_redirects s relid)"

definition update_hop :: "StorageState \<Rightarrow> TransactionOverlay list \<Rightarrow> u32 \<Rightarrow> Tid \<Rightarrow> Tid option" where
  "update_hop s overlays relid = hop (overlay_update_redirect overlays relid) (committed_redirect rs_update_redirects s relid)"

text \<open>Every chain of a relation ends within the hops the code takes.\<close>

definition chains_end :: "StorageState \<Rightarrow> TransactionOverlay list \<Rightarrow> u32 \<Rightarrow> bool" where
  "chains_end s overlays relid \<longleftrightarrow> (\<forall>tid. ends MAX_HOT_REDIRECT_HOPS (chain_hop s overlays relid) tid)"

definition update_chains_end :: "StorageState \<Rightarrow> TransactionOverlay list \<Rightarrow> u32 \<Rightarrow> bool" where
  "update_chains_end s overlays relid \<longleftrightarrow> (\<forall>tid. ends MAX_HOT_REDIRECT_HOPS (update_hop s overlays relid) tid)"

text \<open>Two states in which a transaction finds the same rows.\<close>

definition same_view :: "TransactionOverlay list \<Rightarrow> u32 \<Rightarrow> StorageState \<Rightarrow> StorageState \<Rightarrow> bool" where
  "same_view overlays relid s s' \<longleftrightarrow> chains_end s' overlays relid
     \<and> (\<forall>tid. resolve_tid_redirect_in_overlays s' overlays relid tid = resolve_tid_redirect_in_overlays s overlays relid tid)
     \<and> relation_slice s' = relation_slice s
     \<and> (\<forall>key. Option.bind (st_relations s' relid) (\<lambda>r. rs_primary_key_index r key) = Option.bind (st_relations s relid) (\<lambda>r. rs_primary_key_index r key))"

lemma same_view_refl: "chains_end s overlays relid \<Longrightarrow> same_view overlays relid s s"
  by (simp add: same_view_def)

lemma same_view_trans: "same_view overlays relid s s' \<Longrightarrow> same_view overlays relid s' s'' \<Longrightarrow> same_view overlays relid s s''"
  by (simp add: same_view_def)

lemma same_view_physical:
  "same_view overlays relid s s' \<Longrightarrow> physical_visible_tuple_slice_in_overlays s' stack = physical_visible_tuple_slice_in_overlays s stack"
proof -
  assume "same_view overlays relid s s'"
  hence "relation_slice s' = relation_slice s" by (simp add: same_view_def)
  thus ?thesis unfolding physical_visible_tuple_slice_in_overlays_def by presburger
qed

lemma compress_ok:
  assumes "chains_end s overlays relid"
  shows "fst (resolve_tid_redirect_in_overlays_compress overlays relid tid s) = resolve_tid_redirect_in_overlays s overlays relid tid"
    "same_view overlays relid s (snd (resolve_tid_redirect_in_overlays_compress overlays relid tid s))"
proof -
  let ?o = "overlay_tid_redirect overlays relid" and ?c = "committed_redirect rs_hot_redirects s relid" and ?n = MAX_HOT_REDIRECT_HOPS
  obtain e vs followed where v: "visit_redirect ?n ?o ?c tid [] False = (e, vs, followed)" by (metis prod_cases3)
  show "fst (resolve_tid_redirect_in_overlays_compress overlays relid tid s) = resolve_tid_redirect_in_overlays s overlays relid tid"
    using visit_walk [of ?n ?o ?c tid "[]" False] v
    by (simp add: resolve_tid_redirect_in_overlays_compress_def resolve_tid_redirect_in_overlays_def resolve_walk)
  have "ends ?n (hop ?o ?c) t" for t using assms by (simp add: chains_end_def chain_hop_def)
  note c = hot.compressed [OF this v refl]
  have "snd (resolve_tid_redirect_in_overlays_compress overlays relid tid s) =
      (if \<not> followed \<and> e \<noteq> tid then with_relation relid (compress_redirects Relation_insert_hot_redirect e vs) s else s)"
    using v by (simp add: resolve_tid_redirect_in_overlays_compress_def)
  thus "same_view overlays relid s (snd (resolve_tid_redirect_in_overlays_compress overlays relid tid s))"
    using c by (simp add: same_view_def chains_end_def chain_hop_def resolve_tid_redirect_in_overlays_def resolve_walk)
qed

lemma update_compress_ok:
  assumes "update_chains_end s overlays relid"
  shows "fst (resolve_update_redirect_in_overlays_compress overlays relid tid s) = resolve_update_redirect_in_overlays s overlays relid tid"
    "update_chains_end (snd (resolve_update_redirect_in_overlays_compress overlays relid tid s)) overlays relid"
    "resolve_update_redirect_in_overlays (snd (resolve_update_redirect_in_overlays_compress overlays relid tid s)) overlays relid t =
       resolve_update_redirect_in_overlays s overlays relid t"
    "relation_slice (snd (resolve_update_redirect_in_overlays_compress overlays relid tid s)) = relation_slice s"
proof -
  let ?o = "overlay_update_redirect overlays relid" and ?c = "committed_redirect rs_update_redirects s relid" and ?n = MAX_HOT_REDIRECT_HOPS
  let ?s = "snd (resolve_update_redirect_in_overlays_compress overlays relid tid s)"
  obtain e vs followed where v: "visit_redirect ?n ?o ?c tid [] False = (e, vs, followed)" by (metis prod_cases3)
  show "fst (resolve_update_redirect_in_overlays_compress overlays relid tid s) = resolve_update_redirect_in_overlays s overlays relid tid"
    using visit_walk [of ?n ?o ?c tid "[]" False] v
    by (simp add: resolve_update_redirect_in_overlays_compress_def resolve_update_redirect_in_overlays_def resolve_walk)
  have "ends ?n (hop ?o ?c) t" for t using assms by (simp add: update_chains_end_def update_hop_def)
  note c = upd.compressed [OF this v refl]
  have "?s = (if \<not> followed \<and> e \<noteq> tid then with_relation relid (compress_redirects
      (\<lambda>old_tid new_tid r. r\<lparr>rs_update_redirects := (rs_update_redirects r)(old_tid \<mapsto> new_tid)\<rparr>) e vs) s else s)"
    using v by (simp add: resolve_update_redirect_in_overlays_compress_def)
  thus "update_chains_end ?s overlays relid"
    "resolve_update_redirect_in_overlays ?s overlays relid t = resolve_update_redirect_in_overlays s overlays relid t"
    "relation_slice ?s = relation_slice s"
    using c by (simp_all add: update_chains_end_def update_hop_def resolve_update_redirect_in_overlays_def resolve_walk)
qed

section \<open>Lookups by primary key\<close>

lemma lookup_overlays_ok:
  assumes "chains_end s stack relid"
  shows "fst (lookup_overlays stack s ts relid key) = lookup_overlays_read stack s ts relid key
    \<and> same_view stack relid s (snd (lookup_overlays stack s ts relid key))"
  using assms
proof (induction ts arbitrary: s)
  case (Cons t ts)
  show ?case
  proof (cases "Option.bind (RelidMap_get (to_primary_key_inserts t) relid) (\<lambda>entries. entries key)")
    case None
    thus ?thesis using Cons.IH [OF Cons.prems] same_view_refl [OF Cons.prems] by simp
  next
    case (Some tid)
    obtain e s' where c: "resolve_tid_redirect_in_overlays_compress stack relid tid s = (e, s')" by fastforce
    note ok = compress_ok [OF Cons.prems, of tid, unfolded c fst_conv snd_conv]
    have phys: "physical_visible_tuple_slice_in_overlays s' = physical_visible_tuple_slice_in_overlays s"
      using same_view_physical [OF ok(2)] by (simp add: fun_eq_iff)
    have res: "resolve_tid_redirect_in_overlays s' stack relid = resolve_tid_redirect_in_overlays s stack relid"
      using ok(2) by (simp add: same_view_def fun_eq_iff)
    have "chains_end s' stack relid" using ok(2) by (simp add: same_view_def)
    note IH = Cons.IH [OF this]
    have read: "lookup_overlays_read stack s' ts relid key = lookup_overlays_read stack s ts relid key"
      by (induction ts) (simp_all add: phys res Let_def split: option.split)
    show ?thesis using Some c ok IH read same_view_trans [OF ok(2)] by (simp add: phys Let_def split: option.split)
  qed
qed (simp add: same_view_refl)

lemma primary_key_lookup_ok:
  assumes "chains_end s [] relid" "chains_end s (ss_transaction_stack session) relid"
  shows "fst (primary_key_lookup session relid key s) = primary_key_lookup_read s session relid key"
proof -
  let ?stack = "ss_transaction_stack session"
  obtain res s' where l: "lookup_overlays ?stack s (rev ?stack) relid key = (res, s')" by fastforce
  note lok = lookup_overlays_ok [OF assms(2), of "rev ?stack" key, unfolded l fst_conv snd_conv]
  have "chains_end s' ?stack relid" using lok by (simp add: same_view_def)
  note c0 = compress_ok [OF assms(1)] and c1 = compress_ok [OF this]
  have slice: "relation_slice (snd (resolve_tid_redirect_in_overlays_compress [] relid tid s)) = relation_slice s" for tid
    using c0(2) [of tid] by (simp add: same_view_def)
  have phys: "physical_visible_tuple_slice_in_overlays (snd (resolve_tid_redirect_in_overlays_compress ?stack relid tid s')) ?stack
      = physical_visible_tuple_slice_in_overlays s ?stack" for tid
    using same_view_physical [OF same_view_trans [OF lok [THEN conjunct2] c1(2) [of tid]], of ?stack] .
  have res: "resolve_tid_redirect_in_overlays s' ?stack relid tid = resolve_tid_redirect_in_overlays s ?stack relid tid" for tid
    using lok by (simp add: same_view_def)
  have pk: "Option.bind (st_relations s' relid) (\<lambda>r. rs_primary_key_index r key) = Option.bind (st_relations s relid) (\<lambda>r. rs_primary_key_index r key)"
    using lok by (simp add: same_view_def)
  show ?thesis
    using lok by (auto simp: primary_key_lookup_def primary_key_lookup_read_def Let_def l pk slice phys res c0(1) c1(1) case_prod_unfold split: option.split)
qed

end
