(* ===== verification/Storage2_Transactions.thy ===== *)
theory Storage2_Transactions
  imports Storage2_Visibility
begin

text \<open>
  What transactions do to the rows of a relation and to what each session sees of them: an append is
  seen by its own transaction and by no other, and a rollback changes nothing another session sees.
\<close>

section \<open>Maps from relation identifiers\<close>

lemma RelidMap_get_insert [simp]:
  "RelidMap_get (RelidMap_insert relid v m) relid' = (if relid' = relid then Some v else RelidMap_get m relid')"
  by (induction relid v m rule: RelidMap_insert.induct) (auto simp: RelidMap_get_def)

lemma RelidMap_get_Nil [simp]: "RelidMap_get [] relid = None"
  by (simp add: RelidMap_get_def)

lemma RelidMap_get_entry [simp]:
  "RelidMap_get (RelidMap_entry relid v f m) relid' =
    (if relid' = relid then Some (f (case RelidMap_get m relid of None \<Rightarrow> v | Some x \<Rightarrow> x)) else RelidMap_get m relid')"
  by (simp add: RelidMap_entry_def)

lemma set_push_unique [simp]: "set (push_unique x xs) = insert x (set xs)"
  by (auto simp: push_unique_def)

section \<open>The last element that satisfies a test\<close>

lemma find_last_Some:
  "find_last P xs = Some x \<longleftrightarrow> (\<exists>as bs. xs = as @ x # bs \<and> P x \<and> (\<forall>b \<in> set bs. \<not> P b))"
proof
  have "\<exists>as bs. ys = as @ x # bs \<and> P x \<and> (\<forall>a \<in> set as. \<not> P a)" if "List.find P ys = Some x" for ys
    using that
  proof (induction ys)
    case (Cons y ys)
    show ?case
    proof (cases "P y")
      case True
      thus ?thesis using Cons.prems by - (rule exI [of _ "[]"], rule exI [of _ ys], simp)
    next
      case False
      then obtain as bs where "ys = as @ x # bs" "P x" "\<forall>a \<in> set as. \<not> P a" using Cons by auto
      thus ?thesis using False by - (rule exI [of _ "y # as"], rule exI [of _ bs], simp)
    qed
  qed simp
  moreover assume "find_last P xs = Some x"
  ultimately obtain as bs where "rev xs = as @ x # bs" "P x" "\<forall>a \<in> set as. \<not> P a" unfolding find_last_def by blast
  moreover from this(1) have "xs = rev (as @ x # bs)" by (metis rev_rev_ident)
  ultimately show "\<exists>as bs. xs = as @ x # bs \<and> P x \<and> (\<forall>b \<in> set bs. \<not> P b)" by - (rule exI [of _ "rev bs"], rule exI [of _ "rev as"], simp)
next
  have "List.find P (cs @ x # ds) = Some x" if "P x" "\<forall>b \<in> set cs. \<not> P b" for cs ds
    using that by (induction cs) auto
  thus "find_last P xs = Some x" if "\<exists>as bs. xs = as @ x # bs \<and> P x \<and> (\<forall>b \<in> set bs. \<not> P b)"
    using that by (auto simp: find_last_def)
qed

lemma find_last_None: "find_last P xs = None \<longleftrightarrow> (\<forall>x \<in> set xs. \<not> P x)"
  by (auto simp: find_last_def find_None_iff)

lemma set_last_split:
  assumes "P x" "\<forall>b \<in> set bs. \<not> P b" shows "set_last P y (as @ x # bs) = as @ y # bs"
proof -
  have "set_first P y (cs @ x # ds) = cs @ y # ds" if "\<forall>b \<in> set cs. \<not> P b" for cs ds
    using that assms(1) by (induction cs) auto
  from this [of "rev bs" "rev as"] show ?thesis using assms(2) by (simp add: set_last_def)
qed

text \<open>Pages with different blocks: the page of a block is the one in the list.\<close>

lemma find_block:
  assumes "distinct (map pg_block pages)"
  shows "find_last (\<lambda>p. pg_block p = b) pages = Some p \<longleftrightarrow> p \<in> set pages \<and> pg_block p = b"
proof
  assume p: "p \<in> set pages \<and> pg_block p = b"
  then obtain as bs where "pages = as @ p # bs" by (meson split_list)
  moreover from this have "\<forall>q \<in> set bs. pg_block q \<noteq> b" using assms p by (auto simp: image_iff)
  ultimately show "find_last (\<lambda>p. pg_block p = b) pages = Some p" using p unfolding find_last_Some by blast
qed (auto simp: find_last_Some)

lemma find_block_replaced:
  assumes "distinct (map pg_block (as @ x # bs))" "pg_block y = pg_block x"
  shows "find_last (\<lambda>p. pg_block p = b) (as @ y # bs) = (if b = pg_block x then Some y else find_last (\<lambda>p. pg_block p = b) (as @ x # bs))"
proof -
  have d: "distinct (map pg_block (as @ y # bs))" using assms by simp
  show ?thesis
  proof (cases "b = pg_block x")
    case True
    thus ?thesis using find_block [OF d, of b y] assms(2) by simp
  next
    case False
    have "find_last (\<lambda>p. pg_block p = b) (as @ y # bs) = Some p \<longleftrightarrow> find_last (\<lambda>p. pg_block p = b) (as @ x # bs) = Some p" for p
      using find_block [OF d, of b p] find_block [OF assms(1), of b p] False assms(2) by auto
    thus ?thesis using False by (metis not_None_eq)
  qed
qed

section \<open>Pending pages\<close>

definition pending_ok :: "Page list \<Rightarrow> bool" where
  "pending_ok pages \<longleftrightarrow> distinct (map pg_block pages) \<and> (\<forall>page \<in> set pages. page_ok page)"

definition pending_row :: "Page list \<Rightarrow> Tid \<Rightarrow> u8 list option" where
  "pending_row pages tid = Option.bind (find_last (\<lambda>p. pg_block p = tid_block tid) pages) (Page_tuple_slice (tid_offset tid) True)"

lemma pending_slice_row: "Overlay_pending_tuple_slice t relid tid = pending_row (entries_of (to_pending_pages t) relid) tid"
  by (simp add: Overlay_pending_tuple_slice_def Overlay_pending_page_def pending_row_def entries_of_def find_last_def split: option.split)

lemma append_slice:
  assumes ok: "page_ok p" and app: "Page_append_tuple_with_state tuple Pending p = (Some tid, q)"
  shows "Page_tuple_slice off True q = (if off = tid_offset tid then Some tuple else Page_tuple_slice off True p)"
    "page_ok q" "pg_block q = pg_block p" "tid_block tid = pg_block p" "length (pg_lines p) < unat (tid_offset tid)"
proof -
  have l: "page_layout p" using ok by (simp add: page_ok_def)
  have a: "appends tuple p" "tid = \<lparr>tid_block = pg_block p, tid_offset = of_nat (Suc (length (pg_lines p)))\<rparr>"
    using append_tuple_tid [OF l, of tuple Pending] app by (auto split: if_splits)
  have q: "page_ok q" "pg_block q = pg_block p" "Page_rows q = Page_rows p @ [new_row Pending tuple]"
    using append_tuple_ok [OF ok, of tuple Pending] append_tuple_bytes [OF l, of tuple Pending] append_tuple_rows [OF l, of tuple Pending] app a by simp_all
  have n: "length (pg_lines p) < MAX_CTID_OFFSET" using a(1) by (simp add: appends_def Page_can_fit_def)
  have lq: "page_layout q" using q(1) by (simp add: page_ok_def)
  show "Page_tuple_slice off True q = (if off = tid_offset tid then Some tuple else Page_tuple_slice off True p)"
    using page_row_append [OF q(3) n, of off] by (simp add: tuple_slice_row [OF lq] tuple_slice_row [OF l] a(2) new_row_def)
  show "page_ok q" "pg_block q = pg_block p" "tid_block tid = pg_block p" using q a by simp_all
  have "Suc (length (pg_lines p)) < 2 ^ 16" using n by (simp add: MAX_CTID_OFFSET_def)
  hence "unat (tid_offset tid) = Suc (length (pg_lines p))" unfolding a(2) Tid.simps by (subst unat_of_nat) simp
  thus "length (pg_lines p) < unat (tid_offset tid)" by simp
qed

lemma failed_append_slice:
  assumes ok: "page_ok p" and app: "Page_append_tuple_with_state tuple Pending p = (None, q)"
  shows "Page_tuple_slice off True q = Page_tuple_slice off True p" "page_ok q" "pg_block q = pg_block p"
proof -
  have l: "page_layout p" using ok by (simp add: page_ok_def)
  have "\<not> appends tuple p" using append_tuple_tid [OF l, of tuple Pending] app by (auto split: if_splits)
  hence q: "page_ok q" "pg_block q = pg_block p" "Page_rows q = Page_rows p"
    using append_tuple_ok [OF ok, of tuple Pending] append_tuple_bytes [OF l, of tuple Pending] append_tuple_rows [OF l, of tuple Pending] app by simp_all
  hence lq: "page_layout q" by (simp add: page_ok_def)
  have "page_row off q = page_row off p" for off using q(3) by (simp add: page_row_def split: option.split)
  thus "Page_tuple_slice off True q = Page_tuple_slice off True p" by (simp add: tuple_slice_row [OF lq] tuple_slice_row [OF l])
  show "page_ok q" "pg_block q = pg_block p" using q by simp_all
qed

lemma pending_row_replaced:
  assumes "distinct (map pg_block (as @ x # bs))" "pg_block y = pg_block x"
  shows "pending_row (as @ y # bs) t = (if tid_block t = pg_block x then Page_tuple_slice (tid_offset t) True y else pending_row (as @ x # bs) t)"
  by (simp add: pending_row_def find_block_replaced [OF assms])

lemma pending_row_at:
  assumes "distinct (map pg_block pages)" "x \<in> set pages" "tid_block t = pg_block x"
  shows "pending_row pages t = Page_tuple_slice (tid_offset t) True x"
  using assms(2,3) by (simp add: pending_row_def find_block [OF assms(1), THEN iffD2])

definition row_added :: "Tid option \<Rightarrow> 'a \<Rightarrow> (Tid \<rightharpoonup> 'a) \<Rightarrow> (Tid \<rightharpoonup> 'a)" where
  "row_added tid x m = (case tid of None \<Rightarrow> m | Some tid \<Rightarrow> m(tid \<mapsto> x))"

text \<open>The identifiers that pending pages, or blocks below the next one, already gave out.\<close>

definition given_out :: "Page list \<Rightarrow> u32 \<Rightarrow> Tid \<Rightarrow> bool" where
  "given_out pages next_block tid \<longleftrightarrow>
     (case find_last (\<lambda>p. pg_block p = tid_block tid) pages of
        None \<Rightarrow> tid_block tid < next_block
      | Some page \<Rightarrow> unat (tid_offset tid) \<le> length (pg_lines page))"

text \<open>A page of the list takes the tuple, or refuses it.\<close>

lemma pending_append:
  assumes ok: "pending_ok (as @ x # bs)" and app: "Page_append_tuple_with_state tuple Pending x = (res, y)"
  shows "pending_row (as @ y # bs) = row_added res tuple (pending_row (as @ x # bs))" "pending_ok (as @ y # bs)" "pg_block y = pg_block x"
    "res = Some tid \<Longrightarrow> \<not> given_out (as @ x # bs) n tid" "res = Some tid \<Longrightarrow> tid_block tid = pg_block x"
proof -
  have d: "distinct (map pg_block (as @ x # bs))" and x: "page_ok x" using ok by (auto simp: pending_ok_def)
  have mem: "x \<in> set (as @ x # bs)" by simp
  have old: "pending_row (as @ x # bs) t = Page_tuple_slice (tid_offset t) True x" if "tid_block t = pg_block x" for t
    by (rule pending_row_at [OF d mem that])
  have "page_ok y \<and> pg_block y = pg_block x" using append_slice(2,3) [OF x] failed_append_slice(2,3) [OF x] app by (cases res) auto
  thus y: "pg_block y = pg_block x" and "pending_ok (as @ y # bs)" using ok by (auto simp: pending_ok_def)
  show "pending_row (as @ y # bs) = row_added res tuple (pending_row (as @ x # bs))"
  proof (cases res)
    case None
    thus ?thesis using failed_append_slice(1) [OF x] app old by (auto simp: fun_eq_iff row_added_def pending_row_replaced [OF d y])
  next
    case (Some tid)
    note s = append_slice [OF x app [unfolded Some]]
    show ?thesis
    proof
      fix t
      show "pending_row (as @ y # bs) t = row_added res tuple (pending_row (as @ x # bs)) t"
      proof (cases "t = tid")
        case False
        hence "tid_block t \<noteq> pg_block x \<or> tid_offset t \<noteq> tid_offset tid" using s(4) by (auto intro: Tid.equality)
        thus ?thesis using False old [of t] by (auto simp: Some row_added_def pending_row_replaced [OF d y] s(1))
      qed (simp add: Some row_added_def pending_row_replaced [OF d y] s(1,4))
    qed
  qed
  show "\<not> given_out (as @ x # bs) n tid" "tid_block tid = pg_block x" if "res = Some tid"
    using append_slice(4,5) [OF x app [unfolded that]] find_block [OF d, of "tid_block tid" x] mem by (simp_all add: given_out_def)
qed

lemma entries_of_insert [simp]:
  "entries_of (RelidMap_insert relid v m) relid' = (if relid' = relid then v else entries_of m relid')"
  by (simp add: entries_of_def)

lemma entries_of_entry [simp]:
  "entries_of (RelidMap_entry relid [] f m) relid' = (if relid' = relid then f (entries_of m relid) else entries_of m relid')"
  by (simp add: entries_of_def)

lemma append_existing_page:
  assumes ok: "pending_ok (entries_of (to_pending_pages t) relid)"
    and app: "Overlay_append_pending_tuple_to_existing_page relid tuple m t = (res, t')"
  shows "\<exists>pp. t' = t\<lparr>to_pending_pages := pp\<rparr> \<and> pending_ok (entries_of pp relid)
    \<and> map pg_block (entries_of pp relid) = map pg_block (entries_of (to_pending_pages t) relid)
    \<and> pending_row (entries_of pp relid) = row_added res tuple (pending_row (entries_of (to_pending_pages t) relid))
    \<and> (\<forall>relid'. relid' \<noteq> relid \<longrightarrow> entries_of pp relid' = entries_of (to_pending_pages t) relid')
    \<and> (\<forall>tid n. res = Some tid \<longrightarrow> \<not> given_out (entries_of (to_pending_pages t) relid) n tid)"
proof (cases "RelidMap_get (to_pending_pages t) relid")
  case None
  thus ?thesis using ok app by (auto simp: Overlay_append_pending_tuple_to_existing_page_def row_added_def intro!: exI [of _ "to_pending_pages t"])
next
  case (Some pages)
  have e: "entries_of (to_pending_pages t) relid = pages" using Some by (simp add: entries_of_def)
  let ?takes = "takes_tuple (length tuple) m"
  show ?thesis
  proof (cases "find_last ?takes pages")
    case None
    thus ?thesis using Some ok app
      by (auto simp: Overlay_append_pending_tuple_to_existing_page_def Let_def row_added_def intro!: exI [of _ "to_pending_pages t"])
  next
    case find: (Some x)
    then obtain as bs where p: "pages = as @ x # bs" "?takes x" "\<forall>b \<in> set bs. \<not> ?takes b" by (auto simp: find_last_Some)
    obtain y where y: "Page_append_tuple_with_state tuple Pending x = (res, y)" "t' = t\<lparr>to_pending_pages := RelidMap_insert relid (as @ y # bs) (to_pending_pages t)\<rparr>"
      using app Some find set_last_split [OF p(2,3)] p(1)
      by (auto simp: Overlay_append_pending_tuple_to_existing_page_def Let_def split: prod.splits)
    note a = pending_append [OF ok [unfolded e p(1)] y(1)]
    show ?thesis using a by (intro exI [of _ "RelidMap_insert relid (as @ y # bs) (to_pending_pages t)"]) (simp add: y(2) e p(1))
  qed
qed

lemma append_new_page:
  assumes ok: "pending_ok (entries_of (to_pending_pages t) relid)" and page: "page_ok page" "pg_lines page = []"
    and fresh: "pg_block page \<notin> set (map pg_block (entries_of (to_pending_pages t) relid))" and app: "appends tuple page"
  obtains tid pp where "Overlay_append_pending_tuple_to_new_page relid page tuple t = (Some tid, t\<lparr>to_pending_pages := pp\<rparr>)"
    "pending_ok (entries_of pp relid)" "map pg_block (entries_of pp relid) = map pg_block (entries_of (to_pending_pages t) relid) @ [pg_block page]"
    "pending_row (entries_of pp relid) = (pending_row (entries_of (to_pending_pages t) relid))(tid \<mapsto> tuple)"
    "\<forall>relid'. relid' \<noteq> relid \<longrightarrow> entries_of pp relid' = entries_of (to_pending_pages t) relid'"
    "tid_block tid = pg_block page"
proof -
  let ?pages = "entries_of (to_pending_pages t) relid"
  have l: "page_layout page" using page by (simp add: page_ok_def)
  obtain tid q where q: "Page_append_tuple_with_state tuple Pending page = (Some tid, q)"
    using append_tuple_tid [OF l, of tuple Pending] app by (cases "Page_append_tuple_with_state tuple Pending page") auto
  have ok': "pending_ok (?pages @ [page])" using ok page(1) fresh by (auto simp: pending_ok_def)
  note a = pending_append [OF ok' q]
  have empty: "Page_tuple_slice off True page = None" for off
    using page(2) by (auto simp: Page_tuple_slice_def Page_line_def vec_get_def split: option.splits)
  have old: "pending_row (?pages @ [page]) = pending_row ?pages"
  proof
    fix u :: Tid
    have "find_last (\<lambda>p. pg_block p = tid_block u) ?pages = None" if "tid_block u = pg_block page"
      unfolding find_last_None using fresh that by (metis imageI list.set_map)
    thus "pending_row (?pages @ [page]) u = pending_row ?pages u" using empty
      by (cases "tid_block u = pg_block page") (auto simp: pending_row_def find_last_def)
  qed
  show thesis
  proof (rule that)
    show "Overlay_append_pending_tuple_to_new_page relid page tuple t =
        (Some tid, t\<lparr>to_pending_pages := RelidMap_entry relid [] (\<lambda>pages. pages @ [q]) (to_pending_pages t)\<rparr>)"
      using q by (simp add: Overlay_append_pending_tuple_to_new_page_def)
  qed (use a old in \<open>simp_all add: row_added_def\<close>)
qed

section \<open>Appending a row\<close>

text \<open>What the stack sees of a row depends on the top overlay only through these.\<close>

lemma stack_slice_cong:
  assumes "Overlay_contains_inserted_tid t' relid tid = Overlay_contains_inserted_tid t relid tid"
    "Overlay_inserted_cid t' relid tid = Overlay_inserted_cid t relid tid" "Overlay_invalidated_cid t' relid tid = Overlay_invalidated_cid t relid tid"
    "Overlay_cleared t' relid = Overlay_cleared t relid" "Overlay_pending_tuple_slice t' relid tid = Overlay_pending_tuple_slice t relid tid"
    "relation_slice s' = relation_slice s"
  shows "stack_slice s' (ts @ [t']) relid tid c = stack_slice s (ts @ [t]) relid tid c"
proof -
  have r: "rev (ts @ [x]) = x # rev ts" for x :: TransactionOverlay by simp
  have v: "stack_visibility (ts @ [t']) relid tid c = stack_visibility (ts @ [t]) relid tid c"
    unfolding stack_visibility_def overlays_invalidate_tid_def overlays_invalidate_tid_before_def overlays_clear_tid_def
      overlays_own_inserted_tid_def overlays_own_inserted_tid_before_def overlay_inserted_cid_def
      r invalidate_tid.simps clear_tid.simps own_inserted.simps find_map.simps assms(1-4) ..
  have p: "overlay_pending_tuple_slice (ts @ [t']) relid tid = overlay_pending_tuple_slice (ts @ [t]) relid tid"
    unfolding overlay_pending_tuple_slice_def r pending_slice.simps assms(4,5) ..
  show ?thesis unfolding stack_slice_def v p assms(6) ..
qed

lemma empty_stack_slice: "stack_slice s [TransactionOverlay_default] relid tid c = stack_slice s [] relid tid c"
  by (cases c) (simp_all add: stack_slice_def stack_visibility_def overlays_invalidate_tid_def overlays_invalidate_tid_before_def
    overlays_clear_tid_def overlays_own_inserted_tid_def overlays_own_inserted_tid_before_def overlay_inserted_cid_def
    Overlay_contains_inserted_tid_def Overlay_inserted_cid_def Overlay_contains_invalidated_tid_def Overlay_invalidated_cid_def
    Overlay_cleared_def RelidMap_contains_key_def TransactionOverlay_default_def is_some_and_def)

text \<open>The rows of a relation a session sees.\<close>

definition session_view :: "StorageState \<Rightarrow> SessionStorage \<Rightarrow> u32 \<Rightarrow> Tid \<rightharpoonup> u8 list" where
  "session_view s session relid tid = physical_visible_tuple_slice_in_overlays s (ss_transaction_stack session) relid tid"

lemma session_view_stack: "session_view s session relid tid = stack_slice s (ss_transaction_stack session) relid tid None"
  using visible_slice_stack [of s "ss_transaction_stack session" relid tid None] by (simp add: session_view_def visible_slice_def)

lemma session_view_cong: "relation_slice s' = relation_slice s \<Longrightarrow> session_view s' = session_view s"
  by (intro ext) (simp add: session_view_stack stack_slice_def split: option.split)

lemma ensure_transaction_stack:
  obtains ts where "ss_transaction_stack (Session_ensure_transaction session) = ts @ [top_overlay (Session_ensure_transaction session)]"
    "\<And>s. session_view s (Session_ensure_transaction session) = session_view s session"
proof
  show "ss_transaction_stack (Session_ensure_transaction session) =
      butlast (ss_transaction_stack (Session_ensure_transaction session)) @ [top_overlay (Session_ensure_transaction session)]"
    by (simp add: Session_ensure_transaction_def top_overlay_def)
  show "session_view s (Session_ensure_transaction session) = session_view s session" for s
    by (simp add: fun_eq_iff session_view_stack Session_ensure_transaction_def empty_stack_slice)
qed

text \<open>The pending pages of the open overlay: well formed, in different blocks, each given out by the relation.\<close>

definition append_ready :: "SessionStorage \<Rightarrow> StorageState \<Rightarrow> u32 \<Rightarrow> bool" where
  "append_ready session s relid \<longleftrightarrow>
     (let pages = entries_of (to_pending_pages (top_overlay (Session_ensure_transaction session))) relid
      in pending_ok pages \<and> (\<forall>page \<in> set pages. pg_block page < rs_next_block (relation_mut relid s))
         \<and> rs_next_block (relation_mut relid s) \<noteq> - 1)"

text \<open>An overlay that cleared the relation and deleted the row in its first command: a row inserted at the same
  identifier afterwards is not deleted.\<close>

definition delete_shadowed :: "TransactionOverlay \<Rightarrow> u32 \<Rightarrow> Tid \<Rightarrow> bool" where
  "delete_shadowed t relid tid \<longleftrightarrow> Overlay_cleared t relid \<and> Overlay_invalidated_cid t relid tid = Some 0"

definition reinsertable :: "SessionStorage \<Rightarrow> u32 \<Rightarrow> Tid \<Rightarrow> bool" where
  "reinsertable session relid tid \<longleftrightarrow>
     (\<forall>t \<in> set (ss_transaction_stack session). Overlay_contains_invalidated_tid t relid tid \<longrightarrow> delete_shadowed t relid tid)"

text \<open>Every row the session deleted is at an identifier that was given out, or shadowed by an insertion there.\<close>

definition deletes_given_out :: "SessionStorage \<Rightarrow> StorageState \<Rightarrow> u32 \<Rightarrow> bool" where
  "deletes_given_out session s relid \<longleftrightarrow>
     (\<forall>tid. given_out (entries_of (to_pending_pages (top_overlay (Session_ensure_transaction session))) relid) (rs_next_block (relation_mut relid s)) tid
        \<or> reinsertable session relid tid)"

lemma invalidate_shadowed:
  assumes "\<forall>t \<in> set ts. Overlay_contains_invalidated_tid t relid tid \<longrightarrow> delete_shadowed t relid tid" "c \<noteq> None"
  shows "\<not> invalidate_tid (\<lambda>_. True) ts relid tid c"
  using assms
proof (induction ts arbitrary: c)
  case (Cons t ts)
  obtain k where k: "c = Some k" using Cons.prems(2) by auto
  have shadows: "insert_shadows_invalidation k (Some 0)" for k
    by (auto simp: insert_shadows_invalidation_def unwrap_or_default_def word_gt_0)
  show ?case using Cons.IH [of "Some k" for k] Cons.prems(1) shadows
    by (cases "Overlay_inserted_cid t relid tid"; cases "Overlay_contains_invalidated_tid t relid tid")
       (auto simp: k delete_shadowed_def Overlay_invalidated_cid_def is_some_and_def)
qed simp

text \<open>An overlay that gained a pending row and its identifier.\<close>

lemma stack_slice_added:
  assumes row: "pending_row (entries_of pp relid) = (pending_row (entries_of (to_pending_pages t) relid))(tid \<mapsto> tuple)"
    and s': "relation_slice s' = relation_slice s"
    and fresh: "\<forall>t \<in> set (ts @ [t]). Overlay_contains_invalidated_tid t relid tid \<longrightarrow> delete_shadowed t relid tid"
  shows "stack_slice s' (ts @ [Overlay_insert_tid relid tid (t\<lparr>to_pending_pages := pp\<rparr>)]) relid u None =
    (if u = tid then Some tuple else stack_slice s (ts @ [t]) relid u None)"
proof -
  let ?t = "Overlay_insert_tid relid tid (t\<lparr>to_pending_pages := pp\<rparr>)"
  have ins: "Overlay_contains_inserted_tid ?t relid u \<longleftrightarrow> u = tid \<or> Overlay_contains_inserted_tid t relid u" for u
    by (auto simp: Overlay_contains_inserted_tid_def Overlay_insert_tid_def split: option.split)
  have inv: "Overlay_contains_invalidated_tid ?t relid u = Overlay_contains_invalidated_tid t relid u" for u
    by (simp add: Overlay_contains_invalidated_tid_def Overlay_insert_tid_def)
  have clr: "Overlay_cleared ?t relid = Overlay_cleared t relid" by (simp add: Overlay_cleared_def Overlay_insert_tid_def)
  have pend: "Overlay_pending_tuple_slice ?t relid u = (if u = tid then Some tuple else Overlay_pending_tuple_slice t relid u)" for u
    by (simp add: pending_slice_row Overlay_insert_tid_def row)
  show ?thesis
  proof (cases "u = tid")
    case True
    have cid: "Overlay_invalidated_cid ?t relid tid = Overlay_invalidated_cid t relid tid"
      using inv by (simp add: Overlay_invalidated_cid_def) (simp add: Overlay_insert_tid_def)
    hence shadowed: "\<forall>x \<in> set (?t # rev ts). Overlay_contains_invalidated_tid x relid tid \<longrightarrow> delete_shadowed x relid tid"
      using fresh inv clr by (auto simp: delete_shadowed_def)
    obtain k where "Overlay_inserted_cid ?t relid tid = Some k" using ins by (simp add: Overlay_inserted_cid_def)
    hence "\<not> overlays_invalidate_tid (ts @ [?t]) relid tid" using invalidate_shadowed [OF shadowed, of "Some k"]
      by (simp add: overlays_invalidate_tid_def)
    moreover have "overlays_own_inserted_tid (ts @ [?t]) relid tid" "\<not> overlays_clear_tid (ts @ [?t]) relid tid"
      "overlay_pending_tuple_slice (ts @ [?t]) relid tid = Some tuple"
      by (simp_all add: overlays_own_inserted_tid_def overlays_clear_tid_def overlay_pending_tuple_slice_def ins pend)
    ultimately show ?thesis using True by (simp add: stack_slice_def stack_visibility_def)
  next
    case False
    have "Overlay_inserted_cid ?t relid u = Overlay_inserted_cid t relid u" using ins False
      by (simp add: Overlay_inserted_cid_def) (simp add: Overlay_insert_tid_def)
    moreover have "Overlay_invalidated_cid ?t relid u = Overlay_invalidated_cid t relid u"
      using inv by (simp add: Overlay_invalidated_cid_def) (simp add: Overlay_insert_tid_def)
    ultimately have "stack_slice s' (ts @ [?t]) relid u None = stack_slice s (ts @ [t]) relid u None"
      using False ins clr pend s' by (intro stack_slice_cong) simp_all
    thus ?thesis using False by simp
  qed
qed

lemma put_relation_slice:
  assumes "rs_pages r = rs_pages (relation_mut relid s)" shows "relation_slice (put_relation relid r s) = relation_slice s"
proof (intro ext)
  fix relid' tid b
  show "relation_slice (put_relation relid r s) relid' tid b = relation_slice s relid' tid b"
    using assms by (cases "st_relations s relid")
      (auto simp: relation_slice_def put_relation_def relation_mut_def Relation_tuple_slice_def Relation_page_def RelationStorage_default_def vec_get_def)
qed

lemma reserve_pending_page_ok:
  assumes "rs_next_block (relation_mut relid s) \<noteq> - 1"
  obtains r where "reserve_pending_page relid n s =
      (Inr (Page_new (rs_next_block (relation_mut relid s)) (st_epoch s) (st_generation s) n), put_relation relid r s)"
    "rs_pages r = rs_pages (relation_mut relid s)" "rs_next_block r = rs_next_block (relation_mut relid s) + 1"
  using assms by (simp add: reserve_pending_page_def Relation_reserve_block_def)

text \<open>A session whose open overlay gained a pending row and its identifier.\<close>

lemma appended_view:
  assumes row: "pending_row (entries_of pp relid) =
      (pending_row (entries_of (to_pending_pages (top_overlay (Session_ensure_transaction session))) relid))(tid \<mapsto> tuple)"
    and slice: "relation_slice s' = relation_slice s" and fresh: "reinsertable session relid tid"
  shows "session_view s' (put_top_overlay (Overlay_insert_tid relid tid ((top_overlay (Session_ensure_transaction session))\<lparr>to_pending_pages := pp\<rparr>))
      (put_top_overlay x (Session_ensure_transaction session))) relid = (session_view s session relid)(tid \<mapsto> tuple)"
proof
  fix u
  let ?session = "Session_ensure_transaction session"
  let ?t = "top_overlay ?session"
  obtain ts where ts: "ss_transaction_stack ?session = ts @ [?t]" "\<And>s. session_view s ?session = session_view s session"
    by (rule ensure_transaction_stack) blast
  have "\<forall>t \<in> set (ts @ [?t]). Overlay_contains_invalidated_tid t relid tid \<longrightarrow> delete_shadowed t relid tid"
    using fresh unfolding ts(1) [symmetric]
    by (auto simp: reinsertable_def Session_ensure_transaction_def Overlay_contains_invalidated_tid_def TransactionOverlay_default_def)
  note added = stack_slice_added [OF row slice this, of u]
  have put: "ss_transaction_stack (put_top_overlay y (put_top_overlay x ?session)) = ts @ [y]" for y by (simp add: put_top_overlay_def ts(1))
  have "session_view s session relid u = stack_slice s (ts @ [?t]) relid u None"
    using session_view_stack [of s ?session relid u] ts by simp
  thus "session_view s' (put_top_overlay (Overlay_insert_tid relid tid (?t\<lparr>to_pending_pages := pp\<rparr>)) (put_top_overlay x ?session)) relid u =
      ((session_view s session relid)(tid \<mapsto> tuple)) u" using added by (simp add: session_view_stack put)
qed

text \<open>An append is seen by its own transaction, and by nobody else before the commit.\<close>

lemma append_pending_tuple_view:
  assumes ready: "append_ready session s relid" and len: "length tuple < 2 ^ 32"
  obtains tid session' s' where "append_pending_tuple relid tuple session s = (Inr tid, session', s')"
    "relation_slice s' = relation_slice s"
    "deletes_given_out session s relid \<Longrightarrow> session_view s' session' relid = (session_view s session relid)(tid \<mapsto> tuple)"
proof -
  let ?t = "top_overlay (Session_ensure_transaction session)" and ?b = "rs_next_block (relation_mut relid s)"
  have pages: "pending_ok (entries_of (to_pending_pages ?t) relid)" "\<forall>page \<in> set (entries_of (to_pending_pages ?t) relid). pg_block page < ?b" "?b \<noteq> - 1"
    using ready by (auto simp: append_ready_def Let_def)
  obtain res t' where app: "Overlay_append_pending_tuple_to_existing_page relid tuple (Option.bind (st_relations s relid) rs_max_tuples_per_block) ?t = (res, t')"
    by fastforce
  obtain pp where pp: "t' = ?t\<lparr>to_pending_pages := pp\<rparr>" "pending_ok (entries_of pp relid)"
      "map pg_block (entries_of pp relid) = map pg_block (entries_of (to_pending_pages ?t) relid)"
      "pending_row (entries_of pp relid) = row_added res tuple (pending_row (entries_of (to_pending_pages ?t) relid))"
      "\<forall>tid n. res = Some tid \<longrightarrow> \<not> given_out (entries_of (to_pending_pages ?t) relid) n tid"
    using append_existing_page [OF pages(1) app] by (elim exE conjE) (rule that)
  show thesis
  proof (cases res)
    case (Some tid)
    have "reinsertable session relid tid" if "deletes_given_out session s relid" using that pp(5) Some by (auto simp: deletes_given_out_def)
    thus thesis using Some app appended_view [of pp relid session tid tuple s s t'] pp(1,4)
      by (intro that) (simp_all add: append_pending_tuple_def Let_def row_added_def)
  next
    case None
    let ?page = "Page_new ?b (st_epoch s) (st_generation s) (length tuple)"
    obtain r where r: "reserve_pending_page relid (length tuple) s = (Inr ?page, put_relation relid r s)" "rs_pages r = rs_pages (relation_mut relid s)"
      using pages(3) by (rule reserve_pending_page_ok)
    have blocks: "pg_block ?page \<notin> set (map pg_block (entries_of (to_pending_pages t') relid))" using pages(2) pp(1,3) by auto
    have page: "pending_ok (entries_of (to_pending_pages t') relid)" "page_ok ?page" "pg_lines ?page = []"
      using pp(1,2) Page_new_ok [of "length tuple"] len by simp_all
    obtain tid pp' where n: "Overlay_append_pending_tuple_to_new_page relid ?page tuple t' = (Some tid, t'\<lparr>to_pending_pages := pp'\<rparr>)"
        "pending_row (entries_of pp' relid) = (pending_row (entries_of (to_pending_pages t') relid))(tid \<mapsto> tuple)" "tid_block tid = pg_block ?page"
      by (rule append_new_page [OF page blocks Page_new_appends [OF len]])
    have "pending_row (entries_of pp' relid) = (pending_row (entries_of (to_pending_pages ?t) relid))(tid \<mapsto> tuple)"
      using n(2) pp(1,4) None by (simp add: row_added_def)
    note view = appended_view [OF this put_relation_slice [OF r(2)], of t']
    have "\<not> given_out (entries_of (to_pending_pages ?t) relid) ?b tid"
      using blocks pp(1,3) n(3) by (auto simp: given_out_def find_last_Some split: option.split)
    hence "reinsertable session relid tid" if "deletes_given_out session s relid" using that by (auto simp: deletes_given_out_def)
    thus thesis by (intro that [OF _ put_relation_slice [OF r(2)] view])
      (use app None r(1) n(1) pp(1) in \<open>simp_all add: append_pending_tuple_def Let_def\<close>)
  qed
qed

section \<open>Rolling back\<close>

definition committed_row :: "Row option \<Rightarrow> Row option" where
  "committed_row row = (if map_option row_state row = Some Live then row else None)"

text \<open>A relation whose committed rows, and whose rows outside a set of identifiers, are those of another.\<close>

definition rel_kept :: "Tid set \<Rightarrow> RelationStorage \<Rightarrow> RelationStorage \<Rightarrow> bool" where
  "rel_kept I r r' \<longleftrightarrow> rel_pages_ok r' \<and> (\<forall>t. committed_row (rel_row r' t) = committed_row (rel_row r t)) \<and> (\<forall>t. t \<notin> I \<longrightarrow> rel_row r' t = rel_row r t)"

text \<open>The same for the relations of a set.\<close>

definition state_ok :: "u32 set \<Rightarrow> StorageState \<Rightarrow> bool" where
  "state_ok R s \<longleftrightarrow> (\<forall>relid r. relid \<in> R \<longrightarrow> st_relations s relid = Some r \<longrightarrow> rel_pages_ok r)"

definition state_kept :: "u32 set \<Rightarrow> (u32 \<Rightarrow> Tid set) \<Rightarrow> StorageState \<Rightarrow> StorageState \<Rightarrow> bool" where
  "state_kept R I s s' \<longleftrightarrow> (\<forall>relid \<in> R. rel_option (rel_kept (I relid)) (st_relations s relid) (st_relations s' relid))"

lemma rel_kept_refl: "rel_pages_ok r \<Longrightarrow> rel_kept I r r"
  by (simp add: rel_kept_def)

lemma rel_kept_trans: "rel_kept I r r' \<Longrightarrow> rel_kept I r' r'' \<Longrightarrow> rel_kept I r r''"
  by (simp add: rel_kept_def)

lemma rel_option_kept: "(\<And>r. o' = Some r \<Longrightarrow> rel_pages_ok r) \<Longrightarrow> rel_option (rel_kept I) o' o'"
  by (cases o') (simp_all add: rel_kept_refl)

lemma state_kept_refl: "state_ok R s \<Longrightarrow> state_kept R I s s"
  by (auto simp: state_kept_def state_ok_def intro: rel_option_kept)

lemma state_kept_trans: "state_kept R I s s' \<Longrightarrow> state_kept R I s' s'' \<Longrightarrow> state_kept R I s s''"
proof -
  assume a: "state_kept R I s s'" "state_kept R I s' s''"
  have "rel_option (rel_kept (I relid)) (st_relations s relid) (st_relations s'' relid)" if "relid \<in> R" for relid
    using a [unfolded state_kept_def, rule_format, OF that] rel_kept_trans
    by (cases "st_relations s relid"; cases "st_relations s' relid"; cases "st_relations s'' relid") auto
  thus ?thesis by (simp add: state_kept_def)
qed

lemma state_keptE:
  assumes "state_kept R I s s'" "relid \<in> R" "st_relations s' relid = Some r'"
  obtains r where "st_relations s relid = Some r" "rel_kept (I relid) r r'"
  using assms(1) [unfolded state_kept_def, rule_format, OF assms(2)] assms(3) by (cases "st_relations s relid") auto

lemma state_kept_ok: "state_kept R I s s' \<Longrightarrow> state_ok R s'"
  by (auto simp: state_ok_def rel_kept_def elim: state_keptE)

lemma state_kept_with:
  assumes ok: "state_ok R s" and f: "\<And>r. relid \<in> R \<Longrightarrow> st_relations s relid = Some r \<Longrightarrow> rel_kept (I relid) r (f r)"
  shows "state_kept R I s (with_relation relid f s)"
proof (cases "st_relations s relid")
  case None
  thus ?thesis using state_kept_refl [OF ok] by (simp add: with_relation_def)
next
  case (Some r)
  thus ?thesis using f ok by (auto simp: state_kept_def with_relation_def put_relation_def state_ok_def intro: rel_option_kept)
qed

text \<open>No row of a set is committed.\<close>

definition not_live :: "u32 set \<Rightarrow> (u32 \<Rightarrow> Tid set) \<Rightarrow> StorageState \<Rightarrow> bool" where
  "not_live R I s \<longleftrightarrow>
     (\<forall>relid r t. relid \<in> R \<longrightarrow> st_relations s relid = Some r \<longrightarrow> t \<in> I relid \<longrightarrow> committed_row (rel_row r t) = None)"

lemma not_live_kept: "state_kept R I s s' \<Longrightarrow> not_live R I s \<Longrightarrow> not_live R I s'"
  by (auto simp: not_live_def rel_kept_def elim: state_keptE)

lemma fold_kept:
  assumes "state_ok R s" "not_live R I s"
    and "\<And>x s. x \<in> set xs \<Longrightarrow> state_ok R s \<Longrightarrow> not_live R I s \<Longrightarrow> state_kept R I s (f x s)"
  shows "state_kept R I s (fold f xs s)"
  using assms
proof (induction xs arbitrary: s)
  case (Cons x xs)
  have k: "state_kept R I s (f x s)" using Cons.prems by simp
  show ?case using Cons.IH [OF state_kept_ok [OF k] not_live_kept [OF k Cons.prems(2)]] Cons.prems(3) state_kept_trans [OF k] by simp
qed (simp add: state_kept_refl)

lemma mark_dead_kept:
  assumes ok: "rel_pages_ok r" and dead: "t \<in> I" "committed_row (rel_row r t) = None"
  shows "rel_kept I r (snd (Relation_mark_dead t (r\<lparr>rs_pending_reserved_tids := x\<rparr>)))"
proof -
  have r: "rel_pages_ok (r\<lparr>rs_pending_reserved_tids := x\<rparr>)" "rel_row (r\<lparr>rs_pending_reserved_tids := x\<rparr>) = rel_row r"
    using rel_pages_ok_cong [OF ok, of "r\<lparr>rs_pending_reserved_tids := x\<rparr>"] by simp_all
  show ?thesis using mark_dead_pages [OF r(1), of t] dead by (auto simp: rel_kept_def r(2) row_at_def committed_row_def)
qed

lemma fold_mark_dead_kept:
  assumes "rel_pages_ok r" "set tids \<subseteq> I" "\<forall>t \<in> I. committed_row (rel_row r t) = None"
  shows "rel_kept I r (fold (\<lambda>tid r. snd (Relation_mark_dead tid (r\<lparr>rs_pending_reserved_tids := rs_pending_reserved_tids r - {tid}\<rparr>))) tids r)"
  using assms
proof (induction tids arbitrary: r)
  case (Cons t tids)
  let ?r = "snd (Relation_mark_dead t (r\<lparr>rs_pending_reserved_tids := rs_pending_reserved_tids r - {t}\<rparr>))"
  have k: "rel_kept I r ?r" using Cons.prems by (intro mark_dead_kept) auto
  hence "rel_pages_ok ?r" "\<forall>t \<in> I. committed_row (rel_row ?r t) = None" using Cons.prems(3) by (auto simp: rel_kept_def)
  thus ?case using rel_kept_trans [OF k] Cons.IH [of ?r] Cons.prems(2) by simp
qed (simp add: rel_kept_refl)

definition inserted_in :: "TransactionOverlay \<Rightarrow> u32 \<Rightarrow> Tid set" where
  "inserted_in t relid = \<Union> (set ` snd ` {e \<in> set (to_inserted_tids t). fst e = relid})"

lemma state_kept_counts: "state_kept R I s s' \<Longrightarrow> state_kept R I s (refresh_cached_row_count relid s')"
  by (simp add: state_kept_def refresh_cached_row_count_def)

lemma reinstalled_other:
  assumes "relid \<notin> fst ` set cleared"
  shows "st_relations (fold (\<lambda>(relid, relation) s. refresh_cached_row_count relid (put_relation relid relation s)) cleared s) relid = st_relations s relid"
    "st_relations (fold (\<lambda>(relid, _). refresh_cached_row_count relid) cleared s) relid = st_relations s relid"
  using assms by (induction cleared arbitrary: s) (auto simp: refresh_cached_row_count_def put_relation_def)

lemma rollback_overlay_kept:
  assumes ok: "state_ok R s" "not_live R I s" and ins: "\<And>relid. inserted_in t relid \<subseteq> I relid" and clr: "fst ` set (to_cleared_relations t) \<inter> R = {}"
  shows "state_kept R I s (rollback_overlay_from_relations t s)"
proof -
  let ?s1 = "fold (\<lambda>(relid, tids). with_relation relid
    (fold (\<lambda>tid r. snd (Relation_mark_dead tid (r\<lparr>rs_pending_reserved_tids := rs_pending_reserved_tids r - {tid}\<rparr>))) tids)) (to_inserted_tids t) s"
  let ?s2 = "fold (\<lambda>(relid, pages). with_relation relid
    (\<lambda>r. r\<lparr>rs_pending_reserved_blocks := rs_pending_reserved_blocks r - set (map pg_block pages)\<rparr>)) (to_pending_pages t) ?s1"
  let ?s3 = "fold (\<lambda>(relid, checkpoint) s. if st_relations s relid = None then s
    else refresh_cached_row_count relid (with_relation relid (Relation_restore_rollback_metadata_preserving_tid_space checkpoint) s))
    (to_relation_checkpoints t) ?s2"
  have 1: "state_kept R I s ?s1"
  proof (rule fold_kept [OF ok], clarify)
    fix relid tids and s :: StorageState assume a: "(relid, tids) \<in> set (to_inserted_tids t)" "state_ok R s" "not_live R I s"
    have "set tids \<subseteq> I relid" using ins [of relid] a(1) by (force simp: inserted_in_def)
    thus "state_kept R I s (with_relation relid (fold (\<lambda>tid r. snd (Relation_mark_dead tid
        (r\<lparr>rs_pending_reserved_tids := rs_pending_reserved_tids r - {tid}\<rparr>))) tids) s)"
      using a(2,3) by (intro state_kept_with fold_mark_dead_kept) (auto simp: state_ok_def not_live_def)
  qed
  have 2: "state_kept R I ?s1 ?s2"
  proof (rule fold_kept [OF state_kept_ok [OF 1] not_live_kept [OF 1 ok(2)]], clarify)
    fix relid pages and s :: StorageState assume a: "state_ok R s"
    have "rel_kept J r (r\<lparr>rs_pending_reserved_blocks := x\<rparr>)" if "rel_pages_ok r" for J r x
      using rel_pages_ok_cong [OF that, of "r\<lparr>rs_pending_reserved_blocks := x\<rparr>"] by (simp add: rel_kept_def)
    thus "state_kept R I s (with_relation relid (\<lambda>r. r\<lparr>rs_pending_reserved_blocks := rs_pending_reserved_blocks r - set (map pg_block pages)\<rparr>) s)"
      using a by (intro state_kept_with) (auto simp: state_ok_def)
  qed
  note 12 = state_kept_trans [OF 1 2]
  have 3: "state_kept R I ?s2 ?s3"
  proof (rule fold_kept [OF state_kept_ok [OF 2] not_live_kept [OF 12 ok(2)]], clarify)
    fix relid checkpoint and s :: StorageState assume a: "state_ok R s"
    have "rel_kept J r (Relation_restore_rollback_metadata_preserving_tid_space c r)" if "rel_pages_ok r" for J r c
      using rollback_metadata_pages [OF that] by (simp add: rel_kept_def)
    thus "state_kept R I s (if st_relations s relid = None then s else refresh_cached_row_count relid
        (with_relation relid (Relation_restore_rollback_metadata_preserving_tid_space checkpoint) s))"
      using a by (simp add: state_kept_refl) (auto intro!: state_kept_counts state_kept_with simp: state_ok_def)
  qed
  have "st_relations (rollback_overlay_from_relations t s) relid = st_relations ?s3 relid" if "relid \<in> R" for relid
  proof -
    have "relid \<notin> fst ` set (to_cleared_relations t)" using clr that by blast
    thus ?thesis using reinstalled_other by (simp add: rollback_overlay_from_relations_def Let_def)
  qed
  thus ?thesis using state_kept_trans [OF 12 3] by (simp add: state_kept_def)
qed

lemma rollback_overlays_kept:
  assumes "state_ok R s" "not_live R I s" "\<And>t relid. t \<in> set ts \<Longrightarrow> inserted_in t relid \<subseteq> I relid" "\<And>t. t \<in> set ts \<Longrightarrow> fst ` set (to_cleared_relations t) \<inter> R = {}"
  shows "state_kept R I s (fold rollback_overlay_from_relations ts s)"
  using assms by (intro fold_kept rollback_overlay_kept) auto

text \<open>The rows a session inserted.\<close>

definition inserted_by :: "SessionStorage \<Rightarrow> u32 \<Rightarrow> Tid set" where
  "inserted_by session relid = (\<Union>t \<in> set (ss_transaction_stack session). inserted_in t relid)"

lemma committed_slice:
  assumes "rel_pages_ok r" shows "Relation_tuple_slice r tid False = map_option row_bytes (committed_row (rel_row r tid))"
proof -
  have "st = Live \<or> st = Dead \<or> st = Pending" for st by (cases st) auto
  thus ?thesis by (auto simp: Relation_tuple_slice_row [OF assms] committed_row_def split: option.split)
qed

lemma relation_slice_kept:
  assumes ok: "state_ok R s" and kept: "state_kept R I s s'" and relid: "relid \<in> R" and own: "include_pending \<Longrightarrow> tid \<notin> I relid"
  shows "relation_slice s' relid tid include_pending = relation_slice s relid tid include_pending"
proof (cases "st_relations s relid")
  case None
  hence "st_relations s' relid = None" using kept [unfolded state_kept_def, rule_format, OF relid] by auto
  thus ?thesis using None by (simp add: relation_slice_def)
next
  case (Some r)
  then obtain r' where r': "st_relations s' relid = Some r'" "rel_kept (I relid) r r'"
    using kept [unfolded state_kept_def, rule_format, OF relid] by (auto simp: option_rel_Some1)
  have ok': "rel_pages_ok r" "rel_pages_ok r'" using ok relid Some r'(2) by (auto simp: state_ok_def rel_kept_def)
  note slice = Relation_tuple_slice_row [OF ok'(1)] Relation_tuple_slice_row [OF ok'(2)]
  have c: "committed_row (rel_row r' tid) = committed_row (rel_row r tid)" using r'(2) by (simp add: rel_kept_def)
  show ?thesis
  proof (cases include_pending)
    case True
    hence "rel_row r' tid = rel_row r tid" using own r'(2) by (simp add: rel_kept_def)
    thus ?thesis by (simp add: relation_slice_def Some r'(1) slice)
  next
    case False
    thus ?thesis using c by (simp add: relation_slice_def Some r'(1) committed_slice [OF ok'(1)] committed_slice [OF ok'(2)])
  qed
qed

lemma session_view_kept:
  assumes "state_ok R s" "state_kept R I s s'" "relid \<in> R" "\<And>tid. tid \<in> I relid \<Longrightarrow> \<not> Session_owns_inserted_tid session relid tid"
  shows "session_view s' session relid = session_view s session relid"
proof
  fix tid
  have "relation_slice s' relid tid own = relation_slice s relid tid own"
    if "stack_visibility (ss_transaction_stack session) relid tid None = Some own" for own
    using that assms(4) by (intro relation_slice_kept [OF assms(1-3)]) (auto simp: stack_visibility_def Session_owns_inserted_tid_def split: if_splits)
  thus "session_view s' session relid tid = session_view s session relid tid"
    by (auto simp: session_view_stack stack_slice_def split: option.split)
qed

end
