(* ===== verification/Storage2_Layout.thy ===== *)
theory Storage2_Layout
  imports Storage2_Relation
begin

text \<open>
  The pages of a relation apart from its counters: every page is well formed, of a bounded size, and in
  a block that has been given out. Every operation of a relation keeps this, also the two that leave the
  counters as they are (the insertion of a whole page and the marking of a whole page as dead).
\<close>

section \<open>Pages of a bounded size\<close>

text \<open>Pages up to the size of the largest tuple a line pointer can name.\<close>

definition rel_small :: "RelationStorage \<Rightarrow> bool" where
  "rel_small r \<longleftrightarrow> (\<forall>block page. Relation_page r block = Some page \<longrightarrow> length (pg_bytes page) \<le> 2 ^ 32)"

lemma rel_small_fits:
  assumes "rel_small r" "length (rs_pages r) \<le> unat (rs_next_block r)"
  shows "sum_pages (\<lambda>p. length (pg_bytes p)) r \<le> usize_max"
proof -
  have n: "length (rs_pages r) < 2 ^ 32" using assms(2) unsigned_less [of "rs_next_block r", where 'a = nat] by simp
  have "case_option 0 (\<lambda>p. length (pg_bytes p)) po \<le> 2 ^ 32" if po: "po \<in> set (rs_pages r)" for po
  proof -
    obtain i where "i < length (rs_pages r)" "po = rs_pages r ! i" using po by (auto simp: in_set_conv_nth)
    hence "Relation_page r (of_nat i) = po" using Relation_page_at [of i r] n by simp
    thus ?thesis using assms(1) by (cases po) (auto simp: rel_small_def)
  qed
  hence "sum_pages (\<lambda>p. length (pg_bytes p)) r \<le> length (rs_pages r) * 2 ^ 32" unfolding sum_pages_def by (rule sum_list_le_const)
  also have "\<dots> \<le> (2 ^ 32 - 1) * 2 ^ 32" using n by (intro mult_right_mono) auto
  also have "\<dots> \<le> usize_max" by (simp add: usize_max_def)
  finally show ?thesis .
qed

lemma rel_small_cong: "rel_small r \<Longrightarrow> rs_pages r' = rs_pages r \<Longrightarrow> rel_small r'"
  by (simp add: rel_small_def pages_cong(1) [of r' r])

lemma rel_small_put:
  assumes "rel_small r" "Relation_page r block = Some page" "length (pg_bytes q) = length (pg_bytes page)"
    "rs_pages r' = rs_pages (Relation_put_page block q r)"
  shows "rel_small r'"
proof -
  have "Relation_page r' = (Relation_page r)(block \<mapsto> q)"
    using pages_cong(1) [OF assms(4)] Relation_page_put [OF assms(2), of q] by (auto simp: fun_eq_iff)
  thus ?thesis using assms(1,3) assms(1) [unfolded rel_small_def, rule_format, OF assms(2)] by (simp add: rel_small_def)
qed

lemma Page_new_small: "n \<le> 2 ^ 32 \<Longrightarrow> length (pg_bytes (Page_new b e g n)) \<le> 2 ^ 32"
proof -
  assume "n \<le> 2 ^ 32"
  hence "floorlog 2 (n - 1) \<le> 32" by (intro floorlog_leI) auto
  hence "next_power_of_two n \<le> 2 ^ 32" unfolding next_power_of_two_def by (intro power_increasing) auto
  thus ?thesis by (simp add: Page_new_def Let_def PAGE_SIZE_def)
qed

definition pages_good :: "RelationStorage \<Rightarrow> bool" where
  "pages_good r \<longleftrightarrow> rel_pages_ok r \<and> rel_small r"

text \<open>What an append and a metadata write leave alone.\<close>

lemma Relation_append_rest:
  "rs_next_block (snd (Relation_append_pending_tuple block tuple r)) = rs_next_block r"
  "rs_hot_redirects (snd (Relation_append_pending_tuple block tuple r)) = rs_hot_redirects r"
  "rs_update_redirects (snd (Relation_append_pending_tuple block tuple r)) = rs_update_redirects r"
  by (auto simp: Relation_append_pending_tuple_def Let_def Relation_put_page_def count_tuples.simps split: option.split prod.split)

lemma line_pointer_mut_rest:
  "rs_next_block (snd (Relation_line_pointer_mut tid f r)) = rs_next_block r"
  "rs_hot_redirects (snd (Relation_line_pointer_mut tid f r)) = rs_hot_redirects r"
  "rs_update_redirects (snd (Relation_line_pointer_mut tid f r)) = rs_update_redirects r"
  by (auto simp: Relation_line_pointer_mut_def Relation_put_page_def split: option.split)

lemma append_bytes_length:
  "page_layout p \<Longrightarrow> length (pg_bytes (snd (Page_append_tuple_with_state tuple st p))) = length (pg_bytes p)"
  by (erule append_tuple_cases [where tuple = tuple and st = st]) (auto simp: appends_def)

section \<open>Pages, whatever the counters\<close>

lemma pages_goodI:
  assumes "\<And>block page. Relation_page r block = Some page \<Longrightarrow> pg_block page = block \<and> page_ok page \<and> length (pg_bytes page) \<le> 2 ^ 32"
    and "length (rs_pages r) \<le> unat (rs_next_block r)"
  shows "pages_good r"
proof -
  have "rel_small r" using assms(1) by (simp add: rel_small_def)
  thus ?thesis using assms rel_small_fits by (auto simp: pages_good_def rel_pages_ok_def)
qed

lemma pages_goodD:
  assumes "pages_good r"
  shows "Relation_page r block = Some page \<Longrightarrow> pg_block page = block" "Relation_page r block = Some page \<Longrightarrow> page_ok page"
    "Relation_page r block = Some page \<Longrightarrow> length (pg_bytes page) \<le> 2 ^ 32" "length (rs_pages r) \<le> unat (rs_next_block r)"
  using assms by (simp_all add: pages_good_def rel_pages_ok_def rel_small_def)

lemma pages_good_cong:
  assumes "pages_good r" "rs_pages r' = rs_pages r" "unat (rs_next_block r) \<le> unat (rs_next_block r')"
  shows "pages_good r'"
  using rel_pages_ok_cong [OF _ assms(2,3)] rel_small_cong [OF _ assms(2)] assms(1) by (simp add: pages_good_def)

lemma pages_good_put:
  assumes "pages_good r" "Relation_page r block = Some page" "page_ok q" "pg_block q = pg_block page" "length (pg_bytes q) = length (pg_bytes page)"
    "rs_pages r' = rs_pages (Relation_put_page block q r)" "rs_next_block r' = rs_next_block r"
  shows "pages_good r'"
  using rel_pages_ok_put [OF _ assms(2,3) _ assms(5-7)] rel_small_put [OF _ assms(2,5,6)] pages_goodD(1) [OF assms(1,2)] assms(1,4)
  by (simp add: pages_good_def)

lemma pages_good_insert:
  assumes good: "pages_good r" and page: "page_ok page" "length (pg_bytes page) \<le> 2 ^ 32" "pg_block page < rs_next_block r"
  shows "pages_good (Relation_insert_page page r)"
proof (rule pages_goodI)
  show "pg_block p = block \<and> page_ok p \<and> length (pg_bytes p) \<le> 2 ^ 32" if "Relation_page (Relation_insert_page page r) block = Some p" for block p
    using that page pages_goodD(1-3) [OF good] by (auto simp: Relation_page_insert split: if_splits)
  have "rs_next_block (Relation_insert_page page r) = rs_next_block r" by (simp add: Relation_insert_page_def Let_def)
  thus "length (rs_pages (Relation_insert_page page r)) \<le> unat (rs_next_block (Relation_insert_page page r))"
    using page(3) pages_goodD(4) [OF good] by (simp add: insert_page_pages word_less_nat_alt)
qed

lemma target_block_pages:
  assumes good: "pages_good r" and len: "len \<le> 2 ^ 32"
  shows "pages_good (snd (Relation_append_target_block len e g r))"
proof (cases rule: append_target_cases [of len e g r])
  case (found block)
  show ?thesis unfolding found(1) snd_conv by (rule pages_good_cong [OF good]) simp_all
next
  case fresh
  have n: "unat (rs_next_block r + 1) = Suc (unat (rs_next_block r))" using unat_Suc_next [OF fresh(1)] .
  have "pages_good (r\<lparr>rs_next_block := rs_next_block r + 1\<rparr>)" by (rule pages_good_cong [OF good]) (simp_all add: n)
  moreover have "page_ok (Page_new (rs_next_block r) e g len)" using len by (intro Page_new_ok) simp
  ultimately show ?thesis using Page_new_small [OF len] n fresh(2) by (simp add: pages_good_insert word_less_nat_alt)
qed (use good in simp_all)

lemma append_pages_good: "pages_good r \<Longrightarrow> pages_good (snd (Relation_append_pending_tuple block tuple r))"
proof (cases "Relation_page r block")
  case (Some page)
  assume good: "pages_good r"
  have page: "page_ok page" "page_layout page" using pages_goodD(2) [OF good Some] by (simp_all add: page_ok_def)
  show ?thesis
    using append_tuple_ok [OF page(1)] append_bytes_length [OF page(2)] append_tuple_bytes [OF page(2)] Relation_append_rest(1)
    by (intro pages_good_put [OF good Some _ _ _ Relation_append_pages(1) [OF Some]]) simp_all
qed (simp add: Relation_append_pending_tuple_def)

lemma mark_pages_good:
  assumes good: "pages_good r"
  shows "pages_good (snd (Relation_mark_dead tid r))" "pages_good (snd (Relation_mark_live tid r))"
proof -
  have ok: "rel_pages_ok r" "rel_small r" using good by (simp_all add: pages_good_def)
  have "rel_small (snd (Relation_mark_dead tid r)) \<and> rel_small (snd (Relation_mark_live tid r))"
  proof (cases "Relation_page r (tid_block tid)")
    case (Some page)
    let ?d = "snd (Page_mark_dead (tid_offset tid) page)" and ?l = "snd (Page_mark_live (tid_offset tid) page)"
    have "rs_pages (snd (Relation_mark_dead tid r)) = rs_pages (Relation_put_page (tid_block tid) ?d r)" "pg_bytes ?d = pg_bytes page"
      using Relation_put_same [OF Some] by (auto simp: Relation_mark_dead_def Some Page_mark_dead_def Let_def split: option.split LinePointerState.split)
    moreover have "rs_pages (snd (Relation_mark_live tid r)) = rs_pages (Relation_put_page (tid_block tid) ?l r)" "pg_bytes ?l = pg_bytes page"
      using Relation_put_same [OF Some] by (auto simp: Relation_mark_live_def Some Page_mark_live_def Let_def split: option.split)
    ultimately show ?thesis using rel_small_put [OF ok(2) Some, of ?d] rel_small_put [OF ok(2) Some, of ?l] by simp
  qed (use ok in \<open>simp add: Relation_mark_dead_def Relation_mark_live_def\<close>)
  thus "pages_good (snd (Relation_mark_dead tid r))" "pages_good (snd (Relation_mark_live tid r))"
    using mark_dead_pages [OF ok(1), of tid] mark_live_pages [OF ok(1), of tid] by (simp_all add: pages_good_def)
qed

lemma line_pointer_pages_good:
  assumes good: "pages_good r" and f: "\<And>l. same_place (f l) l" "\<And>l. lp_state (f l) = lp_state l"
  shows "pages_good (snd (Relation_line_pointer_mut tid f r))"
proof (cases rule: line_cases [of r tid])
  case (line page l)
  let ?q = "set_line (tid_offset tid) f page"
  have "state_bytes st (pg_lines ?q) = state_bytes st (pg_lines page)" for st
    using set_line_counts [OF line(2), of st f] f by (auto simp: same_place_def split: if_splits)
  hence "page_ok ?q" using pages_goodD(2) [OF good line(1)] set_line_layout [of f, OF f(1)] by (simp add: page_ok_def page_counts_def)
  hence "pages_good (Relation_put_page (tid_block tid) ?q r)"
    by (intro pages_good_put [OF good line(1) _ _ _ refl]) (simp_all add: Relation_put_page_def)
  thus ?thesis using line by (simp add: Relation_line_pointer_mut_def)
qed (use good in \<open>simp_all add: Relation_line_pointer_mut_def\<close>)

lemma line_pointer_rows:
  assumes g: "\<And>bs l. line_row bs (f l) = g (line_row bs l)"
  shows "rel_row (snd (Relation_line_pointer_mut tid f r)) = row_at tid g (rel_row r)"
proof (cases rule: line_cases [of r tid])
  case (line page l)
  show ?thesis using set_line_rows [of page f g, OF g] line by (intro rel_row_change [OF line(1)]) (simp_all add: Relation_line_pointer_mut_def)
qed (simp_all add: Relation_line_pointer_mut_def row_at_same)

lemma mark_page_dead_pages_good:
  assumes good: "pages_good r" shows "pages_good (Relation_mark_page_dead block r)"
proof (cases "Relation_page r block")
  case (Some page)
  have "page_ok (Page_mark_all_dead page)" by (rule mark_all_dead_ok [OF pages_goodD(2) [OF good Some]])
  moreover have "pg_block (Page_mark_all_dead page) = pg_block page" "pg_bytes (Page_mark_all_dead page) = pg_bytes page"
    by (simp_all add: Page_mark_all_dead_def)
  ultimately show ?thesis using Some
    by (intro pages_good_put [OF good Some, of "Page_mark_all_dead page"])
       (simp_all add: Relation_mark_page_dead_def Relation_refresh_appendable_block_def Relation_put_page_def Let_def)
qed (use good in \<open>auto simp: Relation_mark_page_dead_def Relation_refresh_appendable_block_def Let_def intro: pages_good_cong [OF good]\<close>)

lemma raised_next_block_le: "unat (rs_next_block r) \<le> unat (raised_next_block r c)"
  unfolding raised_next_block_def word_le_nat_alt [symmetric] by (simp add: le_max_iff_disj)

lemma recompute_stats_rest:
  "rs_pages (Relation_recompute_tuple_stats r) = rs_pages r" "rs_next_block (Relation_recompute_tuple_stats r) = rs_next_block r"
  using arg_cong [OF stats_cleared_recount [of r], of rs_pages] arg_cong [OF stats_cleared_recount [of r], of rs_next_block]
  by (simp_all add: stats_cleared_def)

lemma insert_page_row:
  "rel_row (Relation_insert_page page r) tid = (if tid_block tid = pg_block page then page_row (tid_offset tid) page else rel_row r tid)"
  by (simp add: rel_row_def Relation_page_insert)

lemma insert_page_rest:
  "rs_hot_redirects (Relation_insert_page page r) = rs_hot_redirects r" "rs_update_redirects (Relation_insert_page page r) = rs_update_redirects r"
  "counted_tuples st (Relation_insert_page page r) = counted_tuples st r" "rs_next_block (Relation_insert_page page r) = rs_next_block r"
proof -
  show "counted_tuples st (Relation_insert_page page r) = counted_tuples st r"
    by (cases st) (simp_all add: counted_tuples.simps Relation_insert_page_def Relation_refresh_appendable_block_def Let_def)
qed (simp_all add: Relation_insert_page_def Relation_refresh_appendable_block_def Let_def)

end
