(* ===== verification/Storage2_Commit.thy ===== *)
theory Storage2_Commit
  imports Storage2_Transactions Storage2_Layout
begin

text \<open>
  Committing the pending pages of a transaction. A page whose identifiers later commands refer to, or
  the page of an empty relation, becomes a page of the relation as it is. Else each row that is not dead
  moves to a fresh identifier in the pages of its relation, with its bytes and metadata, and the old
  identifier redirects to it. The lemmas show that the moves succeed while the relation has blocks to
  give out, and that neither way of committing changes another row.
\<close>

section \<open>Room in a relation\<close>

text \<open>Good pages and, where a flag says so, right counters: the flag lets one proof follow the pages of a
  relation whose counters have drifted and the counters of one whose counters are right.\<close>

definition sound :: "bool \<Rightarrow> RelationStorage \<Rightarrow> bool" where
  "sound counted r \<longleftrightarrow> pages_good r \<and> (counted \<longrightarrow> rel_ok r)"

lemma sound_cong:
  assumes "sound c r" "rs_pages q = rs_pages r" "rs_next_block q = rs_next_block r"
    "\<And>st. counted_tuples st q = counted_tuples st r" "rs_live_tids q = rs_live_tids r" "rs_physical_blocks q = rs_physical_blocks r"
  shows "sound c q"
  using assms pages_good_cong [of r q] rel_ok_cong [of r q] by (simp add: sound_def)

lemma accepts_appends:
  assumes "pages_good r" "block_accepts r (length tuple) block" "tuple \<noteq> []" "length tuple < 2 ^ 32"
  shows "rel_appends block tuple r"
proof -
  obtain page where page: "Relation_page r block = Some page" "Page_can_fit page (length tuple)"
    using assms(2) by (auto simp: block_accepts_def Relation_page_can_accept_tuple_def split: option.splits)
  have "length (pg_bytes page) \<le> 2 ^ 32" by (rule pages_goodD(3) [OF assms(1) page(1)])
  moreover have "length tuple \<le> length (pg_bytes page) - Page_aligned_used page" using page(2) by (simp add: Page_can_fit_def Page_remaining_def)
  moreover have "0 < length tuple" using assms(3) by simp
  ultimately have "Page_aligned_used page + length tuple \<le> length (pg_bytes page)" "Page_aligned_used page < 2 ^ 32" by linarith+
  thus ?thesis using page assms(4) by (simp add: rel_appends_def appends_def)
qed

definition with_fresh_block :: "nat \<Rightarrow> u64 \<Rightarrow> u64 \<Rightarrow> RelationStorage \<Rightarrow> RelationStorage" where
  "with_fresh_block len e g r = Relation_insert_page (Page_new (rs_next_block r) e g len) (r\<lparr>rs_next_block := rs_next_block r + 1\<rparr>)"

lemma fresh_block_ok:
  assumes ok: "sound c r" and len: "len \<le> 2 ^ 32" and left: "rs_next_block r \<noteq> - 1"
    and target: "Relation_append_target_block len e g r = (Some (rs_next_block r), with_fresh_block len e g r)"
  shows "sound c (with_fresh_block len e g r)" "rel_row (with_fresh_block len e g r) = rel_row r"
    "unat (rs_next_block (with_fresh_block len e g r)) = Suc (unat (rs_next_block r))"
    "Relation_page (with_fresh_block len e g r) (rs_next_block r) = Some (Page_new (rs_next_block r) e g len)"
proof -
  let ?r = "with_fresh_block len e g r"
  have page: "Relation_page ?r block = (if block = rs_next_block r then Some (Page_new (rs_next_block r) e g len) else Relation_page r block)" for block
    by (simp add: with_fresh_block_def Relation_page_insert pages_cong(1) [of "r\<lparr>rs_next_block := rs_next_block r + 1\<rparr>" r])
  thus "Relation_page ?r (rs_next_block r) = Some (Page_new (rs_next_block r) e g len)" by simp
  have "rs_next_block ?r = rs_next_block r + 1" by (simp add: with_fresh_block_def insert_page_rest)
  thus "unat (rs_next_block ?r) = Suc (unat (rs_next_block r))" using left by (simp add: unat_Suc_next)
  have pages: "pages_good r" and good: "pages_good ?r" using target_block_pages [OF _ len, of r e g] ok target by (simp_all add: sound_def)
  hence "sum_pages (\<lambda>p. length (pg_bytes p)) ?r \<le> usize_max" by (simp add: pages_good_def rel_pages_ok_def)
  thus "sound c ?r" using append_target_ok [of r len e g] len target ok good by (simp add: sound_def)
  have "Relation_page r (rs_next_block r) = None" using pages_goodD(4) [OF pages] by (simp add: Relation_page_def vec_get_def)
  moreover have "page_row off (Page_new b e g len) = None" for off b
    by (simp add: page_row_def Page_rows_def Page_new_def Let_def vec_get_def split: option.split)
  ultimately show "rel_row ?r = rel_row r" by (auto simp: rel_row_def page fun_eq_iff)
qed

text \<open>While a block is left, there is a block that takes the tuple.\<close>

lemma append_target_some:
  assumes ok: "sound c r" and tuple: "tuple \<noteq> []" "length tuple < 2 ^ 32" and left: "rs_next_block r \<noteq> - 1"
  obtains block r' where "Relation_append_target_block (length tuple) e g r = (Some block, r')" "sound c r'"
    "rel_row r' = rel_row r" "rel_appends block tuple r'" "unat (rs_next_block r') \<le> Suc (unat (rs_next_block r))"
    "rs_hot_redirects r' = rs_hot_redirects r" "rs_update_redirects r' = rs_update_redirects r"
proof (cases rule: append_target_cases [of "length tuple" e g r])
  case (hint block)
  show thesis using accepts_appends [OF _ hint(2) tuple] ok by (intro that [OF hint(1) ok]) (simp_all add: sound_def)
next
  case (found block)
  let ?r = "r\<lparr>rs_append_hint := Some block\<rparr>"
  have "rel_appends block tuple ?r" using accepts_appends [OF _ found(2) tuple] ok by (simp add: sound_def rel_appends_def pages_cong [of ?r r])
  moreover have "sound c ?r" using ok by (rule sound_cong) simp_all
  ultimately show thesis using pages_cong(2) [of ?r r] by (intro that [OF found(1)]) simp_all
next
  case exhausted
  thus thesis using left by simp
next
  case fresh
  have len: "length tuple \<le> 2 ^ 32" using tuple(2) by simp
  note f = fresh_block_ok [OF ok len fresh(1) fresh(2) [folded with_fresh_block_def]]
  have "rel_appends (rs_next_block r) tuple (with_fresh_block (length tuple) e g r)"
    using Page_new_appends [OF tuple(2)] f(4) by (simp add: rel_appends_def)
  thus thesis using f(1-3)
    by (intro that [OF fresh(2) [folded with_fresh_block_def]]) (simp_all add: with_fresh_block_def insert_page_rest)
qed

section \<open>Moving the rows of a page\<close>

text \<open>The rows of a page that a commit moves, with their identifiers on that page, as they stand afterwards.\<close>

definition moved_row :: "Page \<Rightarrow> nat \<times> LinePointer \<Rightarrow> Tid \<times> Row" where
  "moved_row page il = (case il of (i, line) \<Rightarrow>
     (\<lparr>tid_block = pg_block page, tid_offset = of_nat (i + 1)\<rparr>, (line_row (pg_bytes page) line)\<lparr>row_state := Pending\<rparr>))"

definition kept_lines :: "(nat \<times> LinePointer) list \<Rightarrow> (nat \<times> LinePointer) list" where
  "kept_lines = filter (\<lambda>il. lp_state (snd il) \<noteq> Dead)"

definition moved_rows :: "Page \<Rightarrow> (Tid \<times> Row) list" where
  "moved_rows page = map (moved_row page) (kept_lines (enumerate 0 (pg_lines page)))"

definition redirected :: "(Tid \<times> Tid) list \<Rightarrow> (Tid \<rightharpoonup> Tid) \<Rightarrow> (Tid \<rightharpoonup> Tid)" where
  "redirected = fold (\<lambda>(old_tid, new_tid) m. if old_tid \<noteq> new_tid then m(old_tid \<mapsto> new_tid) else m)"

text \<open>What the moves of the rows leave: fresh identifiers, the rows there, every other row as it was.\<close>

definition moves_to :: "(Tid \<times> Row) list \<Rightarrow> Tid list \<Rightarrow> RelationStorage \<Rightarrow> RelationStorage \<Rightarrow> bool" where
  "moves_to rows new r r' \<longleftrightarrow> length new = length rows \<and> distinct new \<and> set new \<inter> dom (rel_row r) = {}
     \<and> rel_row r' = rel_row r ++ map_of (zip new (map snd rows))
     \<and> rs_hot_redirects r' = redirected (zip (map fst rows) new) (rs_hot_redirects r)
     \<and> rs_update_redirects r' = redirected (zip (map fst rows) new) (rs_update_redirects r)"

lemma moves_none: "moves_to [] [] r r"
  by (simp add: moves_to_def redirected_def)

lemma moves_cons:
  assumes "moves_to [x] [n] r r1" "moves_to rows new r1 r'"
  shows "moves_to (x # rows) (n # new) r r'"
proof -
  have r1: "rel_row r1 = (rel_row r)(n \<mapsto> snd x)" "n \<notin> dom (rel_row r)" using assms(1) by (auto simp: moves_to_def)
  have n: "n \<notin> set new" and d: "set new \<inter> dom (rel_row r) = {}" using assms(2) r1 by (auto simp: moves_to_def)
  have "n \<notin> dom (map_of (zip new (map snd rows)))" using n by (auto dest: map_of_SomeD set_zip_leftD)
  hence "rel_row r' = rel_row r ++ map_of (zip (n # new) (map snd (x # rows)))"
    using assms(2) r1(1) by (simp add: moves_to_def map_add_upd_left)
  moreover have "redirected (zip (map fst (x # rows)) (n # new)) m = redirected (zip (map fst rows) new) (redirected [(fst x, n)] m)" for m
    by (simp add: redirected_def)
  ultimately show ?thesis using assms n d r1(2) by (simp add: moves_to_def)
qed

lemma moves_cong:
  assumes "moves_to rows new r r'" "rel_row r = rel_row q" "rs_hot_redirects r = rs_hot_redirects q" "rs_update_redirects r = rs_update_redirects q"
  shows "moves_to rows new q r'"
  using assms by (simp add: moves_to_def)

lemma counted_reserved [simp]:
  "counted_tuples st (r\<lparr>rs_pending_reserved_tids := x\<rparr>) = counted_tuples st r"
  "counted_tuples st (r\<lparr>rs_pending_reserved_blocks := y\<rparr>) = counted_tuples st r"
  "counted_tuples st (r\<lparr>rs_hot_redirects := h, rs_update_redirects := u\<rparr>) = counted_tuples st r"
proof -
  show "counted_tuples st (r\<lparr>rs_pending_reserved_tids := x\<rparr>) = counted_tuples st r" by (cases st) (simp_all add: counted_tuples.simps)
  show "counted_tuples st (r\<lparr>rs_pending_reserved_blocks := y\<rparr>) = counted_tuples st r" by (cases st) (simp_all add: counted_tuples.simps)
  show "counted_tuples st (r\<lparr>rs_hot_redirects := h, rs_update_redirects := u\<rparr>) = counted_tuples st r"
    by (cases st) (simp_all add: counted_tuples.simps)
qed

text \<open>A relation with blocks left for a number of tuples.\<close>

definition room :: "bool \<Rightarrow> nat \<Rightarrow> RelationStorage \<Rightarrow> bool" where
  "room c n r \<longleftrightarrow> sound c r \<and> unat (rs_next_block r) + n < 2 ^ 32"

definition stamped :: "Tid \<Rightarrow> LinePointer \<Rightarrow> RelationStorage \<Rightarrow> RelationStorage" where
  "stamped tid line r = snd (Relation_set_row_xmax tid (lp_xmax line) (snd (Relation_set_insert_metadata tid (lp_xmin line) (lp_cmin line) r)))"

lemma room_cong:
  assumes "room c n r" "rs_pages q = rs_pages r" "rs_next_block q = rs_next_block r"
    "\<And>st. counted_tuples st q = counted_tuples st r" "rs_live_tids q = rs_live_tids r" "rs_physical_blocks q = rs_physical_blocks r"
  shows "room c n q"
  using assms sound_cong [of c r q] by (simp add: room_def)

lemma stamped_ok:
  assumes ok: "sound c r"
  shows "sound c (stamped tid line r)" "rs_next_block (stamped tid line r) = rs_next_block r"
    "rel_row (stamped tid line r) =
       row_at tid (\<lambda>row. row\<lparr>row_xmax := lp_xmax line\<rparr>) (row_at tid (\<lambda>row. row\<lparr>row_xmin := lp_xmin line, row_cmin := lp_cmin line\<rparr>) (rel_row r))"
    "rs_hot_redirects (stamped tid line r) = rs_hot_redirects r" "rs_update_redirects (stamped tid line r) = rs_update_redirects r"
proof -
  let ?r = "snd (Relation_set_insert_metadata tid (lp_xmin line) (lp_cmin line) r)"
  have "pages_good (stamped tid line r)" unfolding stamped_def Relation_set_row_xmax_def Relation_set_insert_metadata_def
    using ok by (intro line_pointer_pages_good) (simp_all add: sound_def same_place_def)
  moreover have "rel_ok (stamped tid line r)" if "rel_ok r"
    using set_row_xmax_ok [of ?r] set_insert_metadata_ok [OF that] by (simp add: stamped_def)
  ultimately show "sound c (stamped tid line r)" using ok by (simp add: sound_def)
  show "rel_row (stamped tid line r) = row_at tid (\<lambda>row. row\<lparr>row_xmax := lp_xmax line\<rparr>)
      (row_at tid (\<lambda>row. row\<lparr>row_xmin := lp_xmin line, row_cmin := lp_cmin line\<rparr>) (rel_row r))"
    unfolding stamped_def Relation_set_row_xmax_def Relation_set_insert_metadata_def
    by (subst line_pointer_rows [where g = "\<lambda>row. row\<lparr>row_xmax := lp_xmax line\<rparr>"], simp add: line_row_def,
        subst line_pointer_rows [where g = "\<lambda>row. row\<lparr>row_xmin := lp_xmin line, row_cmin := lp_cmin line\<rparr>"], simp_all add: line_row_def)
qed (simp_all add: stamped_def Relation_set_row_xmax_def Relation_set_insert_metadata_def line_pointer_mut_rest)

lemma append_stamped:
  assumes ok: "sound c r" and appends: "rel_appends block tuple r"
  obtains tid q where "Relation_append_pending_tuple block tuple r = (Some tid, q)" "sound c (stamped tid line q)"
    "rs_next_block (stamped tid line q) = rs_next_block r" "rel_row r tid = None"
    "rel_row (stamped tid line q) = (rel_row r)(tid \<mapsto>
       \<lparr>row_state = Pending, row_xmin = lp_xmin line, row_cmin = lp_cmin line, row_xmax = lp_xmax line, row_bytes = tuple\<rparr>)"
    "rs_hot_redirects (stamped tid line q) = rs_hot_redirects r" "rs_update_redirects (stamped tid line q) = rs_update_redirects r"
proof -
  obtain t q where e: "Relation_append_pending_tuple block tuple r = (t, q)" by (cases "Relation_append_pending_tuple block tuple r")
  then obtain tid where t: "t = Some tid" and fresh: "rel_row r tid = None" and rows: "rel_row q = (rel_row r)(tid \<mapsto> new_row Pending tuple)"
    using Relation_append_rows [of r block tuple] ok appends by (auto simp: sound_def pages_good_def split: option.splits)
  have q: "sound c q" using Relation_append_ok [of r block tuple] append_pages_good [of r block tuple] e ok by (auto simp: sound_def)
  have rest: "rs_next_block q = rs_next_block r" "rs_hot_redirects q = rs_hot_redirects r" "rs_update_redirects q = rs_update_redirects r"
    using Relation_append_rest [of block tuple r] e by simp_all
  show thesis using stamped_ok [OF q] fresh rest
    by (intro that [OF e [unfolded t]]) (auto simp: rows row_at_def new_row_def fun_eq_iff)
qed

lemma moved_slice:
  assumes page: "page_layout page" and line: "i < length (pg_lines page)" "line = pg_lines page ! i" "lp_state line \<noteq> Dead"
  shows "Page_tuple_slice (tid_offset (fst (moved_row page (i, line)))) True page = Some (row_bytes (line_row (pg_bytes page) line))"
proof -
  have "i + 1 < 2 ^ 16" using page line(1) by (simp add: page_layout_def MAX_CTID_OFFSET_def)
  hence "unat (of_nat (i + 1) :: u16) = i + 1" by (subst unat_of_nat) simp
  hence "line_index (of_nat (i + 1)) = Some i" by (auto simp: line_index_def)
  hence "page_row (of_nat (i + 1)) page = Some (line_row (pg_bytes page) line)"
    using line by (simp add: page_row_def vec_get_def Page_rows_def)
  thus ?thesis using line(3) by (simp add: tuple_slice_row [OF page] moved_row_def line_row_def)
qed

definition published :: "Tid \<Rightarrow> Tid \<Rightarrow> RelationStorage \<Rightarrow> RelationStorage" where
  "published old_tid new_tid r = (if old_tid \<noteq> new_tid
     then r\<lparr>rs_hot_redirects := (rs_hot_redirects r)(old_tid \<mapsto> new_tid), rs_update_redirects := (rs_update_redirects r)(old_tid \<mapsto> new_tid)\<rparr>
     else r)"

lemma published_room: "room c n r \<Longrightarrow> room c n (published old_tid new_tid r)"
  by (erule room_cong) (simp_all add: published_def)

lemma published_moves:
  assumes "rel_row r1 new_tid = None" "rel_row r2 = (rel_row r1)(new_tid \<mapsto> snd x)"
    "rs_hot_redirects r2 = rs_hot_redirects r1" "rs_update_redirects r2 = rs_update_redirects r1"
  shows "moves_to [x] [new_tid] r1 (published (fst x) new_tid r2)"
proof -
  have "rel_row (published (fst x) new_tid r2) = rel_row r2" by (rule pages_cong(2)) (simp add: published_def)
  thus ?thesis using assms by (auto simp: moves_to_def redirected_def published_def)
qed

lemma commit_line_moves:
  assumes room: "room c (Suc n) r" and page: "page_layout page" and line: "i < length (pg_lines page)" "line = pg_lines page ! i" "lp_state line \<noteq> Dead"
    and tuple: "row_bytes (line_row (pg_bytes page) line) \<noteq> []"
  obtains new_tid r' where "commit_line epoch generation page (i, line) (r, remaps) = Some (r', remaps @ [(fst (moved_row page (i, line)), new_tid)])"
    "room c n r'" "moves_to [moved_row page (i, line)] [new_tid] r r'"
proof -
  let ?old = "fst (moved_row page (i, line))"
  have i: "i + 1 < 2 ^ 16" using page line(1) by (simp add: page_layout_def MAX_CTID_OFFSET_def)
  obtain tuple where row: "tuple = row_bytes (line_row (pg_bytes page) line)" and slice: "Page_tuple_slice (tid_offset ?old) True page = Some tuple"
    using moved_slice [OF page line] by simp
  have len: "length tuple < 2 ^ 32" "tuple \<noteq> []" using tuple unsigned_less [of "lp_len line", where 'a = nat] by (auto simp: row line_row_def)
  let ?r0 = "r\<lparr>rs_pending_reserved_tids := rs_pending_reserved_tids r - {?old}\<rparr>"
  have r0: "room c (Suc n) ?r0" using room by (rule room_cong) simp_all
  have "unat (- 1 :: u32) = 2 ^ 32 - 1" by (simp add: unsigned_minus_1_eq_mask mask_eq_exp_minus_1)
  hence left: "rs_next_block ?r0 \<noteq> - 1" using r0 by (auto simp: room_def)
  have ok0: "sound c ?r0" using r0 by (simp add: room_def)
  obtain block r1 where target: "Relation_append_target_block (length tuple) epoch generation ?r0 = (Some block, r1)"
    and r1: "sound c r1" "rel_row r1 = rel_row ?r0" "rel_appends block tuple r1" "unat (rs_next_block r1) \<le> Suc (unat (rs_next_block ?r0))"
      "rs_hot_redirects r1 = rs_hot_redirects ?r0" "rs_update_redirects r1 = rs_update_redirects ?r0"
    using append_target_some [OF ok0 len(2,1) left] by blast
  obtain new_tid r2 where append: "Relation_append_pending_tuple block tuple r1 = (Some new_tid, r2)"
    and r2: "sound c (stamped new_tid line r2)" "rs_next_block (stamped new_tid line r2) = rs_next_block r1"
      "rel_row r1 new_tid = None" "rel_row (stamped new_tid line r2) = (rel_row r1)(new_tid \<mapsto> snd (moved_row page (i, line)))"
      "rs_hot_redirects (stamped new_tid line r2) = rs_hot_redirects r1" "rs_update_redirects (stamped new_tid line r2) = rs_update_redirects r1"
    using append_stamped [OF r1(1,3), of line] by (auto simp: moved_row_def row line_row_def)
  have n: "room c n (stamped new_tid line r2)" using r2(1,2) r1(4) r0 by (simp add: room_def)
  have "moves_to [moved_row page (i, line)] [new_tid] r (published ?old new_tid (stamped new_tid line r2))"
    by (rule moves_cong [OF published_moves [OF r2(3-6)]]) (simp_all add: r1 pages_cong(2) [of ?r0 r])
  thus thesis using published_room [OF n]
    by (intro that [of "published ?old new_tid (stamped new_tid line r2)" new_tid])
       (use line(3) i slice target append published_room in \<open>simp_all add: commit_line_def Let_def stamped_def published_def moved_row_def\<close>)
qed

lemma commit_lines_move:
  assumes page: "page_layout page" and room: "room c (length (kept_lines ils)) r"
    and ils: "\<forall>(i, line) \<in> set ils. i < length (pg_lines page) \<and> line = pg_lines page ! i"
    and tuples: "\<forall>row \<in> snd ` moved_row page ` set (kept_lines ils). row_bytes row \<noteq> []"
  shows "\<exists>new r'. fold_option (commit_line epoch generation page) ils (r, remaps) =
      Some (r', remaps @ zip (map fst (map (moved_row page) (kept_lines ils))) new)
    \<and> room c 0 r' \<and> moves_to (map (moved_row page) (kept_lines ils)) new r r'"
  using room ils tuples
proof (induction ils arbitrary: r remaps)
  case Nil
  thus ?case using moves_none [of r] by (intro exI [of _ "[]"] exI [of _ r]) (simp add: kept_lines_def)
next
  case (Cons il ils)
  obtain i line where il: "il = (i, line)" by (cases il)
  show ?case
  proof (cases "lp_state line = Dead")
    case True
    thus ?thesis using Cons by (simp add: il kept_lines_def commit_line_def)
  next
    case False
    have kept: "kept_lines (il # ils) = il # kept_lines ils" using False by (simp add: il kept_lines_def)
    have i: "i < length (pg_lines page)" "line = pg_lines page ! i" using Cons.prems(2) by (simp_all add: il)
    have r: "room c (Suc (length (kept_lines ils))) r" and bytes: "row_bytes (line_row (pg_bytes page) line) \<noteq> []"
      using Cons.prems(1,3) by (simp_all add: kept) (simp add: il moved_row_def)
    obtain n r1 where n: "commit_line epoch generation page il (r, remaps) = Some (r1, remaps @ [(fst (moved_row page il), n)])"
      "room c (length (kept_lines ils)) r1" "moves_to [moved_row page il] [n] r r1"
      unfolding il by (rule commit_line_moves [OF r page i False bytes])
    have rest: "\<forall>(i, line) \<in> set ils. i < length (pg_lines page) \<and> line = pg_lines page ! i"
      "\<forall>row \<in> snd ` moved_row page ` set (kept_lines ils). row_bytes row \<noteq> []" using Cons.prems(2,3) by (simp_all add: kept)
    obtain new r' where "fold_option (commit_line epoch generation page) ils (r1, remaps @ [(fst (moved_row page il), n)]) =
        Some (r', (remaps @ [(fst (moved_row page il), n)]) @ zip (map fst (map (moved_row page) (kept_lines ils))) new)"
      "room c 0 r'" "moves_to (map (moved_row page) (kept_lines ils)) new r1 r'"
      using Cons.IH [OF n(2) rest, of "remaps @ [(fst (moved_row page il), n)]"] by blast
    thus ?thesis using n(1) moves_cons [OF n(3)] by (intro exI [of _ "n # new"] exI [of _ r']) (simp add: kept)
  qed
qed

section \<open>A whole page\<close>

text \<open>A page that keeps its identifiers: later commands refer to them, or the relation is empty.\<close>

definition keeps_tids :: "TransactionOverlay \<Rightarrow> u32 \<Rightarrow> Page \<Rightarrow> RelationStorage \<Rightarrow> bool" where
  "keeps_tids overlay relid page r \<longleftrightarrow> Overlay_pending_page_needs_stable_tid overlay relid (pg_block page) \<or> relation_is_empty r"

text \<open>Then the page becomes a page of the relation as it is; redirects and counters stay.\<close>

definition stays_in :: "Page \<Rightarrow> RelationStorage \<Rightarrow> RelationStorage \<Rightarrow> bool" where
  "stays_in page r r' \<longleftrightarrow>
     (\<forall>tid. rel_row r' tid = (if tid_block tid = pg_block page then page_row (tid_offset tid) page else rel_row r tid))
     \<and> rs_hot_redirects r' = rs_hot_redirects r \<and> rs_update_redirects r' = rs_update_redirects r
     \<and> (\<forall>st. counted_tuples st r' = counted_tuples st r)"

text \<open>A page that can be committed: well formed, of a bounded size, in a block of the relation.\<close>

definition committable :: "Page \<Rightarrow> RelationStorage \<Rightarrow> bool" where
  "committable page r \<longleftrightarrow> page_ok page \<and> length (pg_bytes page) \<le> 2 ^ 32 \<and> pg_block page < rs_next_block r"

lemma commit_page_stays:
  assumes page: "committable page r" and good: "pages_good r" and stays: "keeps_tids overlay relid page r"
  shows "\<exists>r'. commit_page epoch generation relid overlay page (r, remaps) = Some (r', remaps) \<and> pages_good r' \<and> stays_in page r r'"
proof -
  let ?r = "r\<lparr>rs_pending_reserved_blocks := rs_pending_reserved_blocks r - {pg_block page},
      rs_pending_reserved_tids := rs_pending_reserved_tids r - set (page_tids page)\<rparr>"
  have "pages_good ?r" by (rule pages_good_cong [OF good]) simp_all
  hence "pages_good (Relation_insert_page page ?r)" using page by (intro pages_good_insert) (simp_all add: committable_def)
  moreover have "stays_in page r (Relation_insert_page page ?r)"
    by (simp add: stays_in_def insert_page_row insert_page_rest pages_cong(2) [of ?r r])
  ultimately show ?thesis using stays by (intro exI [of _ "Relation_insert_page page ?r"]) (simp add: commit_page_def keeps_tids_def relation_is_empty_def)
qed

lemma commit_page_moves:
  assumes page: "page_ok page" and room: "room c (length (moved_rows page)) r"
    and tuples: "\<forall>row \<in> snd ` set (moved_rows page). row_bytes row \<noteq> []"
    and moves: "\<not> keeps_tids overlay relid page r"
  shows "\<exists>new r'. commit_page epoch generation relid overlay page (r, remaps) = Some (r', remaps @ zip (map fst (moved_rows page)) new)
    \<and> sound c r' \<and> moves_to (moved_rows page) new r r'"
proof -
  let ?r = "r\<lparr>rs_pending_reserved_blocks := rs_pending_reserved_blocks r - {pg_block page}\<rparr>"
  have "room c (length (moved_rows page)) ?r" using room by (rule room_cong) simp_all
  moreover have "\<forall>(i, line) \<in> set (enumerate 0 (pg_lines page)). i < length (pg_lines page) \<and> line = pg_lines page ! i"
    by (auto simp: in_set_enumerate_eq)
  ultimately obtain new r' where "fold_option (commit_line epoch generation page) (enumerate 0 (pg_lines page)) (?r, remaps) =
      Some (r', remaps @ zip (map fst (moved_rows page)) new)" "room c 0 r'" "moves_to (moved_rows page) new ?r r'"
    using commit_lines_move [of page c "enumerate 0 (pg_lines page)" ?r epoch generation remaps] page tuples
    by (auto simp: moved_rows_def page_ok_def)
  moreover have "\<not> relation_is_empty ?r" using moves by (simp add: keeps_tids_def relation_is_empty_def)
  moreover have "moves_to (moved_rows page) new r r'"
    using calculation(3) by (rule moves_cong) (simp_all add: pages_cong(2) [of ?r r])
  ultimately show ?thesis using moves by (intro exI [of _ new] exI [of _ r']) (simp add: commit_page_def keeps_tids_def Let_def room_def)
qed

end
