(* ===== verification/Storage2_Runs.thy ===== *)
theory Storage2_Runs
  imports Storage2_Commit
begin

text \<open>
  Sequences of operations on a page and on a relation. The layout and the byte counters of a page, and
  the pages of a relation, are right after every sequence that starts from an empty one; the counters of
  a relation are right as long as no whole page was inserted, marked dead or restored since they were last
  recounted.
\<close>

section \<open>Runs\<close>

text \<open>A sequence of operations each of which is valid where it runs.\<close>

fun valid_run :: "('op \<Rightarrow> 's \<Rightarrow> bool) \<Rightarrow> ('op \<Rightarrow> 's \<Rightarrow> 's) \<Rightarrow> 'op list \<Rightarrow> 's \<Rightarrow> bool" where
  "valid_run valid step [] s = True"
| "valid_run valid step (op # ops) s = (valid op s \<and> valid_run valid step ops (step op s))"

locale kept_by =
  fixes step :: "'op \<Rightarrow> 's \<Rightarrow> 's" and valid :: "'op \<Rightarrow> 's \<Rightarrow> bool" and inv :: "'s \<Rightarrow> bool"
  assumes step_inv: "valid op s \<Longrightarrow> inv s \<Longrightarrow> inv (step op s)"
begin

lemma run_inv: "inv s \<Longrightarrow> valid_run valid step ops s \<Longrightarrow> inv (fold step ops s)"
  by (induction ops arbitrary: s) (simp_all add: step_inv)

end

section \<open>Runs of a page\<close>

datatype PageOp =
    AppendTuple "u8 list" LinePointerState
  | MarkDead u16
  | MarkLive u16
  | MarkAllDead
  | RestoreTo PageCheckpoint
  | RecomputeBytes

fun page_op :: "PageOp \<Rightarrow> Page \<Rightarrow> Page" where
  "page_op (AppendTuple tuple state) p = snd (Page_append_tuple_with_state tuple state p)"
| "page_op (MarkDead offset) p = snd (Page_mark_dead offset p)"
| "page_op (MarkLive offset) p = snd (Page_mark_live offset p)"
| "page_op MarkAllDead p = Page_mark_all_dead p"
| "page_op (RestoreTo checkpoint) p = Page_restore_to_preserving_tid_space checkpoint p"
| "page_op RecomputeBytes p = Page_recompute_tuple_bytes p"

lemma page_op_ok: "page_ok p \<Longrightarrow> page_ok (page_op op p)"
  using recompute_ok [of p] by (cases op) (simp_all add: append_tuple_ok mark_dead_ok mark_live_ok mark_all_dead_ok restore_ok page_ok_def [of p])

interpretation pages: kept_by page_op "\<lambda>_ _. True" page_ok
  by unfold_locales (rule page_op_ok)

lemma any_run_valid: "valid_run (\<lambda>_ _. True) step ops s"
  by (induction ops arbitrary: s) simp_all

section \<open>Runs of a relation\<close>

datatype RelOp =
    ReserveBlock
  | InsertPage Page
  | MarkPageDead u32
  | RestorePage u32 PageCheckpoint
  | TargetBlock nat u64 u64
  | AppendPending u32 "u8 list"
  | MarkRowLive Tid
  | MarkRowDead Tid
  | SetInsertMetadata Tid u32 u32
  | SetRowXmax Tid u32
  | SetMaxTuples u16
  | RestoreMetadata RelationCheckpoint
  | RestoreRollback RelationCheckpoint
  | HotRedirect Tid Tid
  | IndexEntry u32 IndexKey Tid

fun rel_op :: "RelOp \<Rightarrow> RelationStorage \<Rightarrow> RelationStorage" where
  "rel_op ReserveBlock r = snd (Relation_reserve_block r)"
| "rel_op (InsertPage page) r = Relation_insert_page page r"
| "rel_op (MarkPageDead block) r = Relation_mark_page_dead block r"
| "rel_op (RestorePage block checkpoint) r =
     (case Relation_page r block of
        None \<Rightarrow> r
      | Some page \<Rightarrow> Relation_put_page block (Page_restore_to_preserving_tid_space checkpoint page) r)"
| "rel_op (TargetBlock len epoch generation) r = snd (Relation_append_target_block len epoch generation r)"
| "rel_op (AppendPending block tuple) r = snd (Relation_append_pending_tuple block tuple r)"
| "rel_op (MarkRowLive tid) r = snd (Relation_mark_live tid r)"
| "rel_op (MarkRowDead tid) r = snd (Relation_mark_dead tid r)"
| "rel_op (SetInsertMetadata tid xmin cmin) r = snd (Relation_set_insert_metadata tid xmin cmin r)"
| "rel_op (SetRowXmax tid xmax) r = snd (Relation_set_row_xmax tid xmax r)"
| "rel_op (SetMaxTuples max_tuples) r = Relation_set_max_tuples_per_block max_tuples r"
| "rel_op (RestoreMetadata checkpoint) r = Relation_restore_metadata_preserving_tid_space checkpoint r"
| "rel_op (RestoreRollback checkpoint) r = Relation_restore_rollback_metadata_preserving_tid_space checkpoint r"
| "rel_op (HotRedirect old_tid new_tid) r = Relation_insert_hot_redirect old_tid new_tid r"
| "rel_op (IndexEntry index_relid key tid) r = Relation_insert_index_entry index_relid key tid r"

text \<open>
  Tuples of a relation have a 32-bit length, and a page that is inserted is well formed and in a block
  that the relation gave out.
\<close>

fun rel_valid :: "RelOp \<Rightarrow> RelationStorage \<Rightarrow> bool" where
  "rel_valid (TargetBlock len epoch generation) r = (len \<le> 2 ^ 32)"
| "rel_valid (InsertPage page) r = (page_ok page \<and> length (pg_bytes page) \<le> 2 ^ 32 \<and> pg_block page < rs_next_block r)"
| "rel_valid _ r = True"

text \<open>
  The three operations that change line pointers and leave the counters alone, and the one that counts
  afresh.
\<close>

fun uncounted :: "RelOp \<Rightarrow> bool \<Rightarrow> bool" where
  "uncounted (InsertPage page) d = True"
| "uncounted (MarkPageDead block) d = True"
| "uncounted (RestorePage block checkpoint) d = True"
| "uncounted (RestoreMetadata checkpoint) d = False"
| "uncounted _ d = d"

definition rel_good :: "RelationStorage \<Rightarrow> bool" where
  "rel_good r \<longleftrightarrow> rel_ok r \<and> rel_small r"

subsection \<open>Pages\<close>

lemma rel_op_pages_good:
  assumes good: "pages_good r" and valid: "rel_valid op r"
  shows "pages_good (rel_op op r)"
proof (cases op)
  case ReserveBlock
  show ?thesis using unat_Suc_next [of "rs_next_block r"] good
    by (auto simp: ReserveBlock Relation_reserve_block_def intro: pages_good_cong [OF good])
next
  case (RestorePage block c)
  show ?thesis
  proof (cases "Relation_page r block")
    case (Some page)
    have "page_ok (Page_restore_to_preserving_tid_space c page)" by (rule restore_ok [OF pages_goodD(2) [OF good Some]])
    thus ?thesis using Some by (intro pages_good_put [OF good Some, of "Page_restore_to_preserving_tid_space c page"])
      (simp_all add: RestorePage Page_restore_to_preserving_tid_space_def Page_recompute_tuple_bytes_def Relation_put_page_def Let_def)
  qed (simp add: RestorePage good)
next
  case (SetMaxTuples m)
  show ?thesis by (rule pages_good_cong [OF good]) (simp_all add: SetMaxTuples Relation_set_max_tuples_per_block_def)
next
  case (RestoreMetadata c)
  show ?thesis by (rule pages_good_cong [OF good])
    (simp_all add: RestoreMetadata Relation_restore_metadata_preserving_tid_space_def recompute_stats_rest raised_next_block_le)
next
  case (RestoreRollback c)
  show ?thesis by (rule pages_good_cong [OF good])
    (simp_all add: RestoreRollback Relation_restore_rollback_metadata_preserving_tid_space_def Let_def raised_next_block_le)
next
  case (HotRedirect a b)
  have "rs_next_block (Relation_insert_hot_redirect a b r) = rs_next_block r"
    by (simp add: Relation_insert_hot_redirect_def Let_def split: option.split)
  thus ?thesis by (intro pages_good_cong [OF good]) (simp_all add: HotRedirect redirect_index_rest)
next
  case (IndexEntry i k t)
  show ?thesis by (rule pages_good_cong [OF good]) (simp_all add: IndexEntry Relation_insert_index_entry_def Let_def)
qed (use good valid in \<open>simp_all add: pages_good_insert mark_page_dead_pages_good target_block_pages append_pages_good mark_pages_good
  Relation_set_insert_metadata_def Relation_set_row_xmax_def line_pointer_pages_good same_place_def\<close>)

interpretation rels: kept_by rel_op rel_valid pages_good
  by unfold_locales (rule rel_op_pages_good)

subsection \<open>Counters\<close>

lemma rel_good_pages_good: "rel_good r \<Longrightarrow> pages_good r"
  by (simp add: rel_good_def pages_good_def rel_ok_def)

lemma restored_counts: "pages_good r \<Longrightarrow> rel_ok (Relation_restore_metadata_preserving_tid_space c r)"
proof -
  assume good: "pages_good r"
  have "pages_good (Relation_recompute_appendable_blocks
      (r\<lparr>rs_next_block := raised_next_block r c, rs_max_tuples_per_block := rc_max_tuples_per_block c\<rparr>))"
    by (rule pages_good_cong [OF good]) (simp_all add: raised_next_block_le)
  thus ?thesis unfolding Relation_restore_metadata_preserving_tid_space_def by (intro recompute_tuple_stats_ok) (simp add: pages_good_def)
qed

lemma target_block_counts:
  assumes "rel_ok r" "rel_small r" "len \<le> 2 ^ 32"
  shows "rel_ok (snd (Relation_append_target_block len e g r))"
proof (cases rule: append_target_cases [of len e g r])
  case (found block)
  show ?thesis unfolding found(1) snd_conv by (rule rel_ok_cong [OF assms(1)]) simp_all
next
  case fresh
  have "sound True r" using assms(1,2) by (simp add: sound_def pages_good_def rel_ok_def)
  from fresh_block_ok(1) [OF this assms(3) fresh(1), of e g] show ?thesis using fresh(2) by (simp add: sound_def with_fresh_block_def)
qed (use assms in simp_all)

text \<open>Every operation but the three keeps the counters right, and a restore makes them right.\<close>

lemma rel_op_counts:
  assumes good: "pages_good r" and counted: "\<not> d \<Longrightarrow> rel_ok r" and valid: "rel_valid op r" and d: "\<not> uncounted op d"
  shows "rel_ok (rel_op op r)"
proof (cases "\<exists>c. op = RestoreMetadata c")
  case True
  thus ?thesis using restored_counts [OF good] by auto
next
  case False
  hence "\<not> d" using d by (cases op) auto
  hence ok: "rel_ok r" by (rule counted)
  have small: "rel_small r" using good by (simp add: pages_good_def)
  show ?thesis
  proof (cases op)
    case ReserveBlock
    show ?thesis using unat_Suc_next [of "rs_next_block r"] ok
      by (auto simp: ReserveBlock Relation_reserve_block_def intro: rel_ok_cong [OF ok])
  qed (use False d valid ok small Relation_append_ok [OF ok] set_insert_metadata_ok [OF ok] set_row_xmax_ok [OF ok] Relation_mark_dead_ok [OF ok]
      Relation_mark_live_ok [OF ok] restore_metadata_ok [OF ok] redirect_index_rest [where r = r] target_block_counts [OF ok small] in auto)
qed

lemma rel_run_counts:
  assumes "pages_good r" "\<not> d \<Longrightarrow> rel_ok r" "valid_run rel_valid rel_op ops r" "\<not> fold uncounted ops d"
  shows "rel_ok (fold rel_op ops r)"
  using assms
proof (induction ops arbitrary: r d)
  case (Cons op ops)
  have v: "rel_valid op r" "valid_run rel_valid rel_op ops (rel_op op r)" using Cons.prems(3) by simp_all
  have "rel_ok (rel_op op r)" if "\<not> uncounted op d" using rel_op_counts [OF Cons.prems(1,2) v(1) that] .
  thus ?case using Cons.IH [OF rel_op_pages_good [OF Cons.prems(1) v(1)] _ v(2), of "uncounted op d"] Cons.prems(4) by simp
qed simp

lemma rel_default_good: "rel_good RelationStorage_default"
proof -
  have "counted_tuples st RelationStorage_default = (0, 0)" for st by (cases st) (simp_all add: counted_tuples.simps RelationStorage_default_def)
  moreover have "Relation_page RelationStorage_default block = None" for block by (simp add: Relation_page_def vec_get_def RelationStorage_default_def)
  ultimately show ?thesis
    by (simp add: rel_good_def rel_small_def rel_ok_def rel_pages_ok_def rel_counts_def rel_sets_def rel_row_def sum_pages_def)
       (simp add: RelationStorage_default_def)
qed

end
