(* ===== verification/Storage2_Properties.thy ===== *)
theory Storage2_Properties
  imports Storage2_Runs
begin

text \<open>
  The properties of the table storage: the layout of pages and the counters of relations, the rows a
  transaction sees, lookups, appends, aborts and the moves of a commit. Each one that has hypotheses is
  followed by an instance of it at a small storage.
\<close>

section \<open>A small storage\<close>

text \<open>One page with a committed row of three bytes and a pending row of two, in a relation with a
  primary key and a chain of two redirects.\<close>

definition small_page :: Page where
  "small_page = \<lparr>pg_block = 0, pg_epoch = 0, pg_generation = 0, pg_bytes = [1, 2, 3, 0, 0, 0, 0, 0, 4, 5, 0, 0, 0, 0, 0, 0], pg_used = 10,
     pg_lines = [\<lparr>lp_offset = 0, lp_len = 3, lp_state = Live, lp_xmin = 7, lp_cmin = 0, lp_xmax = 0\<rparr>,
                 \<lparr>lp_offset = 8, lp_len = 2, lp_state = Pending, lp_xmin = 9, lp_cmin = 1, lp_xmax = 0\<rparr>],
     pg_pending_bytes = 2, pg_live_bytes = 3, pg_dead_bytes = 0\<rparr>"

definition tid_at :: "u32 \<Rightarrow> u16 \<Rightarrow> Tid" where
  "tid_at block offset = \<lparr>tid_block = block, tid_offset = offset\<rparr>"

definition small_relation :: RelationStorage where
  "small_relation = RelationStorage_default\<lparr>rs_pages := [Some small_page], rs_physical_blocks := {0}, rs_next_block := 1,
     rs_live_tids := {tid_at 0 1}, rs_live_tuple_count := 1, rs_live_tuple_bytes := 3, rs_pending_tuple_count := 1, rs_pending_tuple_bytes := 2,
     rs_primary_key_index := [Single (ByValue 7) \<mapsto> tid_at 5 1], rs_hot_redirects := [tid_at 5 1 \<mapsto> tid_at 6 1, tid_at 6 1 \<mapsto> tid_at 0 1]\<rparr>"

definition small_state :: StorageState where
  "small_state = \<lparr>st_relations = [5 \<mapsto> small_relation], st_epoch = 1, st_generation = 1, st_row_counts = [5 \<mapsto> 1], st_arena_rewinds = 0\<rparr>"

definition idle_session :: SessionStorage where
  "idle_session = \<lparr>ss_transaction_stack = [], ss_explicit_transaction = False, ss_scans = []\<rparr>"

text \<open>The session that inserted the pending row, after clearing another relation.\<close>

definition busy_session :: SessionStorage where
  "busy_session = \<lparr>ss_transaction_stack = [TransactionOverlay_default\<lparr>to_inserted_tids := [(5, [tid_at 0 2])],
       to_cleared_relations := [(6, RelationStorage_default)]\<rparr>],
     ss_explicit_transaction = True, ss_scans = []\<rparr>"

text \<open>The page another session wants to commit: a pending row and a dead one.\<close>

definition moving_page :: Page where
  "moving_page = small_page\<lparr>pg_block := 9, pg_lines := [\<lparr>lp_offset = 0, lp_len = 3, lp_state = Pending, lp_xmin = 7, lp_cmin = 0, lp_xmax = 0\<rparr>,
     \<lparr>lp_offset = 8, lp_len = 2, lp_state = Dead, lp_xmin = 9, lp_cmin = 1, lp_xmax = 0\<rparr>],
     pg_pending_bytes := 3, pg_live_bytes := 0, pg_dead_bytes := 2\<rparr>"

lemma small_pages_ok: "page_ok small_page" "page_ok moving_page"
proof -
  have "counted_bytes st small_page = state_bytes st (pg_lines small_page)" "counted_bytes st moving_page = state_bytes st (pg_lines moving_page)" for st
    by (cases st; simp add: small_page_def moving_page_def state_bytes_def)+
  thus "page_ok small_page" "page_ok moving_page"
    by (simp_all add: page_ok_def page_counts_def)
       (simp_all add: page_layout_def small_page_def moving_page_def line_end_def usize_max_def MAX_CTID_OFFSET_def)
qed

lemma small_relation_page: "Relation_page small_relation block = (if block = 0 then Some small_page else None)"
  by (simp add: Relation_page_def vec_get_def small_relation_def unat_eq_zero)

lemma small_relation_row:
  "rel_row small_relation tid = (if tid = tid_at 0 1 then Some \<lparr>row_state = Live, row_xmin = 7, row_cmin = 0, row_xmax = 0, row_bytes = [1, 2, 3]\<rparr>
     else if tid = tid_at 0 2 then Some \<lparr>row_state = Pending, row_xmin = 9, row_cmin = 1, row_xmax = 0, row_bytes = [4, 5]\<rparr> else None)"
proof (cases tid)
  case (fields block offset)
  consider "offset = 0" | "offset = 1" | "offset = 2" | "unat offset - 1 \<ge> 2"
    using word_unat_eq_iff [of offset 0] word_unat_eq_iff [of offset 1] word_unat_eq_iff [of offset 2] by fastforce
  thus ?thesis
    by cases (auto simp: fields rel_row_def small_relation_page page_row_def line_index_def vec_get_def Page_rows_def small_page_def line_row_def tid_at_def)
qed

lemma small_relation_good: "rel_good small_relation"
proof -
  have "counted_tuples st small_relation = (sum_pages (\<lambda>p. state_count st (pg_lines p)) small_relation, sum_pages (\<lambda>p. state_bytes st (pg_lines p)) small_relation)" for st
    by (cases st) (simp_all add: counted_tuples.simps small_relation_def sum_pages_def small_page_def state_bytes_def RelationStorage_default_def)
  moreover have "rel_pages_ok small_relation"
    using small_pages_ok(1) by (simp add: rel_pages_ok_def small_relation_page) (simp add: small_relation_def small_page_def sum_pages_def usize_max_def)
  moreover have "rel_sets small_relation"
    by (auto simp: rel_sets_def small_relation_row small_relation_page split: if_splits) (auto simp: small_relation_def tid_at_def)
  ultimately show ?thesis
    by (simp add: rel_good_def rel_ok_def rel_counts_def rel_small_def small_relation_page) (simp add: small_page_def)
qed

section \<open>Pages and relations\<close>

text \<open>C15: A new page keeps its layout and its byte counters under every sequence of appends, marks, restores
  and recounts: its tuples lie one after the other inside the used part of its bytes, its line pointers
  fit a 16-bit offset, and each counter is the sum of the lengths of the tuples in its state.\<close>

theorem page_runs_well_formed:
  assumes "min_capacity \<le> 2 ^ 62"
  shows "page_ok (fold page_op ops (Page_new block epoch generation min_capacity))"
  using pages.run_inv [OF Page_new_ok [OF assms] any_run_valid] .

theorem page_runs_well_formed_witness:
  "(100 :: nat) \<le> 2 ^ 62 \<and> page_ok (fold page_op [AppendTuple [1, 2, 3] Pending, MarkLive 1, AppendTuple [4] Live, MarkDead 2, RecomputeBytes]
     (Page_new 4 0 0 100))"
  using page_runs_well_formed [of 100 "[AppendTuple [1, 2, 3] Pending, MarkLive 1, AppendTuple [4] Live, MarkDead 2, RecomputeBytes]" 4 0 0]
  by simp

text \<open>C14: Every sequence of operations on an empty relation leaves its pages well formed, of a bounded size and in
  blocks that were given out. The operations are all those of a relation, the insertion, marking and
  restoring of whole pages included, with tuples of a 32-bit length and inserted pages that are themselves
  well formed. The counters and sets the relation maintains step by step are those a recount of all its
  pages gives, so that recounting changes nothing, provided no whole page was inserted, marked dead or
  restored since the last restore of the metadata, which recounts: these three do not count their tuples.\<close>

theorem relation_runs_counted:
  assumes "valid_run rel_valid rel_op ops RelationStorage_default"
  shows "pages_good (fold rel_op ops RelationStorage_default)
    \<and> (\<not> fold uncounted ops False \<longrightarrow>
         Relation_recompute_tuple_stats (fold rel_op ops RelationStorage_default) = fold rel_op ops RelationStorage_default)"
proof
  have good: "pages_good RelationStorage_default" and ok: "rel_ok RelationStorage_default"
    using rel_default_good rel_good_pages_good by (auto simp: rel_good_def)
  show "pages_good (fold rel_op ops RelationStorage_default)" by (rule rels.run_inv [OF good assms])
  show "\<not> fold uncounted ops False \<longrightarrow>
      Relation_recompute_tuple_stats (fold rel_op ops RelationStorage_default) = fold rel_op ops RelationStorage_default"
    using rel_run_counts [OF good _ assms, of False] ok by (auto intro: recompute_tuple_stats_id)
qed

theorem relation_runs_counted_witness:
  "valid_run rel_valid rel_op [TargetBlock 3 0 0, AppendPending 0 [1, 2, 3], MarkPageDead 0, RestoreMetadata (Relation_checkpoint RelationStorage_default),
       AppendPending 0 [4], MarkRowLive (tid_at 0 2)] RelationStorage_default
   \<and> \<not> fold uncounted [TargetBlock 3 0 0, AppendPending 0 [1, 2, 3], MarkPageDead 0, RestoreMetadata (Relation_checkpoint RelationStorage_default),
       AppendPending 0 [4], MarkRowLive (tid_at 0 2)] False
   \<and> Relation_recompute_tuple_stats (fold rel_op [TargetBlock 3 0 0, AppendPending 0 [1, 2, 3], MarkPageDead 0,
         RestoreMetadata (Relation_checkpoint RelationStorage_default), AppendPending 0 [4], MarkRowLive (tid_at 0 2)] RelationStorage_default) =
     fold rel_op [TargetBlock 3 0 0, AppendPending 0 [1, 2, 3], MarkPageDead 0, RestoreMetadata (Relation_checkpoint RelationStorage_default),
       AppendPending 0 [4], MarkRowLive (tid_at 0 2)] RelationStorage_default"
  using relation_runs_counted [of "[TargetBlock 3 0 0, AppendPending 0 [1, 2, 3], MarkPageDead 0,
    RestoreMetadata (Relation_checkpoint RelationStorage_default), AppendPending 0 [4], MarkRowLive (tid_at 0 2)]"]
  by simp

section \<open>What a transaction sees\<close>

text \<open>C12: The row a transaction sees at an identifier, with or without a command limit, is the one its stack of
  overlays defines: none where the row is deleted or its relation cleared in the stack, the pending row
  where the stack inserted it, else the committed row. The short path for a stack of one overlay agrees
  with the general one.\<close>

theorem visible_rows_by_stack: "visible_slice s overlays relid tid curcid = stack_slice s overlays relid tid curcid"
  by (rule visible_slice_stack)

text \<open>C13: A lookup by primary key that shortens the chains of redirects it follows finds the row that the
  read-only lookup finds, provided each chain ends within the hops the code follows.\<close>

theorem primary_key_lookups_agree:
  assumes "chains_end s [] relid" "chains_end s (ss_transaction_stack session) relid"
  shows "fst (primary_key_lookup session relid key s) = primary_key_lookup_read s session relid key"
  using assms by (rule primary_key_lookup_ok)

lemma small_chains: "chains_end small_state [] 5" "resolve_tid_redirect_in_overlays small_state [] 5 (tid_at 5 1) = tid_at 0 1"
proof -
  have h: "chain_hop small_state [] 5 t = [tid_at 5 1 \<mapsto> tid_at 6 1, tid_at 6 1 \<mapsto> tid_at 0 1] t" for t
    by (simp add: chain_hop_def hop_def overlay_tid_redirect_def committed_redirect_def small_state_def small_relation_def)
  have "ends (Suc (Suc 0)) (chain_hop small_state [] 5) t" for t
    by (simp add: ends_def h tid_at_def)
  note m = ends_mono [OF this, of MAX_HOT_REDIRECT_HOPS]
  show "chains_end small_state [] 5" using m by (simp add: chains_end_def MAX_HOT_REDIRECT_HOPS_def)
  show "resolve_tid_redirect_in_overlays small_state [] 5 (tid_at 5 1) = tid_at 0 1"
    using m [of "tid_at 5 1"] h by (simp add: resolve_tid_redirect_in_overlays_def resolve_walk chain_hop_def MAX_HOT_REDIRECT_HOPS_def)
qed

lemma small_slice: "relation_slice small_state 5 (tid_at 0 1) False = Some [1, 2, 3]"
  using small_relation_good
  by (simp add: relation_slice_def small_state_def Relation_tuple_slice_row rel_good_def rel_ok_def small_relation_row)

theorem primary_key_lookups_agree_witness:
  "chains_end small_state [] 5 \<and> chains_end small_state (ss_transaction_stack idle_session) 5
   \<and> fst (primary_key_lookup idle_session 5 (Single (ByValue 7)) small_state) = primary_key_lookup_read small_state idle_session 5 (Single (ByValue 7))
   \<and> primary_key_lookup_read small_state idle_session 5 (Single (ByValue 7)) = Some (tid_at 0 1)"
  using primary_key_lookups_agree [of small_state 5 idle_session "Single (ByValue 7)"] small_chains small_slice
  by (simp add: primary_key_lookup_read_def idle_session_def Session_transaction_has_visibility_deltas_def)
     (simp add: small_state_def small_relation_def)

section \<open>Transactions\<close>

text \<open>C10: An append of a tuple to the pending pages of a session returns an identifier. The session sees the tuple
  there and every other row of the relation as before; every other session sees what it saw. This holds
  where the relation has a block left, the pending pages of the open overlay are well formed and in
  different blocks that the relation gave out, the tuple has a 32-bit length, and every row of the relation
  that the session deleted is at an identifier that was given out, or was deleted in the first command of
  an overlay that cleared the relation. The last condition holds after the clear that precedes the appends
  of \<^verbatim>\<open>replace_relation_from\<close>, which deletes every visible row and goes on with the blocks after them.\<close>

theorem append_seen_by_own_session:
  assumes "append_ready session s relid" "length tuple < 2 ^ 32" "deletes_given_out session s relid"
  shows "\<exists>tid session' s'. append_pending_tuple relid tuple session s = (Inr tid, session', s')
    \<and> session_view s' session' relid = (session_view s session relid)(tid \<mapsto> tuple) \<and> (\<forall>other. session_view s' other = session_view s other)"
  using append_pending_tuple_view [OF assms(1,2)] assms(3) session_view_cong by metis

text \<open>The session that cleared the small relation, as \<^verbatim>\<open>replace_relation_from\<close> does it.\<close>

definition open_session :: SessionStorage where
  "open_session = idle_session\<lparr>ss_transaction_stack := [TransactionOverlay_default], ss_explicit_transaction := True\<rparr>"

definition after_clear :: "SessionStorage \<times> StorageState" where
  "after_clear = clear_relation_impl (\<lambda>_ _ _. None) 5 True open_session small_state"

lemma open_session_visible: "visible_tids small_state open_session 5 = [tid_at 0 1]"
proof -
  have "session_view small_state open_session 5 (tid_at 0 1) = Some [1, 2, 3]"
    using small_slice empty_stack_slice [of small_state 5 "tid_at 0 1" None]
    by (simp add: session_view_stack open_session_def stack_slice_def stack_visibility_def overlays_invalidate_tid_def overlays_clear_tid_def
        overlays_own_inserted_tid_def)
  moreover have "rs_live_tids small_relation = {tid_at 0 1}" by (simp add: small_relation_def)
  ultimately show ?thesis
    by (simp add: visible_tids_def small_state_def session_view_def open_session_def)
       (simp add: entries_of_def TransactionOverlay_default_def)
qed

lemma after_clear_stack:
  "\<exists>t. ss_transaction_stack (fst after_clear) = [t] \<and> entries_of (to_pending_pages t) 5 = []
     \<and> (\<forall>tid. Overlay_contains_invalidated_tid t 5 tid = (tid = tid_at 0 1)) \<and> rs_next_block (relation_mut 5 (snd after_clear)) = 1"
proof -
  have "ss_transaction_stack open_session = [TransactionOverlay_default]" by (simp add: open_session_def)
  thus ?thesis
    by (simp add: after_clear_def clear_relation_impl_def Let_def open_session_visible Session_mark_scans_visibility_delta_def put_top_overlay_def
        top_overlay_def Overlay_invalidate_def Overlay_record_relation_clear_def)
       (simp add: TransactionOverlay_default_def RelidMap_remove_def RelidMap_contains_key_def entries_of_def Overlay_contains_invalidated_tid_def
        relation_mut_def put_relation_def small_state_def small_relation_def push_unique_def)
qed

theorem append_seen_by_own_session_witness:
  "append_ready (fst after_clear) (snd after_clear) 5 \<and> length [8, 9 :: u8] < 2 ^ 32 \<and> deletes_given_out (fst after_clear) (snd after_clear) 5
   \<and> (\<exists>tid session' s'. append_pending_tuple 5 [8, 9] (fst after_clear) (snd after_clear) = (Inr tid, session', s')
     \<and> session_view s' session' 5 = (session_view (snd after_clear) (fst after_clear) 5)(tid \<mapsto> [8, 9])
     \<and> (\<forall>other. session_view s' other = session_view (snd after_clear) other))"
proof -
  obtain t where t: "ss_transaction_stack (fst after_clear) = [t]" "entries_of (to_pending_pages t) 5 = []"
      "\<And>tid. Overlay_contains_invalidated_tid t 5 tid = (tid = tid_at 0 1)" "rs_next_block (relation_mut 5 (snd after_clear)) = 1"
    using after_clear_stack by blast
  have top: "top_overlay (Session_ensure_transaction (fst after_clear)) = t" using t(1) by (simp add: Session_ensure_transaction_def top_overlay_def)
  have "append_ready (fst after_clear) (snd after_clear) 5" using t(2,4) by (simp add: append_ready_def top pending_ok_def)
  moreover have "deletes_given_out (fst after_clear) (snd after_clear) 5"
    using t by (auto simp: deletes_given_out_def top given_out_def find_last_def reinsertable_def tid_at_def)
  ultimately show ?thesis using append_seen_by_own_session [of "fst after_clear" "snd after_clear" 5 "[8, 9]"] by simp
qed

text \<open>C9: Aborting a transaction changes nothing that another session sees of a relation, provided the aborting
  session did not clear that relation (an abort then puts back the relation it cleared), the pages of the
  relation are well formed, and no row the aborting session inserted there is committed or was inserted by
  the other session. What the transaction did to other relations, clears included, does not matter.\<close>

theorem abort_unseen_by_others:
  assumes ok: "state_ok {relid} s" and own: "not_live {relid} (inserted_by session) s"
    and clr: "\<forall>t \<in> set (ss_transaction_stack session). relid \<notin> fst ` set (to_cleared_relations t)"
    and other: "\<forall>tid \<in> inserted_by session relid. \<not> Session_owns_inserted_tid other relid tid"
  shows "session_view (snd (abort_explicit_transaction session s)) other relid = session_view s other relid"
proof -
  let ?s = "fold rollback_overlay_from_relations (rev (ss_transaction_stack session)) s"
  have "state_kept {relid} (inserted_by session) s ?s"
    using own clr by (intro rollback_overlays_kept [OF ok]) (auto simp: inserted_by_def)
  hence "session_view ?s other relid = session_view s other relid" using other by (intro session_view_kept [OF ok]) auto
  moreover have "relation_slice (snd (abort_explicit_transaction session s)) = relation_slice ?s"
    by (intro relation_slice_cong) (simp add: abort_explicit_transaction_def rollback_all_overlays_def)
  ultimately show ?thesis using session_view_cong by metis
qed

theorem abort_unseen_by_others_witness:
  "state_ok {5} small_state \<and> not_live {5} (inserted_by busy_session) small_state
   \<and> map (\<lambda>t. map fst (to_cleared_relations t)) (ss_transaction_stack busy_session) = [[6]]
   \<and> inserted_by busy_session 5 = {tid_at 0 2} \<and> \<not> Session_owns_inserted_tid idle_session 5 (tid_at 0 2)
   \<and> session_view (snd (abort_explicit_transaction busy_session small_state)) idle_session 5 = session_view small_state idle_session 5"
proof -
  have own: "inserted_by busy_session relid = (if relid = 5 then {tid_at 0 2} else {})" for relid
    by (auto simp: inserted_by_def busy_session_def inserted_in_def)
  hence "not_live {5} (inserted_by busy_session) small_state"
    by (auto simp: not_live_def small_state_def small_relation_row committed_row_def tid_at_def)
  moreover have "state_ok {5} small_state" using small_relation_good by (auto simp: state_ok_def small_state_def rel_good_def rel_ok_def split: if_splits)
  moreover have "map (\<lambda>t. map fst (to_cleared_relations t)) (ss_transaction_stack busy_session) = [[6]]"
    by (simp add: busy_session_def)
  moreover have "\<not> Session_owns_inserted_tid idle_session 5 tid" for tid
    by (simp add: Session_owns_inserted_tid_def idle_session_def overlays_own_inserted_tid_def)
  moreover have "\<forall>t \<in> set (ss_transaction_stack busy_session). 5 \<notin> fst ` set (to_cleared_relations t)" by (simp add: busy_session_def)
  ultimately show ?thesis using abort_unseen_by_others [of 5 small_state busy_session idle_session] own by auto
qed

text \<open>C11: The commit of a pending page that is well formed and in a block its relation gave out, into a relation
  with good pages, takes one of two ways. Where later commands refer to the identifiers of the page, or the
  relation is empty, the page becomes a page of the relation: its rows keep their identifiers and states, no
  other row, no redirect and no counter changes. Else the rows move: provided the relation has a block left
  for each and no row is empty (an encoded tuple starts with a header), the commit returns, every row that
  is not dead is at an identifier that had no row, with its bytes and metadata and still pending, the old
  identifiers redirect to the new ones, no other row changes, and the counters of the relation are right
  if they were. Either way the pages of the relation are good afterwards.\<close>

theorem commit_moves_pending_rows:
  assumes "committable page r" "pages_good r"
    and "keeps_tids overlay relid page r
      \<or> unat (rs_next_block r) + length (moved_rows page) < 2 ^ 32 \<and> (\<forall>row \<in> snd ` set (moved_rows page). row_bytes row \<noteq> [])"
  shows "\<exists>new r'. commit_page epoch generation relid overlay page (r, remaps) = Some (r', remaps @ zip (map fst (moved_rows page)) new) \<and> pages_good r'
    \<and> (if keeps_tids overlay relid page r then new = [] \<and> stays_in page r r'
       else (rel_ok r \<longrightarrow> rel_ok r') \<and> moves_to (moved_rows page) new r r')"
proof (cases "keeps_tids overlay relid page r")
  case True
  thus ?thesis using commit_page_stays [OF assms(1,2) True, of epoch generation remaps] by auto
next
  case False
  have "room (rel_ok r) (length (moved_rows page)) r" using assms(2,3) False by (simp add: room_def sound_def)
  from commit_page_moves [OF _ this _ False, of epoch generation remaps] show ?thesis
    using assms(1,3) False by (auto simp: committable_def sound_def)
qed

text \<open>The page moves into the small relation and stays in an empty one.\<close>

theorem commit_moves_pending_rows_witness:
  "moved_rows moving_page = [(tid_at 9 1, \<lparr>row_state = Pending, row_xmin = 7, row_cmin = 0, row_xmax = 0, row_bytes = [1, 2, 3]\<rparr>)]
   \<and> (\<exists>new r'. commit_page 1 1 5 TransactionOverlay_default moving_page (small_relation\<lparr>rs_next_block := 10\<rparr>, []) =
       Some (r', zip (map fst (moved_rows moving_page)) new) \<and> rel_ok r' \<and> moves_to (moved_rows moving_page) new (small_relation\<lparr>rs_next_block := 10\<rparr>) r')
   \<and> (\<exists>r'. commit_page 1 1 5 TransactionOverlay_default moving_page (RelationStorage_default\<lparr>rs_next_block := 10\<rparr>, []) = Some (r', [])
       \<and> pages_good r' \<and> stays_in moving_page (RelationStorage_default\<lparr>rs_next_block := 10\<rparr>) r')"
proof -
  let ?r = "small_relation\<lparr>rs_next_block := 10\<rparr>" and ?e = "RelationStorage_default\<lparr>rs_next_block := 10\<rparr>"
  have rows: "moved_rows moving_page = [(tid_at 9 1, \<lparr>row_state = Pending, row_xmin = 7, row_cmin = 0, row_xmax = 0, row_bytes = [1, 2, 3]\<rparr>)]"
    by (simp add: moved_rows_def kept_lines_def moved_row_def moving_page_def small_page_def line_row_def tid_at_def)
  have blocks: "rs_next_block small_relation = 1" "rs_next_block RelationStorage_default = 0" by (simp_all add: small_relation_def RelationStorage_default_def)
  have small: "rel_ok small_relation" "pages_good small_relation" "pages_good RelationStorage_default"
    using small_relation_good rel_default_good rel_good_pages_good by (auto simp: rel_good_def)
  have count: "counted_tuples st ?r = counted_tuples st small_relation" for st by (cases st) (simp_all add: counted_tuples.simps)
  have ok: "rel_ok ?r" by (rule rel_ok_cong [OF small(1)]) (simp_all add: count blocks)
  have good: "pages_good ?r" by (rule pages_good_cong [OF small(2)]) (simp_all add: blocks)
  have empty: "pages_good ?e" by (rule pages_good_cong [OF small(3)]) (simp_all add: blocks)
  have page: "committable moving_page (r\<lparr>rs_next_block := 10\<rparr>)" for r
    using small_pages_ok(2) by (simp add: committable_def) (simp add: moving_page_def small_page_def)
  have stable: "\<not> Overlay_pending_page_needs_stable_tid TransactionOverlay_default 5 (pg_block moving_page)"
    by (simp add: Overlay_pending_page_needs_stable_tid_def TransactionOverlay_default_def entries_of_def)
  have moves: "\<not> keeps_tids TransactionOverlay_default 5 moving_page ?r" using stable by (simp add: keeps_tids_def relation_is_empty_def small_relation_def)
  have stays: "keeps_tids TransactionOverlay_default 5 moving_page ?e" by (simp add: keeps_tids_def relation_is_empty_def RelationStorage_default_def)
  show ?thesis
    using commit_moves_pending_rows [OF page good, of TransactionOverlay_default 5 1 1 "[]"]
      commit_moves_pending_rows [OF page empty, of TransactionOverlay_default 5 1 1 "[]"] rows ok moves stays by auto
qed

end
