(* ===== verification/Spec2Isabelle.thy ===== *)
theory Spec2Isabelle
  imports Hash_Update MemSmgr_Properties Storage2_Properties
begin

text \<open>
  A verification development for fastpg, a PostgreSQL build for unit tests whose relation storage can
  live in memory.

  \<^bold>\<open>The program.\<close> Two stores are modelled. The first is a stack of C components. At the bottom is the hash function of
  src/src/common/hashfn.c. On it stands the dynamic hash table of src/src/backend/utils/hash/dynahash.c,
  which grows by splitting one bucket at a time, keeps one free list or thirty-two, and can be scanned
  while entries are deleted. On the tables stands the memory storage manager of
  src/src/backend/storage/smgr/memsmgr.c: with a seed directory configured, relation forks live in
  hash tables of fork entries and page entries, partitioned and locked in shared memory for ordinary
  relations and private for temporary ones; pages come from a fixed arena; blocks that were never
  written are read from the files of the seed, whose names src/src/common/relpath.c builds and
  src/src/backend/storage/file/reinit.c and fd.c parse.

  The second is the table storage in Rust, src/crates/fastpg-storage2. A relation is a vector of pages
  of tuples with line pointers, counters of tuples and bytes by state, redirects from old to new row
  identifiers, a primary key index and secondary indexes. A session has a stack of overlays with its
  pending pages, inserted and deleted rows and redirects; a read goes through the overlays to the
  relation; a commit moves the pending rows into the relation, or inserts their page as it is where
  identifiers must not change, and an abort marks them dead and puts back what the session cleared.

  \<^bold>\<open>State and errors.\<close> A C function that may raise an error and changes state is a function
  \<open>'s \<Rightarrow> (pg_error + 'a) \<times> 's\<close> (theory \<open>Prelude\<close>): the state that an
  error leaves behind is part of the result, since \<^verbatim>\<open>ereport\<close> unwinds without undoing. Behaviour
  that C leaves undefined, such as following a null pointer, is an error value of its own. Machine
  integers are words of their width. Pointers into a table are the table's name and the key.
  A Rust method that changes its receiver returns the changed record, a \<^verbatim>\<open>Result\<close> is a sum, a panic
  of \<^verbatim>\<open>expect\<close> is \<open>None\<close>; \<^verbatim>\<open>usize\<close> is a natural number with the saturating and checked operations
  written out at \<open>2 ^ 64\<close>, the narrower integers are words.

  \<^bold>\<open>Theories.\<close>
  \<^item> \<open>Prelude\<close>: error values, state passing, loops over lists, lemmas on lists and words.
  \<^item> \<open>Hashfn\<close>: \<^verbatim>\<open>hash_bytes\<close> and its variants on both byte orders and both alignments. The
    aligned and the unaligned path agree, the integer variant agrees with the byte variant, the mixing
    step loses nothing.
  \<^item> \<open>Dynahash\<close>, \<open>Hash_Search\<close>: the record \<open>HTAB\<close> with its directory of segments of
    bucket chains and its free lists, \<^verbatim>\<open>hash_search\<close>, \<^verbatim>\<open>expand_table\<close> and allocation; the
    invariant of the table; a table is a partial map and every action is the map operation. The
    locale \<open>hash_table\<close> is the interface the later theories use, interpreted on these definitions.
  \<^item> \<open>Hash_Create\<close>: \<^verbatim>\<open>hash_create\<close>, sizing and preallocation; a fixed-size table holds as many
    keys as it was created for.
  \<^item> \<open>Hash_Scan\<close>, \<open>Hash_Update\<close>: sequential scans, their registry and the end-of-transaction
    functions, and \<^verbatim>\<open>hash_update_hash_key\<close>. A scan sees every entry once; deleting while scanning
    removes exactly the chosen keys.
  \<^item> \<open>Relpath\<close>: relation paths and their parsing; lengths, injectivity, round trips.
  \<^item> \<open>Pg_Wp\<close>: weakest preconditions with a postcondition for results and one for errors.
  \<^item> \<open>MemSmgr_State\<close>, \<open>MemSmgr\<close>: the records and all functions of memsmgr.c.
  \<^item> \<open>MemSmgr_Tables\<close>: the locale \<open>table_family\<close> over the tables of one kind, interpreted for
    fork tables and page tables. \<open>MemSmgr_Abs\<close>, \<open>MemSmgr_Pages\<close>, \<open>MemSmgr_Ops\<close>: the invariant
    \<open>mem_inv\<close>, the view \<open>mem_abs\<close> of a state as maps of entries and of page contents, and
    the rules for the internal functions on views.
  \<^item> \<open>MemSmgr_Spec\<close>, \<open>MemSmgr_Contract\<close>, \<open>MemSmgr_Runs\<close>, \<open>MemSmgr_Properties\<close>: a fork is a list of
    pages (\<open>fork_pages\<close>); each entry point is a list operation on one fork that leaves all
    other forks alone, with the errors it can raise; sequences of calls; the properties and the
    concrete state they are applied to.
  \<^item> \<open>Storage2_Page\<close>, \<open>Storage2_Relation\<close>: row identifiers (tid.rs), pages (page.rs), index keys
    (index.rs) and relations (relation.rs); \<open>page_ok\<close> and \<open>rel_ok\<close> are their invariants, \<open>Page_rows\<close> and
    \<open>rel_row\<close> their rows, and each operation is a change of rows.
  \<^item> \<open>Storage2_Overlay\<close>, \<open>Storage2_State\<close>: overlays and sessions (transaction.rs) and the operations of
    the whole storage (state.rs).
  \<^item> \<open>Storage2_Visibility\<close>: what a stack of overlays makes of a row; chains of redirects in the locale
    \<open>redirect_field\<close>, interpreted for hot redirects and for update redirects; compressing a chain
    changes no resolution, hence no lookup.
  \<^item> \<open>Storage2_Transactions\<close>: appends and rollbacks and the rows each session sees (\<open>session_view\<close>).
    An append gives out an identifier that was not given out before; a rollback changes only rows of
    the aborting session and the relations it cleared.
  \<^item> \<open>Storage2_Layout\<close>: the pages of a relation apart from its counters (\<open>pages_good\<close>).
    \<open>Storage2_Commit\<close>: both ways of committing a page, the moves of its rows (\<open>moves_to\<close>) and its
    insertion as a whole (\<open>stays_in\<close>). \<open>Storage2_Runs\<close>: sequences of page and relation operations,
    over the locale \<open>kept_by\<close>, and which of them keep the counters right (\<open>uncounted\<close>).
    \<open>Storage2_Properties\<close>: the properties and a small storage they are applied to.

  \<^bold>\<open>Bounds and fuel.\<close> Loops over lists and chains are structural. The scan loop of a hash table runs on
  fuel, and the scan lemmas show that the number of entries and buckets is enough. The loop over seed
  segments has no bound of its own and is a partial function; it is shown to end when a segment is
  short or missing. The loop that sizes the allocation of hash elements doubles a 64-bit size that wraps
  to zero; it is a partial function too, and shown to end exactly for element sizes from 1 to
  \<open>2 ^ 58\<close>. Block ranges of writes stay below \<open>2 ^ 31\<close>, where the C conversions between
  \<^verbatim>\<open>int\<close> and \<^verbatim>\<open>BlockNumber\<close> are exact. Redirects are followed for at most the million hops of the code;
  what is shown of lookups supposes that chains end within them. A tuple has a length below \<open>2 ^ 32\<close>, as
  its line pointer does.

  \<^bold>\<open>Parameters.\<close> The disk storage manager md.c, the file system, the allocator's answers, what fresh
  memory of a hash entry holds, and the calls of asynchronous I/O (recorded as a trace) are arguments
  of the model, as is the extraction of the primary key from an encoded tuple. Locks are the list of those this backend holds; taking a lock twice is an error.

  \<^bold>\<open>Not modelled.\<close> Of the table storage: the encoding of datums into tuples and the appends that encode
  in place, which read memory of PostgreSQL through raw pointers; stepping of scans, updates and unique
  checks of the current session, byte accounting, metrics and the C interface; the global locks, each
  operation being one step under them. The counters of a relation are shown right through the operations
  of relation.rs and the moves of a commit, except after the insertion, marking or restoring of a whole
  page, which the code does not count; its pages are followed through all of them. Runs of the memory
  storage manager end with the first call that finds the page arena full: the code then leaves a page
  entry that points to a page of another fork. The rest of PostgreSQL: the parser, planner and executor, the table access method
  of src/src/backend/access/fastpg, the buffer manager, md.c itself, shared memory allocation and the
  lock manager; text of error messages beyond their format string; memory contexts.
\<close>

end
